(* ===== verification/Rust_Std.thy ===== *)
theory Rust_Std
  imports Main "HOL-Library.Word"
begin

text \<open>
  The part of the Rust standard library that the protocol crates use, modelled once.

  A Rust \<open>str\<close> is modelled by its UTF-8 bytes, a \<open>string\<close> (list of 8-bit \<open>char\<close>), so that
  \<open>len()\<close> is \<open>length\<close>, slicing is \<open>take\<close>/\<open>drop\<close> and every byte offset is the
  code's. Searching for an ASCII delimiter byte-wise agrees with searching for the character,
  since no byte of a longer UTF-8 sequence is below 128. Multi-byte white space is
  recognised by its encoding, so \<open>trim\<close> removes Unicode \<open>White_Space\<close> as Rust's does.
  Byte buffers of the text protocols are \<open>string\<close> as well; the binary formats use
  \<open>8 word list\<close>.

  Contents: UTF-8 validation and lossy decoding, white space and trimming, splitting at
  delimiters and at CRLF, unsigned integers (printing, parsing, checked arithmetic), and the
  lemma collections the components use.
\<close>

section \<open>Types and lemma collections\<close>

type_synonym bytes = string

type_synonym u8 = "8 word"
type_synonym u16 = "16 word"
type_synonym u32 = "32 word"

named_theorems utf8_intros \<open>validity of concatenated UTF-8 strings\<close>
named_theorems ascii_simps \<open>facts about concrete and ASCII characters\<close>
named_theorems str_simps \<open>rewrite rules for trimming and splitting\<close>

abbreviation CR :: char where "CR \<equiv> CHR 0x0D"
abbreviation LF :: char where "LF \<equiv> CHR 0x0A"
abbreviation CRLF :: string where "CRLF \<equiv> [CR, LF]"

abbreviation bval :: "char \<Rightarrow> nat" where "bval c \<equiv> of_char c"

definition ascii :: "char \<Rightarrow> bool" where
  "ascii c \<longleftrightarrow> bval c < 128"

definition between :: "nat \<Rightarrow> nat \<Rightarrow> char \<Rightarrow> bool" where
  "between lo hi c \<longleftrightarrow> lo \<le> bval c \<and> bval c \<le> hi"

section \<open>UTF-8\<close>

text \<open>
  \<open>utf8_step\<close> classifies the head of a byte string the way \<open>core::str\<close> does: \<open>Inr n\<close> for a
  well-formed sequence of \<open>n\<close> bytes, \<open>Inl n\<close> for a maximal ill-formed prefix of \<open>n\<close> bytes
  (the unit that \<open>from_utf8_lossy\<close> replaces by one U+FFFD). A byte read past the end counts
  as 0, which is no continuation byte.
\<close>

definition cont :: "char \<Rightarrow> bool" where
  "cont c \<longleftrightarrow> between 0x80 0xBF c"

definition byte_at :: "string \<Rightarrow> nat \<Rightarrow> char" where
  "byte_at s i = (if i < length s then s ! i else CHR 0x00)"

definition second_ok :: "nat \<Rightarrow> char \<Rightarrow> bool" where
  "second_ok b c =
     (if b = 0xE0 then between 0xA0 0xBF c
      else if b = 0xED then between 0x80 0x9F c
      else if b = 0xF0 then between 0x90 0xBF c
      else if b = 0xF4 then between 0x80 0x8F c
      else cont c)"

definition utf8_step :: "string \<Rightarrow> nat + nat" where
  "utf8_step s =
     (let b = bval (byte_at s 0) in
      if b < 0x80 then Inr 1
      else if 0xC2 \<le> b \<and> b \<le> 0xDF then
        (if cont (byte_at s 1) then Inr 2 else Inl 1)
      else if 0xE0 \<le> b \<and> b \<le> 0xEF then
        (if \<not> second_ok b (byte_at s 1) then Inl 1
         else if \<not> cont (byte_at s 2) then Inl 2 else Inr 3)
      else if 0xF0 \<le> b \<and> b \<le> 0xF4 then
        (if \<not> second_ok b (byte_at s 1) then Inl 1
         else if \<not> cont (byte_at s 2) then Inl 2
         else if \<not> cont (byte_at s 3) then Inl 3 else Inr 4)
      else Inl 1)"

lemma utf8_step_bounds: "utf8_step s = Inr n \<Longrightarrow> 1 \<le> n \<and> n \<le> 4"
  by (auto simp: utf8_step_def Let_def split: if_splits)

lemma utf8_step_error_pos: "utf8_step s = Inl n \<Longrightarrow> 1 \<le> n"
  by (auto simp: utf8_step_def Let_def split: if_splits)

lemma cont_zero [simp]: "\<not> cont (CHR 0x00)" "\<not> second_ok b (CHR 0x00)"
  by (auto simp: cont_def second_ok_def between_def)

lemma cont_byte_at_length: "cont (byte_at s i) \<Longrightarrow> i < length s"
  by (auto simp: byte_at_def split: if_splits)

lemma second_ok_byte_at_length: "second_ok b (byte_at s i) \<Longrightarrow> i < length s"
  by (auto simp: byte_at_def split: if_splits)

lemma utf8_step_le_length: "s \<noteq> [] \<Longrightarrow> utf8_step s = Inr n \<Longrightarrow> n \<le> length s"
  by (cases s) (auto simp: utf8_step_def Let_def Suc_le_eq eval_nat_numeral
      dest!: cont_byte_at_length second_ok_byte_at_length split: if_splits)

lemma byte_at_append: "i < length s \<Longrightarrow> byte_at (s @ t) i = byte_at s i"
  by (simp add: byte_at_def nth_append)

text \<open>A complete sequence at the head is classified without looking past it.\<close>

lemma utf8_step_append:
  assumes "s \<noteq> []" "utf8_step s = Inr n"
  shows "utf8_step (s @ t) = Inr n"
proof -
  have 0: "byte_at (s @ t) 0 = byte_at s 0"
    using assms(1) by (simp add: byte_at_append)
  have c: "byte_at (s @ t) i = byte_at s i" if "cont (byte_at s i)" for i
    using that by (intro byte_at_append cont_byte_at_length)
  have d: "byte_at (s @ t) i = byte_at s i" if "second_ok b (byte_at s i)" for i b
    using that by (intro byte_at_append second_ok_byte_at_length)
  show ?thesis
    using assms(2) by (auto simp: utf8_step_def Let_def 0 c d split: if_splits)
qed

function valid_utf8 :: "string \<Rightarrow> bool" where
  "valid_utf8 s =
     (if s = [] then True
      else case utf8_step s of Inr n \<Rightarrow> valid_utf8 (drop n s) | Inl _ \<Rightarrow> False)"
  by pat_completeness auto
termination
  by (relation "measure length") (auto dest!: utf8_step_bounds simp: neq_Nil_conv)

declare valid_utf8.simps [simp del]

definition from_utf8 :: "bytes \<Rightarrow> string option" where
  "from_utf8 b = (if valid_utf8 b then Some b else None)"

definition replacement :: string where
  "replacement = [CHR 0xEF, CHR 0xBF, CHR 0xBD]"

function from_utf8_lossy :: "bytes \<Rightarrow> string" where
  "from_utf8_lossy s =
     (if s = [] then []
      else case utf8_step s of
             Inr n \<Rightarrow> take n s @ from_utf8_lossy (drop n s)
           | Inl n \<Rightarrow> replacement @ from_utf8_lossy (drop n s))"
  by pat_completeness auto
termination
  by (relation "measure length") (auto dest!: utf8_step_bounds utf8_step_error_pos simp: neq_Nil_conv)

declare from_utf8_lossy.simps [simp del]

lemma valid_utf8_Nil [simp, utf8_intros]: "valid_utf8 []"
  by (subst valid_utf8.simps) simp

lemma utf8_step_ascii: "ascii c \<Longrightarrow> utf8_step (c # s) = Inr 1"
  by (simp add: utf8_step_def byte_at_def ascii_def)

lemma valid_utf8_ascii_Cons [simp]: "ascii c \<Longrightarrow> valid_utf8 (c # s) = valid_utf8 s"
  by (subst valid_utf8.simps) (simp add: utf8_step_ascii)

lemma valid_utf8_append [utf8_intros]:
  "valid_utf8 s \<Longrightarrow> valid_utf8 t \<Longrightarrow> valid_utf8 (s @ t)"
proof (induction s rule: valid_utf8.induct)
  case (1 s)
  show ?case
  proof (cases "s = []")
    case True
    with "1.prems" show ?thesis by simp
  next
    case False
    with "1.prems"(1) obtain n where n: "utf8_step s = Inr n" and v: "valid_utf8 (drop n s)"
      by (subst (asm) valid_utf8.simps) (auto split: sum.splits)
    have le: "n \<le> length s"
      using False n by (rule utf8_step_le_length)
    have "valid_utf8 (drop n s @ t)"
      using "1.IH" False n v "1.prems"(2) by simp
    then show ?thesis
      using False n le by (subst valid_utf8.simps) (simp add: utf8_step_append)
  qed
qed

lemma ascii_valid_utf8 [utf8_intros]: "\<forall>c \<in> set s. ascii c \<Longrightarrow> valid_utf8 s"
  by (induction s) auto

lemma from_utf8_valid [simp]: "valid_utf8 s \<Longrightarrow> from_utf8 s = Some s"
  by (simp add: from_utf8_def)

lemma from_utf8_SomeD: "from_utf8 b = Some s \<Longrightarrow> s = b \<and> valid_utf8 b"
  by (auto simp: from_utf8_def split: if_splits)

lemma from_utf8_lossy_valid: "valid_utf8 s \<Longrightarrow> from_utf8_lossy s = s"
proof (induction s rule: from_utf8_lossy.induct)
  case (1 s)
  show ?case
  proof (cases "s = []")
    case True
    then show ?thesis by (simp add: from_utf8_lossy.simps)
  next
    case False
    with "1.prems" obtain n where n: "utf8_step s = Inr n" and v: "valid_utf8 (drop n s)"
      by (subst (asm) valid_utf8.simps) (auto split: sum.splits)
    have "from_utf8_lossy (drop n s) = drop n s"
      using "1.IH" False n v by simp
    then show ?thesis
      using False n by (subst from_utf8_lossy.simps) simp
  qed
qed

end
