(* ===== verification/Rust_Str.thy ===== *)
theory Rust_Str
  imports Rust_Std
begin

text \<open>
  String functions of the Rust standard library: \<open>trim\<close> and its halves (Unicode white space,
  recognised by its UTF-8 encoding), \<open>split_once\<close>, \<open>split\<close>, \<open>strip_prefix\<close>,
  \<open>strip_suffix\<close>, the position of the first CRLF in a buffer, decimal printing and the
  \<open>FromStr\<close> parser of the unsigned integer types.
\<close>

section \<open>White space and trimming\<close>

definition ascii_ws :: "char \<Rightarrow> bool" where
  "ascii_ws c \<longleftrightarrow> between 9 13 c \<or> bval c = 32"

text \<open>The two- and three-byte encodings of the non-ASCII characters with \<open>White_Space\<close>.\<close>

definition ws2 :: "char \<Rightarrow> char \<Rightarrow> bool" where
  "ws2 b0 b1 \<longleftrightarrow> bval b0 = 0xC2 \<and> (bval b1 = 0x85 \<or> bval b1 = 0xA0)"

definition ws3 :: "char \<Rightarrow> char \<Rightarrow> char \<Rightarrow> bool" where
  "ws3 b0 b1 b2 \<longleftrightarrow>
     bval b0 = 0xE1 \<and> bval b1 = 0x9A \<and> bval b2 = 0x80
   \<or> bval b0 = 0xE2 \<and> bval b1 = 0x80 \<and>
       (between 0x80 0x8A b2 \<or> bval b2 = 0xA8 \<or> bval b2 = 0xA9 \<or> bval b2 = 0xAF)
   \<or> bval b0 = 0xE2 \<and> bval b1 = 0x81 \<and> bval b2 = 0x9F
   \<or> bval b0 = 0xE3 \<and> bval b1 = 0x80 \<and> bval b2 = 0x80"

text \<open>The number of bytes of the white-space character at the head (at the end); 0 for none.\<close>

definition ws_head :: "string \<Rightarrow> nat" where
  "ws_head s =
     (if ascii_ws (byte_at s 0) then 1
      else if ws2 (byte_at s 0) (byte_at s 1) then 2
      else if ws3 (byte_at s 0) (byte_at s 1) (byte_at s 2) then 3 else 0)"

definition ws_last :: "string \<Rightarrow> nat" where
  "ws_last s =
     (let r = rev s in
      if ascii_ws (byte_at r 0) then 1
      else if ws2 (byte_at r 1) (byte_at r 0) then 2
      else if ws3 (byte_at r 2) (byte_at r 1) (byte_at r 0) then 3 else 0)"

lemma ws_zero [simp]:
  "\<not> ascii_ws (CHR 0x00)" "\<not> ws2 a (CHR 0x00)" "\<not> ws2 (CHR 0x00) b"
  "\<not> ws3 a b (CHR 0x00)" "\<not> ws3 (CHR 0x00) b c"
  by (auto simp: ascii_ws_def ws2_def ws3_def between_def)

lemma ws_Nil [simp]: "ws_head [] = 0" "ws_last [] = 0"
  by (simp_all add: ws_head_def ws_last_def byte_at_def)

lemma ws_head_le: "ws_head s \<le> length s"
  by (cases s; cases "tl s") (auto simp: ws_head_def byte_at_def Suc_le_eq split: if_splits)

lemma ws_last_le: "ws_last s \<le> length s"
  by (cases "rev s"; cases "tl (rev s)") (auto simp: ws_last_def byte_at_def Let_def Suc_le_eq split: if_splits)

function trim_start :: "string \<Rightarrow> string" where
  "trim_start s = (if ws_head s = 0 then s else trim_start (drop (ws_head s) s))"
  by pat_completeness auto
termination
proof (relation "measure length")
  show "wf (measure (length :: string \<Rightarrow> nat))" by simp
next
  fix s :: string assume "ws_head s \<noteq> 0"
  with ws_head_le [of s] show "(drop (ws_head s) s, s) \<in> measure length" by simp
qed

function trim_end :: "string \<Rightarrow> string" where
  "trim_end s = (if ws_last s = 0 then s else trim_end (take (length s - ws_last s) s))"
  by pat_completeness auto
termination
proof (relation "measure length")
  show "wf (measure (length :: string \<Rightarrow> nat))" by simp
next
  fix s :: string assume "ws_last s \<noteq> 0"
  with ws_last_le [of s] show "(take (length s - ws_last s) s, s) \<in> measure length" by simp
qed

declare trim_start.simps [simp del] trim_end.simps [simp del]

definition trim :: "string \<Rightarrow> string" where
  "trim s = trim_end (trim_start s)"

lemma trim_start_id: "ws_head s = 0 \<Longrightarrow> trim_start s = s"
  by (subst trim_start.simps) simp

lemma trim_end_id: "ws_last s = 0 \<Longrightarrow> trim_end s = s"
  by (subst trim_end.simps) simp

lemma trim_id: "ws_head s = 0 \<Longrightarrow> ws_last s = 0 \<Longrightarrow> trim s = s"
  by (simp add: trim_def trim_start_id trim_end_id)

lemma trim_Nil [simp]: "trim [] = []"
  by (simp add: trim_id)

lemma ws_head_trim_start: "ws_head (trim_start s) = 0"
  by (induction s rule: trim_start.induct) (subst trim_start.simps, simp)

lemma ws_last_trim_end: "ws_last (trim_end s) = 0"
  by (induction s rule: trim_end.induct) (subst trim_end.simps, simp)

lemma length_trim_start: "length (trim_start s) \<le> length s"
proof (induction s rule: trim_start.induct)
  case (1 s)
  then show ?case by (subst trim_start.simps) (auto intro: le_trans)
qed

lemma trim_end_prefix: "\<exists>t. s = trim_end s @ t"
proof (induction s rule: trim_end.induct)
  case (1 s)
  show ?case
  proof (cases "ws_last s = 0")
    case True
    then show ?thesis by (simp add: trim_end_id)
  next
    case False
    then obtain t where "take (length s - ws_last s) s = trim_end (take (length s - ws_last s) s) @ t"
      using "1.IH" by blast
    moreover have "s = take (length s - ws_last s) s @ drop (length s - ws_last s) s" by simp
    ultimately have "s = trim_end (take (length s - ws_last s) s) @ (t @ drop (length s - ws_last s) s)"
      by (metis append.assoc)
    moreover have "trim_end s = trim_end (take (length s - ws_last s) s)"
      using False by (subst trim_end.simps) simp
    ultimately show ?thesis by metis
  qed
qed

lemma byte_at_prefix: "byte_at s i \<noteq> CHR 0x00 \<Longrightarrow> byte_at (s @ t) i = byte_at s i"
  by (auto simp: byte_at_def nth_append split: if_splits)

lemma ws_head_append:
  assumes "ws_head s \<noteq> 0"
  shows "ws_head (s @ t) \<noteq> 0"
proof -
  have 0: "ascii_ws (byte_at s 0) \<Longrightarrow> byte_at (s @ t) 0 = byte_at s 0"
    by (rule byte_at_prefix) auto
  have 1: "byte_at (s @ t) 0 = byte_at s 0" "byte_at (s @ t) 1 = byte_at s 1"
    if "ws2 (byte_at s 0) (byte_at s 1)"
    using that by (auto intro!: byte_at_prefix)
  have 2: "byte_at (s @ t) 0 = byte_at s 0" "byte_at (s @ t) 1 = byte_at s 1"
    "byte_at (s @ t) 2 = byte_at s 2"
    if "ws3 (byte_at s 0) (byte_at s 1) (byte_at s 2)"
  proof -
    have "byte_at s i \<noteq> CHR 0x00" if "i \<in> {0, 1, 2}" for i
      using that \<open>ws3 _ _ _\<close> by (auto simp: ws3_def between_def)
    then show "byte_at (s @ t) 0 = byte_at s 0" "byte_at (s @ t) 1 = byte_at s 1"
      "byte_at (s @ t) 2 = byte_at s 2"
      by (simp_all add: byte_at_prefix)
  qed
  show ?thesis
    using assms 0 1 2 by (fastforce simp: ws_head_def split: if_splits)
qed

text \<open>Trimming ends in a string that trimming leaves alone.\<close>

lemma ws_head_trim [simp]: "ws_head (trim s) = 0"
proof (rule ccontr)
  assume "ws_head (trim s) \<noteq> 0"
  moreover obtain t where "trim_start s = trim s @ t"
    using trim_end_prefix [of "trim_start s"] by (auto simp: trim_def)
  ultimately have "ws_head (trim_start s) \<noteq> 0"
    by (simp add: ws_head_append)
  then show False by (simp add: ws_head_trim_start)
qed

lemma ws_last_trim [simp]: "ws_last (trim s) = 0"
  by (simp add: trim_def ws_last_trim_end)

lemma trim_idem [simp, str_simps]: "trim (trim s) = trim s"
  by (simp add: trim_id)

lemma trim_eq_self_iff: "trim s = s \<longleftrightarrow> ws_head s = 0 \<and> ws_last s = 0"
  by (metis trim_id ws_head_trim ws_last_trim)

lemma trim_self_ws: "trim s = s \<Longrightarrow> ws_head s = 0" "trim s = s \<Longrightarrow> ws_last s = 0"
  by (simp_all add: trim_eq_self_iff)

lemma trim_start_ws: "ascii_ws c \<Longrightarrow> trim_start (c # s) = trim_start s"
  by (subst trim_start.simps) (simp add: ws_head_def byte_at_def)

lemma trim_ws_Cons [str_simps]: "ascii_ws c \<Longrightarrow> trim (c # s) = trim s"
  by (simp add: trim_def trim_start_ws)

lemma ws_head_ascii: "ascii c \<Longrightarrow> \<not> ascii_ws c \<Longrightarrow> ws_head (c # s) = 0"
  by (auto simp: ws_head_def byte_at_def ascii_def ws2_def ws3_def)

lemma ws_last_ascii: "ascii c \<Longrightarrow> \<not> ascii_ws c \<Longrightarrow> ws_last (s @ [c]) = 0"
  by (auto simp: ws_last_def byte_at_def ascii_def ws2_def ws3_def between_def)

text \<open>A string that starts and ends with a visible ASCII character is its own trimming.\<close>

lemma trim_visible:
  assumes "s \<noteq> []" "\<forall>c \<in> {hd s, last s}. ascii c \<and> \<not> ascii_ws c"
  shows "trim s = s"
proof (rule trim_id)
  show "ws_head s = 0"
    using assms by (cases s) (auto intro: ws_head_ascii)
  show "ws_last s = 0"
    using assms ws_last_ascii [of "last s" "butlast s"] by simp
qed

lemma trim_visible_all:
  "\<forall>c \<in> set s. ascii c \<and> \<not> ascii_ws c \<Longrightarrow> trim s = s"
  by (cases "s = []") (auto intro!: trim_visible)

section \<open>Splitting\<close>

fun split_once :: "char \<Rightarrow> string \<Rightarrow> (string \<times> string) option" where
  "split_once c [] = None"
| "split_once c (x # xs) =
     (if x = c then Some ([], xs) else map_option (apfst (Cons x)) (split_once c xs))"

lemma split_once_append [simp]: "c \<notin> set a \<Longrightarrow> split_once c (a @ c # b) = Some (a, b)"
  by (induction a) auto

lemma split_once_None [simp]: "split_once c s = None \<longleftrightarrow> c \<notin> set s"
  by (induction s) auto

lemma split_once_notin [simp]: "c \<notin> set s \<Longrightarrow> split_once c s = None"
  by simp

lemma split_once_SomeD: "split_once c s = Some (a, b) \<Longrightarrow> s = a @ c # b \<and> c \<notin> set a"
  by (induction s arbitrary: a) (auto split: if_splits)

text \<open>\<open>str::split\<close> yields one piece more than there are delimiters.\<close>

fun split_all :: "char \<Rightarrow> string \<Rightarrow> string list" where
  "split_all c [] = [[]]"
| "split_all c (x # xs) =
     (if x = c then [] # split_all c xs
      else case split_all c xs of [] \<Rightarrow> [[x]] | p # ps \<Rightarrow> (x # p) # ps)"

lemma split_all_not_Nil [simp]: "split_all c s \<noteq> []"
  by (induction s) (auto split: list.splits)

lemma split_all_single [simp]: "c \<notin> set s \<Longrightarrow> split_all c s = [s]"
  by (induction s) auto

lemma split_all_append [simp]: "c \<notin> set a \<Longrightarrow> split_all c (a @ c # b) = a # split_all c b"
  by (induction a) auto

lemma split_all_no_delim: "p \<in> set (split_all c s) \<Longrightarrow> c \<notin> set p"
  by (induction s arbitrary: p) (auto split: list.splits if_splits)

definition strip_prefix :: "string \<Rightarrow> string \<Rightarrow> string option" where
  "strip_prefix p s = (if take (length p) s = p then Some (drop (length p) s) else None)"

definition strip_suffix :: "string \<Rightarrow> string \<Rightarrow> string option" where
  "strip_suffix p s =
     (if length p \<le> length s \<and> drop (length s - length p) s = p
      then Some (take (length s - length p) s) else None)"

lemma strip_prefix_append [simp]: "strip_prefix p (p @ s) = Some s"
  by (simp add: strip_prefix_def)

lemma strip_prefix_Nil [simp]: "strip_prefix [] s = Some s"
  by (simp add: strip_prefix_def)

lemma strip_prefix_Cons [simp]:
  "strip_prefix (a # p) [] = None"
  "strip_prefix (a # p) (b # s) = (if a = b then strip_prefix p s else None)"
  by (auto simp: strip_prefix_def)

lemma strip_suffix_append [simp]: "strip_suffix p (s @ p) = Some s"
  by (simp add: strip_suffix_def)

lemma strip_prefix_SomeD: "strip_prefix p s = Some t \<Longrightarrow> s = p @ t"
  by (auto simp: strip_prefix_def split: if_splits) (metis append_take_drop_id)

lemma strip_suffix_SomeD: "strip_suffix p s = Some t \<Longrightarrow> s = t @ p"
  by (auto simp: strip_suffix_def split: if_splits) (metis append_take_drop_id)

text \<open>
  The first CRLF of a buffer: the bytes before it and the bytes after it
  (\<open>windows(2).position(..)\<close> followed by the two slices).
\<close>

fun split_crlf :: "string \<Rightarrow> (string \<times> string) option" where
  "split_crlf (x # y # r) =
     (if x = CR \<and> y = LF then Some ([], r) else map_option (apfst (Cons x)) (split_crlf (y # r)))"
| "split_crlf _ = None"

lemma split_crlf_append [simp]: "split_crlf h = None \<Longrightarrow> split_crlf (h @ CR # LF # d) = Some (h, d)"
  by (induction h rule: split_crlf.induct) (auto split: if_splits)

lemma split_crlf_SomeD: "split_crlf s = Some (h, d) \<Longrightarrow> s = h @ CR # LF # d \<and> split_crlf h = None"
proof (induction s arbitrary: h rule: split_crlf.induct)
  case (1 x y r)
  show ?case
  proof (cases "x = CR \<and> y = LF")
    case True
    with "1.prems" show ?thesis by auto
  next
    case False
    with "1.prems" obtain h' where h': "split_crlf (y # r) = Some (h', d)" "h = x # h'"
      by auto
    with "1.IH" False have "y # r = h' @ CR # LF # d" "split_crlf h' = None" by blast+
    with h' False show ?thesis by (cases h') auto
  qed
qed simp_all

lemma split_crlf_no_CR [simp]: "CR \<notin> set h \<Longrightarrow> split_crlf h = None"
  by (induction h rule: split_crlf.induct) auto

lemma split_crlf_Cons [simp]: "x \<noteq> CR \<Longrightarrow> split_crlf (x # s) = map_option (apfst (Cons x)) (split_crlf s)"
  by (cases s) auto

lemma split_crlf_prefix: "CR \<notin> set a \<Longrightarrow> split_crlf (a @ s) = map_option (apfst ((@) a)) (split_crlf s)"
proof (induction a)
  case Nil
  show ?case by (simp add: option.map_ident_strong apfst_def map_prod_def)
next
  case (Cons x a)
  then show ?case
    by (cases "a @ s"; cases "split_crlf s") (auto simp: apfst_def map_prod_def)
qed

section \<open>Unsigned integers as text\<close>

definition digit_char :: "nat \<Rightarrow> char" where
  "digit_char d = char_of (48 + d)"

lemma digit_char_code:
  "map digit_char [0, 1, 2, 3, 4, 5, 6, 7, 8, 9] = ''0123456789''"
  by code_simp

lemma digit_char_simps [simp]:
  "digit_char 0 = CHR ''0''" "digit_char 1 = CHR ''1''" "digit_char (Suc 0) = CHR ''1''"
  "digit_char 2 = CHR ''2''" "digit_char 3 = CHR ''3''" "digit_char 4 = CHR ''4''"
  "digit_char 5 = CHR ''5''" "digit_char 6 = CHR ''6''" "digit_char 7 = CHR ''7''"
  "digit_char 8 = CHR ''8''" "digit_char 9 = CHR ''9''"
  using digit_char_code by simp_all

definition is_digit :: "char \<Rightarrow> bool" where
  "is_digit c \<longleftrightarrow> between 48 57 c"

definition digit_val :: "char \<Rightarrow> nat" where
  "digit_val c = bval c - 48"

fun show_nat :: "nat \<Rightarrow> string" where
  "show_nat n = (if n < 10 then [digit_char n] else show_nat (n div 10) @ [digit_char (n mod 10)])"

declare show_nat.simps [simp del]

definition nat_of_digits :: "string \<Rightarrow> nat" where
  "nat_of_digits s = foldl (\<lambda>n c. 10 * n + digit_val c) 0 s"

text \<open>
  \<open>FromStr\<close> of an unsigned type with largest value \<open>m\<close>: one optional \<open>+\<close>, at least one digit,
  digits only, and the value must fit.
\<close>

definition parse_uint :: "nat \<Rightarrow> string \<Rightarrow> nat option" where
  "parse_uint m s =
     (let ds = (case s of [] \<Rightarrow> [] | c # r \<Rightarrow> if c = CHR ''+'' then r else s) in
      if ds = [] \<or> \<not> list_all is_digit ds then None
      else if nat_of_digits ds \<le> m then Some (nat_of_digits ds) else None)"

abbreviation u8_max :: nat where "u8_max \<equiv> 255"
abbreviation u16_max :: nat where "u16_max \<equiv> 65535"
abbreviation u32_max :: nat where "u32_max \<equiv> 4294967295"
abbreviation u64_max :: nat where "u64_max \<equiv> 18446744073709551615"

lemma parse_uint_le: "parse_uint m s = Some n \<Longrightarrow> n \<le> m"
  by (auto simp: parse_uint_def Let_def split: if_splits)

lemma bval_digit_char [simp]: "d < 10 \<Longrightarrow> bval (digit_char d) = 48 + d"
  by (simp add: digit_char_def)

lemma is_digit_digit_char [simp]: "d < 10 \<Longrightarrow> is_digit (digit_char d)"
  by (simp add: is_digit_def between_def)

lemma digit_val_digit_char [simp]: "d < 10 \<Longrightarrow> digit_val (digit_char d) = d"
  by (simp add: digit_val_def)

lemma show_nat_digits: "\<forall>c \<in> set (show_nat n). is_digit c"
  by (induction n rule: show_nat.induct) (subst show_nat.simps, auto)

lemma show_nat_not_Nil [simp]: "show_nat n \<noteq> []"
  by (subst show_nat.simps) simp

lemma nat_of_digits_snoc [simp]: "nat_of_digits (s @ [c]) = 10 * nat_of_digits s + digit_val c"
  by (simp add: nat_of_digits_def)

lemma nat_of_digits_show [simp]: "nat_of_digits (show_nat n) = n"
proof (induction n rule: show_nat.induct)
  case (1 n)
  then show ?case
    by (subst show_nat.simps) (auto simp: nat_of_digits_def)
qed

lemma is_digit_visible: "is_digit c \<Longrightarrow> ascii c \<and> \<not> ascii_ws c"
  by (auto simp: is_digit_def ascii_def ascii_ws_def between_def)

lemma digit_neq [ascii_simps]:
  assumes "is_digit c"
  shows "c \<noteq> CHR ''+''" "c \<noteq> CR" "c \<noteq> LF" "c \<noteq> CHR '' ''" "c \<noteq> CHR ''-''"
  using assms by (auto simp: is_digit_def between_def)

lemma show_nat_notin [simp]:
  "CHR ''+'' \<notin> set (show_nat n)" "CR \<notin> set (show_nat n)" "LF \<notin> set (show_nat n)"
  "CHR '' '' \<notin> set (show_nat n)" "CHR ''-'' \<notin> set (show_nat n)"
  using show_nat_digits [of n] by (auto dest!: bspec simp: is_digit_def between_def)

lemma parse_show_nat [simp]: "n \<le> m \<Longrightarrow> parse_uint m (show_nat n) = Some n"
proof -
  assume "n \<le> m"
  have "(case show_nat n of [] \<Rightarrow> [] | c # r \<Rightarrow> if c = CHR ''+'' then r else show_nat n) = show_nat n"
    using show_nat_notin(1) [of n] by (cases "show_nat n") (auto simp del: show_nat_notin)
  with \<open>n \<le> m\<close> show ?thesis
    using show_nat_digits [of n] by (simp add: parse_uint_def list_all_iff)
qed

lemma trim_show_nat [simp]: "trim (show_nat n) = show_nat n"
  using show_nat_digits by (intro trim_visible_all) (auto dest: is_digit_visible)

lemma valid_utf8_show_nat [simp, utf8_intros]: "valid_utf8 (show_nat n)"
  using show_nat_digits by (intro ascii_valid_utf8) (auto dest: is_digit_visible)

lemma show_nat_inject [simp]: "show_nat m = show_nat n \<longleftrightarrow> m = n"
  by (metis nat_of_digits_show)

text \<open>A number of two or more digits is no single-digit token.\<close>

lemma length_show_nat_ge2: "10 \<le> n \<Longrightarrow> 2 \<le> length (show_nat n)"
  by (subst show_nat.simps) (simp add: Suc_le_eq)

text \<open>Checked addition (\<open>None\<close> is the overflow panic of a build with overflow checks).\<close>

definition checked_add :: "nat \<Rightarrow> nat \<Rightarrow> nat \<Rightarrow> nat option" where
  "checked_add m a b = (if a + b \<le> m then Some (a + b) else None)"

definition checked_sub :: "nat \<Rightarrow> nat \<Rightarrow> nat option" where
  "checked_sub a b = (if b \<le> a then Some (a - b) else None)"

end
