(* ===== verification/Codec.thy ===== *)
theory Codec
  imports Rust_Str
begin

text \<open>
  The interfaces between an encoder and its decoder, stated once as locales and interpreted on
  the model's own functions by the component that provides them. \<open>wire_codec\<close> is one message
  per buffer; \<open>block_codec\<close> is a sequence of self-delimiting blocks read from the front of
  a buffer; \<open>exact_block_codec\<close> adds that every successful read is the encoding of what it
  returned.
\<close>

section \<open>One message per buffer\<close>

locale wire_codec =
  fixes wf :: "'a \<Rightarrow> bool"
    and enc :: "'a \<Rightarrow> 'b list"
    and dec :: "'b list \<Rightarrow> 'e + 'a"
  assumes dec_enc: "wf x \<Longrightarrow> dec (enc x) = Inr x"
begin

lemma enc_inject: "wf x \<Longrightarrow> wf y \<Longrightarrow> enc x = enc y \<longleftrightarrow> x = y"
  by (metis dec_enc sum.inject(2))

lemma dec_enc_iff: "wf x \<Longrightarrow> dec (enc x) = Inr y \<longleftrightarrow> y = x"
  by (auto simp: dec_enc)

lemma dec_enc_not_error: "wf x \<Longrightarrow> dec (enc x) \<noteq> Inl e"
  by (simp add: dec_enc)

lemma enc_inj_on: "inj_on enc (Collect wf)"
  by (rule inj_onI) (simp add: enc_inject)

end

section \<open>Self-delimiting blocks\<close>

locale block_codec =
  fixes wf :: "'a \<Rightarrow> bool"
    and enc :: "'a \<Rightarrow> 'b list"
    and read :: "'b list \<Rightarrow> 'e + ('a \<times> 'b list)"
    and parse_all :: "'b list \<Rightarrow> 'e + 'a list"
  assumes read_enc: "wf x \<Longrightarrow> read (enc x @ rest) = Inr (x, rest)"
    and enc_not_Nil: "wf x \<Longrightarrow> enc x \<noteq> []"
    and parse_all_Nil: "parse_all [] = Inr []"
    and parse_all_step: "bs \<noteq> [] \<Longrightarrow>
      parse_all bs = (case read bs of Inl e \<Rightarrow> Inl e
                      | Inr (x, rest) \<Rightarrow> map_sum id (Cons x) (parse_all rest))"
begin

lemma parse_all_concat_append:
  "list_all wf xs \<Longrightarrow>
     parse_all (concat (map enc xs) @ rest) = map_sum id ((@) xs) (parse_all rest)"
proof (induction xs)
  case Nil
  show ?case by (cases "parse_all rest") simp_all
next
  case (Cons x xs)
  then have "enc x \<noteq> []" "list_all wf xs" "wf x"
    by (simp_all add: enc_not_Nil)
  then have "parse_all (enc x @ concat (map enc xs) @ rest) =
      map_sum id (Cons x) (parse_all (concat (map enc xs) @ rest))"
    by (subst parse_all_step) (simp_all add: read_enc)
  with Cons.IH \<open>list_all wf xs\<close> show ?case
    by (cases "parse_all rest") simp_all
qed

lemma parse_all_concat: "list_all wf xs \<Longrightarrow> parse_all (concat (map enc xs)) = Inr xs"
  using parse_all_concat_append [of xs "[]"] by (simp add: parse_all_Nil)

text \<open>A sequence of blocks is a message of its own.\<close>

sublocale whole: wire_codec "list_all wf" "\<lambda>xs. concat (map enc xs)" parse_all
  by unfold_locales (rule parse_all_concat)


end

locale exact_block_codec = block_codec +
  assumes read_exact: "read bs = Inr (x, rest) \<Longrightarrow> wf x \<and> bs = enc x @ rest"
begin

lemma parse_all_exact: "parse_all bs = Inr xs \<Longrightarrow> list_all wf xs \<and> bs = concat (map enc xs)"
proof (induction "length bs" arbitrary: bs xs rule: less_induct)
  case less
  show ?case
  proof (cases "bs = []")
    case True
    with less.prems show ?thesis by (simp add: parse_all_Nil)
  next
    case False
    with less.prems obtain x rest ys where
      r: "read bs = Inr (x, rest)" and p: "parse_all rest = Inr ys" and xs: "xs = x # ys"
      by (auto simp: parse_all_step split: sum.splits prod.splits)
        (metis map_sum.simps obj_sumE sum.distinct(1) sum.inject(2))
    from r have x: "wf x" "bs = enc x @ rest"
      using read_exact by blast+
    then have "length rest < length bs"
      using enc_not_Nil by simp
    from less.hyps [OF this p] x xs show ?thesis by simp
  qed
qed

lemma parse_all_iff: "parse_all bs = Inr xs \<longleftrightarrow> list_all wf xs \<and> bs = concat (map enc xs)"
  using parse_all_exact parse_all_concat by blast

end

end
