(* ===== verification/Guppy_Packet.thy ===== *)
theory Guppy_Packet
  imports Codec
begin

text \<open>
  \<open>crates/guppy-protocol/src/packet.rs\<close>: the wire forms of Guppy packets. Sequence numbers are
  \<open>u32\<close> in the code; here they are natural numbers with the bound \<open>u32_max\<close> written where the
  code's parser imposes it. The error strings of the code are the constructors of
  \<open>packet_error\<close>, with the text the message quotes.
\<close>

section \<open>Server to client\<close>

datatype packet =
    PFirst nat string bytes
  | PContinuation nat bytes
  | PPrompt string
  | PRedirect string
  | PError string

datatype packet_error =
    No_crlf
  | Not_utf8
  | Bad_sequence string
  | Empty_mime
  | Bad_header string

definition parse_packet :: "bytes \<Rightarrow> packet_error + packet" where
  "parse_packet datagram =
     (case split_crlf datagram of
        None \<Rightarrow> Inl No_crlf
      | Some (h, data) \<Rightarrow>
          (case from_utf8 h of
             None \<Rightarrow> Inl Not_utf8
           | Some header \<Rightarrow>
               (case split_once (CHR '' '') header of
                  Some (tok, rest) \<Rightarrow>
                    if tok = ''1'' then Inr (PPrompt (trim rest))
                    else if tok = ''3'' then Inr (PRedirect (trim rest))
                    else if tok = ''4'' then Inr (PError (trim rest))
                    else (case parse_uint u32_max tok of
                            None \<Rightarrow> Inl (Bad_sequence tok)
                          | Some seq \<Rightarrow>
                              if trim rest = [] then Inl Empty_mime
                              else Inr (PFirst seq (trim rest) data))
                | None \<Rightarrow>
                    (case parse_uint u32_max (trim header) of
                       None \<Rightarrow> Inl (Bad_header header)
                     | Some seq \<Rightarrow> Inr (PContinuation seq data)))))"

definition encode_first :: "nat \<Rightarrow> string \<Rightarrow> bytes \<Rightarrow> bytes" where
  "encode_first seq mime data = show_nat seq @ '' '' @ mime @ CRLF @ data"

definition encode_continuation :: "nat \<Rightarrow> bytes \<Rightarrow> bytes" where
  "encode_continuation seq data = show_nat seq @ CRLF @ data"

text \<open>The special packets, as \<open>serve\<close> formats them: a single digit, a space, the text.\<close>

definition encode_special :: "string \<Rightarrow> string \<Rightarrow> bytes" where
  "encode_special digit text = digit @ '' '' @ text @ CRLF"

fun encode_packet :: "packet \<Rightarrow> bytes" where
  "encode_packet (PFirst seq mime data) = encode_first seq mime data"
| "encode_packet (PContinuation seq data) = encode_continuation seq data"
| "encode_packet (PPrompt text) = encode_special ''1'' text"
| "encode_packet (PRedirect target) = encode_special ''3'' target"
| "encode_packet (PError message) = encode_special ''4'' message"

text \<open>
  The text of one header field: valid UTF-8, no CRLF inside, no white space at either end.
  A packet is well formed when its text fits its header; a first packet also needs a MIME
  type and a sequence number that does not read as one of the special digits.
\<close>

definition header_text :: "string \<Rightarrow> bool" where
  "header_text t \<longleftrightarrow> valid_utf8 t \<and> split_crlf t = None \<and> trim t = t"

fun wf_packet :: "packet \<Rightarrow> bool" where
  "wf_packet (PFirst seq mime data) =
     (seq \<le> u32_max \<and> seq \<notin> {1, 3, 4} \<and> header_text mime \<and> mime \<noteq> [])"
| "wf_packet (PContinuation seq data) = (seq \<le> u32_max)"
| "wf_packet (PPrompt t) = header_text t"
| "wf_packet (PRedirect t) = header_text t"
| "wf_packet (PError t) = header_text t"

lemma header_textD: "header_text t \<Longrightarrow> valid_utf8 t" "header_text t \<Longrightarrow> split_crlf t = None"
  "header_text t \<Longrightarrow> trim t = t"
  by (simp_all add: header_text_def)

lemma space_ascii [simp]: "ascii (CHR '' '')" "ascii_ws (CHR '' '')"
  by (simp_all add: ascii_def ascii_ws_def)

lemma special_tokens: "show_nat 1 = ''1''" "show_nat 3 = ''3''" "show_nat 4 = ''4''"
  by (simp_all add: show_nat.simps)

lemma show_nat_special:
  "n \<notin> {1, 3, 4} \<Longrightarrow> show_nat n \<noteq> ''1'' \<and> show_nat n \<noteq> ''3'' \<and> show_nat n \<noteq> ''4''"
  by (metis insertCI show_nat_inject special_tokens)

lemma split_header:
  assumes "split_crlf t = None" "CR \<notin> set tok"
  shows "split_crlf (tok @ CHR '' '' # t @ CR # LF # data) = Some (tok @ CHR '' '' # t, data)"
  using assms split_crlf_prefix [of "tok @ '' ''" "t @ CR # LF # data"] by simp

lemma parse_first:
  assumes "wf_packet (PFirst seq mime data)"
  shows "parse_packet (encode_first seq mime data) = Inr (PFirst seq mime data)"
  using assms show_nat_special [of seq]
  by (simp add: parse_packet_def encode_first_def split_header header_text_def valid_utf8_append trim_ws_Cons)

lemma parse_continuation:
  "seq \<le> u32_max \<Longrightarrow> parse_packet (encode_continuation seq data) = Inr (PContinuation seq data)"
  by (simp add: parse_packet_def encode_continuation_def)

lemma parse_special:
  assumes "header_text t" "d \<in> {''1'', ''3'', ''4''}"
  shows "parse_packet (encode_special d t) =
    Inr (if d = ''1'' then PPrompt t else if d = ''3'' then PRedirect t else PError t)"
proof -
  have d: "CR \<notin> set d" "CHR '' '' \<notin> set d" "\<forall>c \<in> set d. ascii c"
    using assms(2) by (auto simp: ascii_def)
  then have "split_once (CHR '' '') (d @ CHR '' '' # t) = Some (d, t)"
    "valid_utf8 (d @ CHR '' '' # t)"
    using assms(1) by (simp_all add: header_text_def valid_utf8_append ascii_valid_utf8)
  with d show ?thesis
    using assms by (auto simp: parse_packet_def encode_special_def split_header header_text_def)
qed

text \<open>Encoding and parsing a packet are the two sides of one codec.\<close>

interpretation packet: wire_codec wf_packet encode_packet parse_packet
proof
  fix p assume "wf_packet p"
  then show "parse_packet (encode_packet p) = Inr p"
    by (cases p) (simp_all add: parse_first parse_continuation parse_special)
qed

section \<open>Client to server\<close>

datatype client_datagram = Ack nat | Req string

definition encode_ack :: "nat \<Rightarrow> bytes" where
  "encode_ack seq = show_nat seq @ CRLF"

definition parse_client_datagram :: "bytes \<Rightarrow> packet_error + client_datagram" where
  "parse_client_datagram datagram =
     (case split_crlf datagram of
        None \<Rightarrow> Inl No_crlf
      | Some (h, data) \<Rightarrow>
          (case from_utf8 h of
             None \<Rightarrow> Inl Not_utf8
           | Some line \<Rightarrow>
               (case (if data = [] then parse_uint u32_max (trim line) else None) of
                  Some seq \<Rightarrow> Inr (Ack seq)
                | None \<Rightarrow> Inr (Req line))))"

definition encode_request :: "string \<Rightarrow> bytes" where
  "encode_request url = url @ CRLF"

fun encode_client_datagram :: "client_datagram \<Rightarrow> bytes" where
  "encode_client_datagram (Ack seq) = encode_ack seq"
| "encode_client_datagram (Req url) = encode_request url"

fun wf_client_datagram :: "client_datagram \<Rightarrow> bool" where
  "wf_client_datagram (Ack seq) = (seq \<le> u32_max)"
| "wf_client_datagram (Req url) =
     (valid_utf8 url \<and> split_crlf url = None \<and> parse_uint u32_max (trim url) = None)"

interpretation client_datagram:
  wire_codec wf_client_datagram encode_client_datagram parse_client_datagram
proof
  fix d assume "wf_client_datagram d"
  then show "parse_client_datagram (encode_client_datagram d) = Inr d"
    by (cases d) (auto simp: parse_client_datagram_def encode_ack_def encode_request_def)
qed

section \<open>What the parsers return\<close>

lemma parse_packet_seq:
  "parse_packet d = Inr (PFirst seq mime data) \<Longrightarrow> seq \<le> u32_max \<and> mime \<noteq> [] \<and> trim mime = mime"
  "parse_packet d = Inr (PContinuation seq data) \<Longrightarrow> seq \<le> u32_max"
  by (auto simp: parse_packet_def dest!: parse_uint_le split: option.splits prod.splits if_splits)

section \<open>Properties\<close>

text \<open>
  Every well-formed packet survives encoding and parsing, so different packets have different
  datagrams; in particular a success whose number starts with the digit of a special
  packet (39, 41, ...) is never taken for a redirect or an error.
\<close>

theorem guppy_packet_roundtrip:
  assumes "wf_packet p" "wf_packet q"
  shows "parse_packet (encode_packet p) = Inr p \<and> (encode_packet p = encode_packet q \<longleftrightarrow> p = q)"
  using packet.dec_enc [OF assms(1)] packet.enc_inject [OF assms] by blast

theorem guppy_packet_roundtrip_witness:
  "parse_packet (encode_packet (PFirst 39 ''text/plain'' ''hi'')) = Inr (PFirst 39 ''text/plain'' ''hi'') \<and>
   encode_packet (PFirst 39 ''text/plain'' ''hi'') \<noteq> encode_packet (PRedirect ''text/plain'')"
proof -
  have "wf_packet (PFirst 39 ''text/plain'' ''hi'')" "wf_packet (PRedirect ''text/plain'')"
    by (simp_all add: header_text_def trim_visible_all ascii_valid_utf8 ascii_def ascii_ws_def between_def)
  from guppy_packet_roundtrip [OF this] show ?thesis by blast
qed

end
