(* ===== verification/Url_Iface.thy ===== *)
theory Url_Iface
  imports Rust_Str
begin

text \<open>
  The result of the third-party \<open>url\<close> crate, as far as the protocol crates read it: the
  components of a parsed URL. The parser itself and percent decoding are not in this
  repository; every definition that uses them takes them as arguments
  (\<open>url_parse\<close>, \<open>pct_decode\<close>).
\<close>

record url =
  url_scheme :: string
  url_host :: "string option"
  url_port :: "nat option"
  url_path :: string
  url_query :: "string option"
  url_fragment :: "string option"
  url_username :: string

type_synonym url_parser = "string \<Rightarrow> url option"

end
