(* ===== verification/Guppy_Server.thy ===== *)
theory Guppy_Server
  imports Guppy_Packet Url_Iface
begin

text \<open>
  \<open>crates/guppy-protocol/src/server.rs\<close>: sessions, the sliding window, acknowledgement,
  retransmission and the receive loop. Time is in milliseconds; one event of the loop reads
  the clock once. Whether the socket accepts a datagram is the environment's choice: a predicate
  on the datagrams of the event. \<open>u32\<close> arithmetic that could overflow is checked, with
  \<open>None\<close> for the panic.
\<close>

section \<open>Constants and responses\<close>

definition MAX_REQUEST_BYTES :: nat where "MAX_REQUEST_BYTES = 2048"
definition MAX_SEQ :: nat where "MAX_SEQ = 2147483647"
definition MIN_SEQ :: nat where "MIN_SEQ = 6"
definition DONE_LINGER :: nat where "DONE_LINGER = 5000"

datatype guppy_response =
    GSuccess string bytes
  | GPrompt string
  | GRedirect string
  | GError string

record server_config =
  cfg_chunk_size :: nat
  cfg_window :: nat
  cfg_retransmit_after :: nat
  cfg_session_timeout :: nat
  cfg_max_sessions :: nat

definition default_server_config :: server_config where
  "default_server_config =
     \<lparr>cfg_chunk_size = 512, cfg_window = 16, cfg_retransmit_after = 500, cfg_session_timeout = 30000,
      cfg_max_sessions = 1024\<rparr>"

record session =
  packets :: "(nat \<times> bytes) list"
  next_unsent :: nat
  unacked :: "nat set"
  last_send :: nat
  created :: nat
  done_at :: "nat option"

section \<open>Building a session\<close>

text \<open>\<open>hash\<close> is the value the keyed hasher finishes with.\<close>

definition random_seq :: "nat \<Rightarrow> nat \<Rightarrow> nat option" where
  "random_seq total_packets hash =
     (case checked_sub MAX_SEQ total_packets of
        None \<Rightarrow> None
      | Some a \<Rightarrow>
          (case checked_sub a MIN_SEQ of
             None \<Rightarrow> None
           | Some span \<Rightarrow> if span = 0 then None else Some (MIN_SEQ + hash mod span)))"

definition total_packets :: "bytes \<Rightarrow> nat \<Rightarrow> nat option" where
  "total_packets body chunk =
     (let n = length body;
          c = (if n > chunk then (n + chunk - 1) div chunk - 1 else 0)
      in case checked_add u32_max 1 (c mod 2 ^ 32) of
           None \<Rightarrow> None | Some t \<Rightarrow> checked_add u32_max t 1)"

text \<open>The loop over the body from \<open>offset\<close> on, and the empty packet after it.\<close>

function chunk_packets :: "nat \<Rightarrow> bytes \<Rightarrow> nat \<Rightarrow> nat \<Rightarrow> (nat \<times> bytes) list option" where
  "chunk_packets chunk body seq offset =
     (case checked_add u32_max seq 1 of
        None \<Rightarrow> None
      | Some seq' \<Rightarrow>
          if offset < length body then
            let fin = min (offset + max chunk 1) (length body) in
            map_option (Cons (seq', encode_continuation seq' (take (fin - offset) (drop offset body))))
              (chunk_packets chunk body seq' fin)
          else Some [(seq', encode_continuation seq' [])])"
  by pat_completeness auto
termination
  by (relation "measure (\<lambda>(chunk, body, seq, offset). length body - offset)") auto

declare chunk_packets.simps [simp del]

definition build_session :: "string \<Rightarrow> bytes \<Rightarrow> nat \<Rightarrow> nat \<Rightarrow> nat \<Rightarrow> session option" where
  "build_session mime body chunk_size hash now =
     (let chunk = max chunk_size 1 in
      case total_packets body chunk of
        None \<Rightarrow> None
      | Some n \<Rightarrow>
          (case random_seq n hash of
             None \<Rightarrow> None
           | Some first_seq \<Rightarrow>
               let first_chunk = take (min (length body) chunk) body in
               (case chunk_packets chunk body first_seq (length first_chunk) of
                  None \<Rightarrow> None
                | Some rest \<Rightarrow>
                    Some \<lparr>packets = (first_seq, encode_first first_seq mime first_chunk) # rest,
                          next_unsent = 0, unacked = {}, last_send = now, created = now,
                          done_at = None\<rparr>)))"

section \<open>Window, acknowledgement, retransmission\<close>

text \<open>
  \<open>ok\<close> says for which datagrams \<open>send_to\<close> succeeds. The functions return the new session and
  the datagrams handed to the network.
\<close>

abbreviation reliable :: "bytes \<Rightarrow> bool" where "reliable \<equiv> \<lambda>_. True"

function send_window :: "nat \<Rightarrow> (bytes \<Rightarrow> bool) \<Rightarrow> session \<Rightarrow> session \<times> bytes list" where
  "send_window win ok s =
     (if card (unacked s) < win \<and> next_unsent s < length (packets s) then
        let (seq, wire) = packets s ! next_unsent s in
        if \<not> ok wire then (s, [])
        else let (s', out) = send_window win ok
                   (s\<lparr>unacked := insert seq (unacked s), next_unsent := next_unsent s + 1\<rparr>)
             in (s', wire # out)
      else (s, []))"
  by pat_completeness auto
termination
  by (relation "measure (\<lambda>(win, ok, s). length (packets s) - next_unsent s)") auto

declare send_window.simps [simp del]

definition open_window ::
  "server_config \<Rightarrow> (bytes \<Rightarrow> bool) \<Rightarrow> nat \<Rightarrow> session \<Rightarrow> session \<times> bytes list" where
  "open_window cfg ok now s =
     (let (s', out) = send_window (cfg_window cfg) ok s in (s'\<lparr>last_send := now\<rparr>, out))"

definition acknowledge ::
  "server_config \<Rightarrow> (bytes \<Rightarrow> bool) \<Rightarrow> nat \<Rightarrow> nat \<Rightarrow> session \<Rightarrow> session \<times> bytes list" where
  "acknowledge cfg ok now seq s =
     (let s = s\<lparr>unacked := unacked s - {seq}\<rparr> in
      if next_unsent s = length (packets s) \<and> unacked s = {} then
        (if done_at s = None then s\<lparr>done_at := Some now\<rparr> else s, [])
      else open_window cfg ok now s)"

text \<open>
  \<open>binary_search_by_key\<close> over packets in ascending order of sequence number finds the packet
  with that number, if there is one.
\<close>

definition retransmit :: "(bytes \<Rightarrow> bool) \<Rightarrow> nat \<Rightarrow> session \<Rightarrow> session \<times> bytes list" where
  "retransmit ok now s =
     (let found = map (map_of (packets s)) (sorted_list_of_set (unacked s));
          wires = map the (filter (\<lambda>w. w \<noteq> None) found)
      in (s\<lparr>last_send := now\<rparr>, filter ok wires))"

section \<open>The receive loop\<close>

record 'addr request =
  r_url :: url
  r_path :: string
  r_input :: "string option"
  r_peer :: 'addr

definition guppy_parse_request ::
  "url_parser \<Rightarrow> (string \<Rightarrow> bytes) \<Rightarrow> string \<Rightarrow> 'addr \<Rightarrow> 'addr request option" where
  "guppy_parse_request url_parse pct_decode line peer =
     (case url_parse (trim line) of
        None \<Rightarrow> None
      | Some u \<Rightarrow>
          if url_scheme u \<noteq> ''guppy'' then None
          else Some \<lparr>r_url = u, r_path = (if url_path u = [] then ''/'' else url_path u),
                     r_input = map_option (from_utf8_lossy \<circ> pct_decode) (url_query u),
                     r_peer = peer\<rparr>)"

datatype 'addr server_event =
    Tick
  | Recv_failed
  | Recv 'addr bytes

type_synonym 'addr sessions = "('addr \<times> session) list"
type_synonym 'addr sends = "('addr \<times> bytes) list"

definition put_session :: "'addr \<Rightarrow> session \<Rightarrow> 'addr sessions \<Rightarrow> 'addr sessions" where
  "put_session peer s ss = (peer, s) # filter (\<lambda>e. fst e \<noteq> peer) ss"

definition expired :: "server_config \<Rightarrow> nat \<Rightarrow> session \<Rightarrow> bool" where
  "expired cfg now s \<longleftrightarrow>
     now - created s > cfg_session_timeout cfg \<or>
     (case done_at s of None \<Rightarrow> False | Some d \<Rightarrow> now - d > DONE_LINGER)"

definition tick_session ::
  "server_config \<Rightarrow> (bytes \<Rightarrow> bool) \<Rightarrow> nat \<Rightarrow> 'addr \<times> session \<Rightarrow> ('addr \<times> session) \<times> 'addr sends" where
  "tick_session cfg ok now = (\<lambda>(peer, s).
     if done_at s = None \<and> now - last_send s \<ge> cfg_retransmit_after cfg then
       let (s', out) = retransmit ok now s in ((peer, s'), map (Pair peer) out)
     else ((peer, s), []))"

definition serve_tick ::
  "server_config \<Rightarrow> (bytes \<Rightarrow> bool) \<Rightarrow> nat \<Rightarrow> 'addr sessions \<Rightarrow> 'addr sessions \<times> 'addr sends" where
  "serve_tick cfg ok now ss =
     (let rs = map (tick_session cfg ok now) (filter (\<lambda>(_, s). \<not> expired cfg now s) ss)
      in (map fst rs, concat (map snd rs)))"

definition reply_one :: "(bytes \<Rightarrow> bool) \<Rightarrow> 'addr \<Rightarrow> bytes \<Rightarrow> 'addr sends" where
  "reply_one ok peer wire = (if ok wire then [(peer, wire)] else [])"

definition serve_request ::
  "server_config \<Rightarrow> url_parser \<Rightarrow> (string \<Rightarrow> bytes) \<Rightarrow> ('addr request \<Rightarrow> guppy_response) \<Rightarrow>
   (bytes \<Rightarrow> bool) \<Rightarrow> nat \<Rightarrow> nat \<Rightarrow> 'addr \<Rightarrow> string \<Rightarrow> 'addr sessions \<Rightarrow>
   ('addr sessions \<times> 'addr sends) option" where
  "serve_request cfg url_parse pct_decode handler ok now hash peer line ss =
     (if map_of ss peer \<noteq> None then Some (ss, [])
      else if length ss \<ge> cfg_max_sessions cfg then Some (ss, [])
      else case guppy_parse_request url_parse pct_decode line peer of
        None \<Rightarrow> Some (ss, reply_one ok peer (''4 Malformed request URL.'' @ CRLF))
      | Some request \<Rightarrow>
          (case handler request of
             GSuccess mime body \<Rightarrow>
               (case build_session mime body (cfg_chunk_size cfg) hash now of
                  None \<Rightarrow> None
                | Some s \<Rightarrow>
                    let (s', out) = open_window cfg ok now s
                    in Some (put_session peer s' ss, map (Pair peer) out))
           | GPrompt text \<Rightarrow> Some (ss, reply_one ok peer (encode_special ''1'' text))
           | GRedirect target \<Rightarrow> Some (ss, reply_one ok peer (encode_special ''3'' target))
           | GError message \<Rightarrow> Some (ss, reply_one ok peer (encode_special ''4'' message))))"

definition serve_datagram ::
  "server_config \<Rightarrow> url_parser \<Rightarrow> (string \<Rightarrow> bytes) \<Rightarrow> ('addr request \<Rightarrow> guppy_response) \<Rightarrow>
   (bytes \<Rightarrow> bool) \<Rightarrow> nat \<Rightarrow> nat \<Rightarrow> 'addr \<Rightarrow> bytes \<Rightarrow> 'addr sessions \<Rightarrow>
   ('addr sessions \<times> 'addr sends) option" where
  "serve_datagram cfg url_parse pct_decode handler ok now hash peer datagram ss =
     (if length datagram > MAX_REQUEST_BYTES then Some (ss, [])
      else case parse_client_datagram datagram of
        Inl _ \<Rightarrow> Some (ss, [])
      | Inr (Ack seq) \<Rightarrow>
          (case map_of ss peer of
             None \<Rightarrow> Some (ss, [])
           | Some s \<Rightarrow>
               let (s', out) = acknowledge cfg ok now seq s
               in Some (put_session peer s' ss, map (Pair peer) out))
      | Inr (Req line) \<Rightarrow>
          serve_request cfg url_parse pct_decode handler ok now hash peer line ss)"

definition serve_step ::
  "server_config \<Rightarrow> url_parser \<Rightarrow> (string \<Rightarrow> bytes) \<Rightarrow> ('addr request \<Rightarrow> guppy_response) \<Rightarrow>
   (bytes \<Rightarrow> bool) \<Rightarrow> nat \<Rightarrow> nat \<Rightarrow> 'addr server_event \<Rightarrow> 'addr sessions \<Rightarrow>
   ('addr sessions \<times> 'addr sends) option" where
  "serve_step cfg url_parse pct_decode handler ok now hash ev ss =
     (case ev of
        Tick \<Rightarrow> Some (serve_tick cfg ok now ss)
      | Recv_failed \<Rightarrow> Some (ss, [])
      | Recv peer datagram \<Rightarrow>
          serve_datagram cfg url_parse pct_decode handler ok now hash peer datagram ss)"

text \<open>The loop of \<open>serve\<close> over the events before shutdown; each comes with its sends, clock and hash.\<close>

type_synonym 'addr loop_event = "(bytes \<Rightarrow> bool) \<times> nat \<times> nat \<times> 'addr server_event"

fun serve_loop ::
  "server_config \<Rightarrow> url_parser \<Rightarrow> (string \<Rightarrow> bytes) \<Rightarrow> ('addr request \<Rightarrow> guppy_response) \<Rightarrow>
   'addr loop_event list \<Rightarrow> 'addr sessions \<Rightarrow> ('addr sessions \<times> 'addr sends) option" where
  "serve_loop cfg url_parse pct_decode handler [] ss = Some (ss, [])"
| "serve_loop cfg url_parse pct_decode handler ((ok, now, hash, ev) # evs) ss =
     (case serve_step cfg url_parse pct_decode handler ok now hash ev ss of
        None \<Rightarrow> None
      | Some (ss', out) \<Rightarrow>
          map_option (apsnd ((@) out)) (serve_loop cfg url_parse pct_decode handler evs ss'))"

end
