(* ===== verification/Guppy_Session.thy ===== *)
theory Guppy_Session
  imports Guppy_Server
begin

text \<open>
  Correctness of the Guppy server's sessions. A session's packets are compared with an abstract
  specification: the body cut into pieces, numbered consecutively, closed by an empty packet.
  The window, the acknowledgement and the retransmission keep \<open>session_ok\<close>; the receive loop
  keeps it for every session, together with the limit on their number.
\<close>

section \<open>The pieces of a body\<close>

function split_chunks :: "nat \<Rightarrow> bytes \<Rightarrow> bytes list" where
  "split_chunks n xs = (if xs = [] \<or> n = 0 then [] else take n xs # split_chunks n (drop n xs))"
  by pat_completeness auto
termination
  by (relation "measure (\<lambda>(n, xs). length xs)") auto

declare split_chunks.simps [simp del]

definition body_pieces :: "nat \<Rightarrow> bytes \<Rightarrow> bytes list" where
  "body_pieces chunk body = take chunk body # split_chunks chunk (drop chunk body)"

fun cont_packets :: "nat \<Rightarrow> bytes list \<Rightarrow> (nat \<times> bytes) list" where
  "cont_packets s [] = [(s, encode_continuation s [])]"
| "cont_packets s (p # ps) = (s, encode_continuation s p) # cont_packets (Suc s) ps"

lemma split_chunks_Nil [simp]: "split_chunks n [] = []"
  by (subst split_chunks.simps) simp

lemma concat_split_chunks: "0 < n \<Longrightarrow> concat (split_chunks n xs) = xs"
  by (induction n xs rule: split_chunks.induct) (subst split_chunks.simps, auto)

lemma split_chunks_not_Nil: "p \<in> set (split_chunks n xs) \<Longrightarrow> p \<noteq> []"
proof (induction n xs rule: split_chunks.induct)
  case (1 n xs)
  then show ?case by (subst (asm) split_chunks.simps) (auto split: if_splits)
qed

lemma div_step: "0 < n \<Longrightarrow> n \<le> (k::nat) \<Longrightarrow> (k + n - 1) div n = Suc ((k - n + n - 1) div n)"
  by (simp add: div_if)

lemma length_split_chunks: "0 < n \<Longrightarrow> length (split_chunks n xs) = (length xs + n - 1) div n"
proof (induction n xs rule: split_chunks.induct)
  case (1 n xs)
  show ?case
  proof (cases "xs = []")
    case True
    with "1.prems" show ?thesis by simp
  next
    case False
    have "length (split_chunks n xs) = Suc ((length (drop n xs) + n - 1) div n)"
      using False 1 by (subst split_chunks.simps) simp
    also have "\<dots> = (length xs + n - 1) div n"
    proof (cases "n \<le> length xs")
      case True
      then show ?thesis using "1.prems" div_step [of n "length xs"] by simp
    next
      case outer: False
      then have "(length xs + n - 1) div n = 1"
        using False "1.prems" by (intro div_nat_eqI) (cases xs; auto)+
      with outer "1.prems" show ?thesis by simp
    qed
    finally show ?thesis .
  qed
qed

lemma concat_body_pieces: "0 < chunk \<Longrightarrow> concat (body_pieces chunk body) = body"
  by (simp add: body_pieces_def concat_split_chunks)

lemma body_pieces_not_Nil [simp]: "body_pieces chunk body \<noteq> []"
  by (simp add: body_pieces_def)

lemma body_pieces_nth_not_Nil:
  "0 < i \<Longrightarrow> i < length (body_pieces chunk body) \<Longrightarrow> body_pieces chunk body ! i \<noteq> []"
  by (cases i) (auto simp: body_pieces_def dest!: nth_mem split_chunks_not_Nil)

lemma length_body_pieces:
  assumes "0 < chunk"
  shows "length (body_pieces chunk body) =
    (if chunk < length body then (length body + chunk - 1) div chunk else 1)"
  using assms div_step [of chunk "length body"]
  by (auto simp: body_pieces_def length_split_chunks)

lemma map_fst_cont_packets: "map fst (cont_packets s ps) = [s..<s + length ps + 1]"
  by (induction s ps rule: cont_packets.induct) (simp_all add: upt_rec)

lemma length_cont_packets [simp]: "length (cont_packets s ps) = Suc (length ps)"
  by (induction s ps rule: cont_packets.induct) simp_all

lemma cont_packets_nth:
  "i \<le> length ps \<Longrightarrow> cont_packets s ps ! i =
     (s + i, encode_continuation (s + i) (if i < length ps then ps ! i else []))"
  by (induction s ps arbitrary: i rule: cont_packets.induct) (auto simp: nth_Cons split: nat.splits)

section \<open>What \<open>build_session\<close> builds\<close>

definition session_packets :: "nat \<Rightarrow> string \<Rightarrow> bytes list \<Rightarrow> (nat \<times> bytes) list" where
  "session_packets f mime ps = (f, encode_first f mime (hd ps)) # cont_packets (Suc f) (tl ps)"

text \<open>The bodies the sequence space has room for, and the first number they get.\<close>

definition fits :: "nat \<Rightarrow> bytes \<Rightarrow> bool" where
  "fits chunk body \<longleftrightarrow> length (body_pieces (max chunk 1) body) + 1 + MIN_SEQ < MAX_SEQ"

definition first_seq_of :: "nat \<Rightarrow> bytes \<Rightarrow> nat \<Rightarrow> nat" where
  "first_seq_of chunk body hash =
     MIN_SEQ + hash mod (MAX_SEQ - (length (body_pieces (max chunk 1) body) + 1) - MIN_SEQ)"

lemma first_seq_bounds:
  assumes "fits chunk body"
  shows "MIN_SEQ \<le> first_seq_of chunk body hash"
    and "first_seq_of chunk body hash + length (body_pieces (max chunk 1) body) < MAX_SEQ"
proof -
  let ?n = "length (body_pieces (max chunk 1) body) + 1"
  have "0 < MAX_SEQ - ?n - MIN_SEQ"
    using assms by (simp add: fits_def)
  then have "hash mod (MAX_SEQ - ?n - MIN_SEQ) < MAX_SEQ - ?n - MIN_SEQ"
    by (rule mod_less_divisor)
  then show "first_seq_of chunk body hash + length (body_pieces (max chunk 1) body) < MAX_SEQ"
    by (simp add: first_seq_of_def)
  show "MIN_SEQ \<le> first_seq_of chunk body hash"
    by (simp add: first_seq_of_def)
qed

lemma chunk_packets_eq:
  assumes "0 < chunk"
  shows "offset \<le> length body \<Longrightarrow> seq + length (split_chunks chunk (drop offset body)) + 1 \<le> u32_max \<Longrightarrow>
    chunk_packets chunk body seq offset =
      Some (cont_packets (Suc seq) (split_chunks chunk (drop offset body)))"
  using assms
proof (induction chunk body seq offset rule: chunk_packets.induct)
  case (1 chunk body seq offset)
  have seq': "checked_add u32_max seq 1 = Some (Suc seq)"
    using "1.prems" by (simp add: checked_add_def)
  show ?case
  proof (cases "offset < length body")
    case False
    then have "drop offset body = []" by simp
    with False seq' show ?thesis by (subst chunk_packets.simps) simp
  next
    case True
    let ?fin = "min (offset + max chunk 1) (length body)"
    have sc: "split_chunks chunk (drop offset body) =
      take chunk (drop offset body) # split_chunks chunk (drop ?fin body)"
    proof -
      have "drop (chunk + offset) body = drop ?fin body"
        using "1.prems" by (cases "offset + chunk \<le> length body") (auto simp: min_def add.commute)
      then show ?thesis
        using True "1.prems" by (subst split_chunks.simps) auto
    qed
    have "chunk_packets chunk body (Suc seq) ?fin =
      Some (cont_packets (Suc (Suc seq)) (split_chunks chunk (drop ?fin body)))"
      using "1.prems" sc by (intro "1.IH" [OF seq' True]) auto
    moreover have "take (?fin - offset) (drop offset body) = take chunk (drop offset body)"
      using "1.prems" by (simp add: min_def)
    ultimately show ?thesis
      using True seq' sc by (subst chunk_packets.simps) (simp add: Let_def)
  qed
qed

lemma total_packets_eq:
  assumes "fits chunk body"
  shows "total_packets body (max chunk 1) = Some (length (body_pieces (max chunk 1) body) + 1)"
proof -
  define L where "L = length (body_pieces (max chunk 1) body)"
  have "(if length body > max chunk 1 then (length body + max chunk 1 - 1) div max chunk 1 - 1 else 0) = L - 1"
    by (simp add: length_body_pieces L_def)
  moreover have "0 < L" by (simp add: L_def)
  moreover have "L < 2147483640"
    using assms by (simp add: fits_def MAX_SEQ_def MIN_SEQ_def L_def)
  ultimately show ?thesis
    unfolding L_def [symmetric] total_packets_def Let_def by (simp add: checked_add_def)
qed

lemma random_seq_eq:
  assumes "fits chunk body"
  shows "random_seq (length (body_pieces (max chunk 1) body) + 1) hash = Some (first_seq_of chunk body hash)"
  using assms by (simp add: random_seq_def checked_sub_def first_seq_of_def fits_def)

theorem build_session_packets:
  assumes "fits chunk body"
  shows "build_session mime body chunk hash now =
    Some \<lparr>packets = session_packets (first_seq_of chunk body hash) mime (body_pieces (max chunk 1) body),
          next_unsent = 0, unacked = {}, last_send = now, created = now, done_at = None\<rparr>"
proof -
  define c where "c = max chunk 1"
  define f where "f = first_seq_of chunk body hash"
  define ps where "ps = split_chunks c (drop c body)"
  have d: "drop (min (length body) c) body = drop c body"
    and t: "take (min (length body) c) body = take c body"
    by (simp_all add: min_def)
  have "f + length ps < 2147483646"
    using first_seq_bounds(2) [OF assms, of hash]
    by (simp add: body_pieces_def MAX_SEQ_def f_def ps_def c_def)
  moreover have "0 < c" by (simp add: c_def)
  ultimately have "chunk_packets c body f (min (length body) c) = Some (cont_packets (Suc f) ps)"
    by (subst chunk_packets_eq) (simp_all add: d ps_def)
  with t show ?thesis
    using total_packets_eq [OF assms] random_seq_eq [OF assms, of hash]
    unfolding build_session_def Let_def f_def [symmetric] c_def [symmetric]
    by (simp add: session_packets_def body_pieces_def ps_def)
qed

section \<open>The session invariant\<close>

abbreviation seqs :: "session \<Rightarrow> nat list" where
  "seqs s \<equiv> map fst (packets s)"

definition session_ok :: "nat \<Rightarrow> session \<Rightarrow> bool" where
  "session_ok win s \<longleftrightarrow>
     packets s \<noteq> [] \<and>
     seqs s = [hd (seqs s)..<hd (seqs s) + length (packets s)] \<and>
     next_unsent s \<le> length (packets s) \<and>
     unacked s \<subseteq> set (take (next_unsent s) (seqs s)) \<and>
     card (unacked s) \<le> win \<and>
     (done_at s \<noteq> None \<longrightarrow> next_unsent s = length (packets s) \<and> unacked s = {})"

lemma session_okD:
  assumes "session_ok win s"
  shows "packets s \<noteq> []" "next_unsent s \<le> length (packets s)"
    "unacked s \<subseteq> set (take (next_unsent s) (seqs s))" "card (unacked s) \<le> win"
    "finite (unacked s)" "distinct (seqs s)"
proof -
  show "distinct (seqs s)"
    using assms unfolding session_ok_def by (metis distinct_upt)
  show "finite (unacked s)"
    using assms by (auto simp: session_ok_def intro: finite_subset)
qed (use assms in \<open>simp_all add: session_ok_def\<close>)

lemma next_seq_not_unacked:
  assumes "session_ok win s" "next_unsent s < length (packets s)"
  shows "fst (packets s ! next_unsent s) \<notin> unacked s"
proof
  assume "fst (packets s ! next_unsent s) \<in> unacked s"
  then have "seqs s ! next_unsent s \<in> set (take (next_unsent s) (seqs s))"
    using assms session_okD(3) by (auto simp: nth_map)
  then obtain j where "j < next_unsent s" "seqs s ! j = seqs s ! next_unsent s"
    using assms(2) by (auto simp: in_set_conv_nth)
  with assms(2) session_okD(6) [OF assms(1)] show False
    by (auto simp: distinct_conv_nth)
qed

lemma set_take_Suc: "n < length xs \<Longrightarrow> set (take (Suc n) xs) = insert (xs ! n) (set (take n xs))"
  by (simp add: take_Suc_conv_app_nth)

abbreviation sent_next :: "session \<Rightarrow> session" where
  "sent_next s \<equiv> s\<lparr>unacked := insert (fst (packets s ! next_unsent s)) (unacked s),
                   next_unsent := next_unsent s + 1\<rparr>"

lemma fst_send_window:
  "fst (send_window win ok s) =
     (if card (unacked s) < win \<and> next_unsent s < length (packets s) \<and> ok (snd (packets s ! next_unsent s))
      then fst (send_window win ok (sent_next s)) else s)"
  by (subst send_window.simps) (simp add: case_prod_beta Let_def)

lemma send_window_induct:
  assumes "\<And>s. (card (unacked s) < win \<Longrightarrow> next_unsent s < length (packets s) \<Longrightarrow>
      ok (snd (packets s ! next_unsent s)) \<Longrightarrow> P (sent_next s)) \<Longrightarrow> P s"
  shows "P s"
proof (induction "length (packets s) - next_unsent s" arbitrary: s rule: less_induct)
  case less
  show ?case by (rule assms, rule less) simp
qed

text \<open>Sending the next packet keeps the invariant and adds one packet to the window.\<close>

lemma send_one_ok:
  assumes "session_ok win s" "card (unacked s) < win" "next_unsent s < length (packets s)"
  shows "session_ok win (sent_next s)"
  using assms next_seq_not_unacked [OF assms(1,3)] session_okD(5) [OF assms(1)]
  by (auto simp: session_ok_def set_take_Suc)

lemma send_window_ok: "session_ok win s \<Longrightarrow> session_ok win (fst (send_window win ok s))"
proof (induction s rule: send_window_induct [where win = win and ok = ok])
  case (1 s)
  then show ?case
    using send_one_ok [of win s] by (subst fst_send_window) simp
qed

text \<open>What \<open>send_window\<close> does: it hands the next packets, in order and without gaps, to the network.\<close>

lemma send_window_spec:
  "send_window win ok s = (s', out) \<Longrightarrow>
     out = map snd (take (length out) (drop (next_unsent s) (packets s))) \<and>
     s' = s\<lparr>unacked := unacked s \<union> set (map fst (take (length out) (drop (next_unsent s) (packets s)))),
            next_unsent := next_unsent s + length out\<rparr>"
proof (induction win ok s arbitrary: s' out rule: send_window.induct)
  case (1 win ok s)
  obtain seq wire where pk: "packets s ! next_unsent s = (seq, wire)" by fastforce
  show ?case
  proof (cases "card (unacked s) < win \<and> next_unsent s < length (packets s) \<and> ok wire")
    case True
    let ?s = "s\<lparr>unacked := insert seq (unacked s), next_unsent := next_unsent s + 1\<rparr>"
    obtain t o' where r: "send_window win ok ?s = (t, o')" by fastforce
    with True pk "1.prems" have res: "s' = t" "out = wire # o'"
      by (subst (asm) send_window.simps, simp)+
    have "drop (next_unsent s) (packets s) = (seq, wire) # drop (next_unsent s + 1) (packets s)"
      using True pk by (metis Cons_nth_drop_Suc Suc_eq_plus1)
    with res "1.IH" [of "(seq, wire)" seq wire t o'] True pk r show ?thesis
      by auto
  next
    case False
    with pk "1.prems" show ?thesis by (subst (asm) send_window.simps) (auto split: if_splits)
  qed
qed

text \<open>With a network that takes every datagram the window ends up full, or everything is sent.\<close>

lemma send_window_fills:
  "session_ok win s \<Longrightarrow> card (unacked (fst (send_window win reliable s))) = win \<or>
    next_unsent (fst (send_window win reliable s)) = length (packets s)"
proof (induction s rule: send_window_induct [where win = win and ok = reliable])
  case (1 s)
  show ?case
  proof (cases "card (unacked s) < win \<and> next_unsent s < length (packets s)")
    case True
    with 1 send_one_ok [of win s] show ?thesis
      by (subst (1 2) fst_send_window) simp
  next
    case False
    with "1.prems" session_okD(2,4) [of win s] show ?thesis
      by (subst (1 2) fst_send_window) auto
  qed
qed

lemma open_window_ok: "session_ok (cfg_window cfg) s \<Longrightarrow> session_ok (cfg_window cfg) (fst (open_window cfg ok now s))"
  using send_window_ok [of "cfg_window cfg" s ok]
  by (auto simp: open_window_def session_ok_def split: prod.splits)

lemma ack_one_ok: "session_ok win s \<Longrightarrow> done_at s = None \<or> unacked s = {} \<Longrightarrow>
    session_ok win (s\<lparr>unacked := unacked s - {seq}\<rparr>)"
  using card_mono [OF session_okD(5), of win s "unacked s - {seq}"]
  by (auto simp: session_ok_def)

lemma acknowledge_ok:
  assumes "session_ok (cfg_window cfg) s"
  shows "session_ok (cfg_window cfg) (fst (acknowledge cfg ok now seq s))"
proof -
  let ?s = "s\<lparr>unacked := unacked s - {seq}\<rparr>"
  have "done_at s = None \<or> unacked s = {}"
    using assms by (auto simp: session_ok_def)
  with assms have ok: "session_ok (cfg_window cfg) ?s" by (rule ack_one_ok)
  show ?thesis
    using ok open_window_ok [OF ok, of ok now] assms
    by (auto simp: acknowledge_def Let_def session_ok_def)
qed

lemma retransmit_ok: "session_ok win s \<Longrightarrow> session_ok win (fst (retransmit ok now s))"
  by (simp add: retransmit_def session_ok_def Let_def)

text \<open>A session of \<open>build_session\<close> satisfies the invariant, whatever the body.\<close>

lemma chunk_packets_seqs:
  "chunk_packets chunk body seq offset = Some ps \<Longrightarrow>
     ps \<noteq> [] \<and> map fst ps = [Suc seq..<Suc seq + length ps]"
proof (induction chunk body seq offset arbitrary: ps rule: chunk_packets.induct)
  case (1 chunk body seq offset)
  show ?case
  proof (cases "checked_add u32_max seq 1")
    case None
    with "1.prems" show ?thesis by (subst (asm) chunk_packets.simps) simp
  next
    case (Some seq')
    then have seq': "seq' = Suc seq" by (simp add: checked_add_def split: if_splits)
    show ?thesis
    proof (cases "offset < length body")
      case True
      with Some "1.prems" obtain w ps' where
        "chunk_packets chunk body seq' (min (offset + max chunk 1) (length body)) = Some ps'"
        "ps = (seq', w) # ps'"
        by (subst (asm) chunk_packets.simps) (auto simp: Let_def)
      with "1.IH" [OF Some True, of _ ps'] seq' show ?thesis
        by (auto simp: upt_rec)
    next
      case False
      with Some "1.prems" seq' show ?thesis by (subst (asm) chunk_packets.simps) auto
    qed
  qed
qed

lemma build_session_ok:
  assumes "build_session mime body chunk hash now = Some s"
  shows "session_ok win s \<and> unacked s = {} \<and> done_at s = None"
proof -
  from assms obtain f w rest where
    rest: "chunk_packets (max chunk 1) body f (length (take (min (length body) (max chunk 1)) body)) = Some rest"
    and s: "s = \<lparr>packets = (f, w) # rest, next_unsent = 0, unacked = {}, last_send = now,
             created = now, done_at = None\<rparr>"
    unfolding build_session_def Let_def by (auto split: option.splits)
  have "map fst rest = [Suc f..<Suc f + length rest]"
    using chunk_packets_seqs [OF rest] by simp
  moreover have "[f..<f + length ((f, w) # rest)] = f # [Suc f..<Suc f + length rest]"
    using upt_conv_Cons [of f "f + length ((f, w) # rest)"] by simp
  ultimately have "map fst (packets s) = [f..<f + length (packets s)]"
    by (simp only: s session.select_convs list.map fst_conv)
  moreover have "hd (seqs s) = f" "packets s \<noteq> []" by (simp_all add: s)
  ultimately show ?thesis
    unfolding session_ok_def by (simp add: s)
qed

section \<open>The receive loop keeps the invariant\<close>

definition server_ok :: "server_config \<Rightarrow> 'addr sessions \<Rightarrow> bool" where
  "server_ok cfg ss \<longleftrightarrow>
     distinct (map fst ss) \<and> length ss \<le> cfg_max_sessions cfg \<and>
     (\<forall>(p, s) \<in> set ss. session_ok (cfg_window cfg) s)"

lemma server_ok_lookup: "server_ok cfg ss \<Longrightarrow> map_of ss p = Some s \<Longrightarrow> session_ok (cfg_window cfg) s"
  by (auto simp: server_ok_def dest: map_of_SomeD)

lemma length_filter_key_less:
  "map_of ss p \<noteq> None \<Longrightarrow> length (filter (\<lambda>e. fst e \<noteq> p) ss) < length ss"
  by (induction ss) (auto simp: le_imp_less_Suc)

lemma put_session_ok:
  assumes "server_ok cfg ss" "session_ok (cfg_window cfg) s"
    and "map_of ss p \<noteq> None \<or> length ss < cfg_max_sessions cfg"
  shows "server_ok cfg (put_session p s ss)"
proof -
  have "length (filter (\<lambda>e. fst e \<noteq> p) ss) < cfg_max_sessions cfg"
    using assms length_filter_key_less [of ss p] length_filter_le [of "\<lambda>e. fst e \<noteq> p" ss]
    unfolding server_ok_def by linarith
  then show ?thesis
    using assms by (auto simp: server_ok_def put_session_def distinct_map_filter)
qed

lemma map_of_put_session: "map_of (put_session p s ss) = (map_of ss)(p \<mapsto> s)"
proof
  fix q
  show "map_of (put_session p s ss) q = ((map_of ss)(p \<mapsto> s)) q"
    by (induction ss) (auto simp: put_session_def)
qed

lemma fst_tick_session [simp]: "fst (fst (tick_session cfg ok now e)) = fst e"
  by (simp add: tick_session_def split: prod.splits)

lemma tick_session_ok:
  "session_ok win (snd e) \<Longrightarrow> session_ok win (snd (fst (tick_session cfg ok now e)))"
  using retransmit_ok [of win "snd e" ok now] by (auto simp: tick_session_def split: prod.splits)

lemma serve_tick_ok:
  assumes "server_ok cfg ss"
  shows "server_ok cfg (fst (serve_tick cfg ok now ss))"
proof -
  have "distinct (map fst (filter P ss))" "length (filter P ss) \<le> cfg_max_sessions cfg" for P
    using assms le_trans [OF length_filter_le] by (auto simp: server_ok_def distinct_map_filter)
  moreover have "session_ok (cfg_window cfg) (snd e)" if "e \<in> set ss" for e
    using assms that by (auto simp: server_ok_def)
  ultimately show ?thesis
    by (auto simp: server_ok_def serve_tick_def Let_def o_def case_prod_beta dest: tick_session_ok)
      (metis snd_conv tick_session_ok)
qed

lemma serve_request_ok:
  assumes "server_ok cfg ss"
    "serve_request cfg url_parse pct_decode handler ok now hash peer line ss = Some (ss', out)"
  shows "server_ok cfg ss'"
  using assms
  by (auto simp: serve_request_def split: if_splits option.splits guppy_response.splits prod.splits
      intro!: put_session_ok dest!: build_session_ok [where win = "cfg_window cfg"])
    (metis fst_conv open_window_ok)

lemma serve_datagram_ok:
  assumes "server_ok cfg ss"
    "serve_datagram cfg url_parse pct_decode handler ok now hash peer datagram ss = Some (ss', out)"
  shows "server_ok cfg ss'"
proof -
  have "session_ok (cfg_window cfg) s'"
    if "map_of ss peer = Some s" "acknowledge cfg ok now seq s = (s', o')" for s s' o' seq
    using acknowledge_ok [OF server_ok_lookup [OF assms(1) that(1)]] that(2) by (metis fst_conv)
  then show ?thesis
    using assms
    by (auto simp: serve_datagram_def split: if_splits sum.splits client_datagram.splits
        option.splits prod.splits intro!: put_session_ok intro: serve_request_ok)
qed

lemma serve_step_ok:
  assumes "server_ok cfg ss"
    "serve_step cfg url_parse pct_decode handler ok now hash ev ss = Some (ss', out)"
  shows "server_ok cfg ss'"
  using assms serve_tick_ok [OF assms(1), of ok now]
  by (auto simp: serve_step_def split: server_event.splits intro: serve_datagram_ok)

lemma serve_loop_ok:
  "server_ok cfg ss \<Longrightarrow> serve_loop cfg url_parse pct_decode handler evs ss = Some (ss', out) \<Longrightarrow>
     server_ok cfg ss'"
proof (induction evs arbitrary: ss out)
  case (Cons e evs)
  then show ?case
    by (cases e) (fastforce split: option.splits prod.splits dest: serve_step_ok)
qed simp

section \<open>Properties\<close>

text \<open>
  (C24) Whatever arrives and whatever the clock, the network and the handler do, the server run
  from no sessions keeps its invariant: at most \<open>max_sessions\<close> sessions, one per peer; each
  has consecutively numbered packets, at most \<open>window\<close> of them in flight, all of those already
  sent, and is marked done only when everything was acknowledged.
\<close>

theorem guppy_serve_invariant:
  assumes "serve_loop cfg url_parse pct_decode handler evs [] = Some (ss, out)"
  shows "distinct (map fst ss) \<and> length ss \<le> cfg_max_sessions cfg \<and>
    (\<forall>(p, s) \<in> set ss. session_ok (cfg_window cfg) s)"
  using serve_loop_ok [of cfg "[]", OF _ assms] by (simp add: server_ok_def)

text \<open>
  A session carries the body: the pieces of its packets concatenate to it, all but the first
  are non-empty, the packets are numbered consecutively from a number of at least
  \<open>MIN_SEQ\<close>, the last number stays below \<open>MAX_SEQ\<close>, and the last packet is the empty
  end-of-file packet.
\<close>

theorem guppy_build_session_correct:
  assumes "fits chunk body"
  shows "\<exists>s f ps. build_session mime body chunk hash now = Some s \<and>
    concat ps = body \<and> (\<forall>p \<in> set (tl ps). p \<noteq> []) \<and> ps \<noteq> [] \<and>
    MIN_SEQ \<le> f \<and> f + length ps < MAX_SEQ \<and>
    map fst (packets s) = [f..<f + length ps + 1] \<and>
    hd (packets s) = (f, encode_first f mime (hd ps)) \<and>
    last (packets s) = (f + length ps, encode_continuation (f + length ps) []) \<and>
    (\<forall>i. 0 < i \<and> i < length ps \<longrightarrow> packets s ! i = (f + i, encode_continuation (f + i) (ps ! i)))"
proof -
  define ps where "ps = body_pieces (max chunk 1) body"
  define f where "f = first_seq_of chunk body hash"
  have tl: "\<forall>p \<in> set (tl ps). p \<noteq> []"
    by (auto simp: ps_def body_pieces_def dest: split_chunks_not_Nil)
  have ne: "ps \<noteq> []" by (simp add: ps_def)
  then obtain p ps' where ps: "ps = p # ps'" by (cases ps) auto
  have pk: "session_packets f mime ps = (f, encode_first f mime p) # cont_packets (Suc f) ps'"
    by (simp add: session_packets_def ps)
  have 1: "map fst (session_packets f mime ps) = [f..<f + length ps + 1]"
    using upt_conv_Cons [of f "f + length ps + 1"]
    unfolding pk by (simp add: map_fst_cont_packets ps del: upt_Suc)
  have "cont_packets (Suc f) ps' \<noteq> []" by (cases ps') auto
  then have "last (session_packets f mime ps) = cont_packets (Suc f) ps' ! length ps'"
    by (simp add: pk last_conv_nth)
  then have 2: "last (session_packets f mime ps) = (f + length ps, encode_continuation (f + length ps) [])"
    by (simp add: cont_packets_nth ps)
  have 3: "\<forall>i. 0 < i \<and> i < length ps \<longrightarrow>
      session_packets f mime ps ! i = (f + i, encode_continuation (f + i) (ps ! i))"
    unfolding pk by (auto simp: ps cont_packets_nth nth_Cons split: nat.splits)
  have 4: "hd (session_packets f mime ps) = (f, encode_first f mime (hd ps))"
    unfolding pk by (simp add: ps)
  have 5: "concat ps = body" by (simp add: ps_def concat_body_pieces)
  have 6: "MIN_SEQ \<le> f" "f + length ps < MAX_SEQ"
    using first_seq_bounds [OF assms, of hash] by (simp_all add: f_def ps_def)
  obtain s where s: "build_session mime body chunk hash now = Some s"
    "packets s = session_packets f mime ps"
    using build_session_packets [OF assms, of mime hash now] by (simp add: f_def ps_def)
  show ?thesis
    by (rule exI [of _ s], rule exI [of _ f], rule exI [of _ ps], unfold s(2))
      (intro conjI s(1) 1 2 3 4 5 6 ne tl)
qed

theorem guppy_build_session_witness:
  "\<exists>s f ps. build_session ''text/plain'' ''hello'' 2 7 0 = Some s \<and> concat ps = ''hello'' \<and>
     MIN_SEQ \<le> f \<and> map fst (packets s) = [f..<f + length ps + 1]"
proof -
  have "fits 2 ''hello''"
    by (simp add: fits_def body_pieces_def split_chunks.simps MAX_SEQ_def MIN_SEQ_def)
  from guppy_build_session_correct [OF this, of "''text/plain''" 7 0] show ?thesis by blast
qed

end
