(* ===== verification/Btree.thy ===== *)
theory Btree
  imports Main
begin

text \<open>
  Rust's \<open>BTreeMap\<close> as the list of its entries in ascending key order. The locale
  \<open>ordered_map\<close> is the contract the clients rely on: how a lookup changes under
  \<open>entry(k).or_insert(v)\<close> and \<open>insert(k, v)\<close>, and that iteration goes through the entries in key order.
\<close>

section \<open>The contract\<close>

locale ordered_map =
  fixes empty :: "'m"
    and get :: "'m \<Rightarrow> 'k::linorder \<Rightarrow> 'v option"
    and or_insert :: "'k \<Rightarrow> 'v \<Rightarrow> 'm \<Rightarrow> 'm"
    and insert_key :: "'k \<Rightarrow> 'v \<Rightarrow> 'm \<Rightarrow> 'm"
    and entries :: "'m \<Rightarrow> ('k \<times> 'v) list"
    and inv :: "'m \<Rightarrow> bool"
  assumes get_empty: "get empty = Map.empty"
    and get_or_insert: "inv m \<Longrightarrow>
      get (or_insert k v m) = (if get m k = None then (get m)(k \<mapsto> v) else get m)"
    and get_insert: "inv m \<Longrightarrow> get (insert_key k v m) = (get m)(k \<mapsto> v)"
    and entries_get: "inv m \<Longrightarrow> map_of (entries m) = get m"
    and entries_sorted: "inv m \<Longrightarrow> sorted_wrt (<) (map fst (entries m))"
    and inv_empty: "inv empty"
    and inv_or_insert: "inv m \<Longrightarrow> inv (or_insert k v m)"
    and inv_insert: "inv m \<Longrightarrow> inv (insert_key k v m)"
begin

lemma keys_eq_dom: "inv m \<Longrightarrow> set (map fst (entries m)) = dom (get m)"
  by (simp flip: entries_get add: dom_map_of_conv_image_fst)

lemma keys_sorted_list: "inv m \<Longrightarrow> map fst (entries m) = sorted_list_of_set (dom (get m))"
  by (metis keys_eq_dom entries_sorted sorted_list_of_set.idem_if_sorted_distinct
      strict_sorted_iff)

lemma values_eq:
  assumes "inv m"
  shows "map snd (entries m) = map (\<lambda>k. the (get m k)) (sorted_list_of_set (dom (get m)))"
proof -
  have "distinct (map fst (entries m))"
    using entries_sorted [OF assms] by (simp add: strict_sorted_iff)
  then have "the (get m (fst e)) = snd e" if "e \<in> set (entries m)" for e
    using that by (metis entries_get [OF assms] map_of_is_SomeI option.sel prod.collapse)
  then have "map snd (entries m) = map (\<lambda>k. the (get m k)) (map fst (entries m))"
    by simp
  with keys_sorted_list [OF assms] show ?thesis by simp
qed

end

section \<open>Association lists in key order\<close>

fun bt_or_insert :: "'k::linorder \<Rightarrow> 'v \<Rightarrow> ('k \<times> 'v) list \<Rightarrow> ('k \<times> 'v) list" where
  "bt_or_insert k v [] = [(k, v)]"
| "bt_or_insert k v ((k', v') # m) =
     (if k < k' then (k, v) # (k', v') # m
      else if k = k' then (k', v') # m
      else (k', v') # bt_or_insert k v m)"

fun bt_insert :: "'k::linorder \<Rightarrow> 'v \<Rightarrow> ('k \<times> 'v) list \<Rightarrow> ('k \<times> 'v) list" where
  "bt_insert k v [] = [(k, v)]"
| "bt_insert k v ((k', v') # m) =
     (if k < k' then (k, v) # (k', v') # m
      else if k = k' then (k, v) # m
      else (k', v') # bt_insert k v m)"

definition bt_inv :: "('k::linorder \<times> 'v) list \<Rightarrow> bool" where
  "bt_inv m \<longleftrightarrow> sorted_wrt (<) (map fst m)"

abbreviation bt_get :: "('k \<times> 'v) list \<Rightarrow> 'k \<Rightarrow> 'v option" where
  "bt_get \<equiv> map_of"

lemma keys_bt_or_insert: "fst ` set (bt_or_insert k v m) = insert k (fst ` set m)"
  by (induction k v m rule: bt_or_insert.induct) auto

lemma keys_bt_insert: "fst ` set (bt_insert k v m) = insert k (fst ` set m)"
  by (induction k v m rule: bt_insert.induct) auto

lemma bt_inv_or_insert: "bt_inv m \<Longrightarrow> bt_inv (bt_or_insert k v m)"
  by (induction k v m rule: bt_or_insert.induct) (auto simp: bt_inv_def keys_bt_or_insert)

lemma bt_inv_insert: "bt_inv m \<Longrightarrow> bt_inv (bt_insert k v m)"
  by (induction k v m rule: bt_insert.induct) (auto simp: bt_inv_def keys_bt_insert)

lemma map_of_less_None: "\<forall>x \<in> set m. (k :: 'k::linorder) < fst x \<Longrightarrow> map_of m k = None"
  by (induction m) auto

lemma bt_get_or_insert:
  "bt_inv m \<Longrightarrow>
     bt_get (bt_or_insert k v m) = (if bt_get m k = None then (bt_get m)(k \<mapsto> v) else bt_get m)"
proof (induction k v m rule: bt_or_insert.induct)
  case (2 k v k' v' m)
  then have "k < k' \<Longrightarrow> map_of m k = None"
    by (intro map_of_less_None) (auto simp: bt_inv_def)
  with 2 show ?case
    by (cases "k < k'"; cases "k = k'") (auto simp: bt_inv_def fun_upd_twist)
qed auto

lemma bt_get_insert: "bt_inv m \<Longrightarrow> bt_get (bt_insert k v m) = (bt_get m)(k \<mapsto> v)"
  by (induction k v m rule: bt_insert.induct) (auto simp: bt_inv_def fun_upd_twist)

lemma bt_or_insert_present: "bt_inv m \<Longrightarrow> bt_get m k = Some v \<Longrightarrow> bt_or_insert k d m = m"
proof (induction m)
  case (Cons e m)
  then show ?case
    using map_of_less_None [of m k] by (cases e) (force simp: bt_inv_def split: if_splits)
qed simp

interpretation btree: ordered_map "[]" bt_get bt_or_insert bt_insert "\<lambda>m. m" bt_inv
  by unfold_locales
    (simp_all add: bt_get_or_insert bt_get_insert bt_inv_or_insert bt_inv_insert,
     simp_all add: bt_inv_def)

text \<open>Iterating a map whose keys are an interval visits the interval in order.\<close>

lemma bt_values_of_interval:
  fixes m :: "(nat \<times> 'v) list"
  assumes "bt_inv m" "dom (bt_get m) = {a..<b}"
  shows "map snd m = map (\<lambda>k. the (bt_get m k)) [a..<b]"
  using btree.values_eq [OF assms(1)] assms(2) by simp

end
