(* ===== verification/Guppy_Client.thy ===== *)
theory Guppy_Client
  imports Guppy_Server Btree
begin

text \<open>
  \<open>crates/guppy-protocol/src/client.rs\<close>: the reassembly of a response and the transaction
  loop. One event is one completed wait of the loop (a datagram, the retransmission timeout,
  a socket error) with the environment's choice of which sends succeed. \<open>Stopped Panicked\<close>
  is the overflow panic of \<open>contiguous_end + 1\<close>.
\<close>

section \<open>Reassembly\<close>

record reassembly =
  first_seq :: nat
  r_mime :: string
  chunks :: "(nat \<times> bytes) list"
  contiguous_end :: nat
  buffered :: nat
  eof_seq :: "nat option"

text \<open>The loop that moves \<open>contiguous_end\<close> over the chunks that are present.\<close>

function advance :: "(nat \<times> bytes) list \<Rightarrow> nat \<Rightarrow> nat option" where
  "advance cs e =
     (case checked_add u32_max e 1 of
        None \<Rightarrow> None
      | Some n \<Rightarrow> if bt_get cs n \<noteq> None then advance cs n else Some e)"
  by pat_completeness auto
termination
  by (relation "measure (\<lambda>(cs, e). u32_max - e)") (auto simp: checked_add_def split: if_splits)

declare advance.simps [simp del]

definition reassembly_insert :: "nat \<Rightarrow> bytes \<Rightarrow> reassembly \<Rightarrow> reassembly option" where
  "reassembly_insert seq data r =
     (let r = r\<lparr>buffered := buffered r + length data, chunks := bt_or_insert seq data (chunks r)\<rparr>
      in map_option (\<lambda>e. r\<lparr>contiguous_end := e\<rparr>) (advance (chunks r) (contiguous_end r)))"

definition complete :: "reassembly \<Rightarrow> bool option" where
  "complete r = map_option (\<lambda>n. eof_seq r = Some n) (checked_add u32_max (contiguous_end r) 1)"

definition into_response :: "reassembly \<Rightarrow> guppy_response" where
  "into_response r = GSuccess (r_mime r) (concat (map snd (chunks r)))"

section \<open>The transaction loop\<close>

datatype bad_url = Unparsable | Wrong_scheme string | No_host

datatype guppy_client_error =
    Bad_url bad_url
  | Request_too_long nat nat
  | Io_error
  | Timeout
  | Body_too_large nat

datatype client_result = Done guppy_response | Failed guppy_client_error | Panicked

datatype client = Running "reassembly option" | Stopped client_result

datatype client_input = Datagram bytes | Silence | Recv_error

type_synonym client_event = "(bytes \<Rightarrow> bool) \<times> client_input"

definition loop_head :: "nat \<Rightarrow> reassembly option \<Rightarrow> client" where
  "loop_head max_body st =
     (case st of
        None \<Rightarrow> Running None
      | Some r \<Rightarrow>
          (case complete r of
             None \<Rightarrow> Stopped Panicked
           | Some c \<Rightarrow>
               if c then Stopped (Done (into_response r))
               else if buffered r > max_body then Stopped (Failed (Body_too_large max_body))
               else Running (Some r)))"

text \<open>Sends happen in order; the first one that fails ends the transaction.\<close>

definition sending :: "(bytes \<Rightarrow> bool) \<Rightarrow> bytes list \<Rightarrow> client \<Rightarrow> bytes list \<times> client" where
  "sending ok msgs next =
     (takeWhile ok msgs, if list_all ok msgs then next else Stopped (Failed Io_error))"

definition on_silence :: "bytes \<Rightarrow> reassembly option \<Rightarrow> bytes list" where
  "on_silence request st =
     (case st of
        None \<Rightarrow> [request]
      | Some r \<Rightarrow> encode_ack (contiguous_end r) #
          (case eof_seq r of None \<Rightarrow> [] | Some e \<Rightarrow> [encode_ack e]))"

definition on_first :: "nat \<Rightarrow> string \<Rightarrow> bytes \<Rightarrow> reassembly option \<Rightarrow> reassembly option" where
  "on_first seq mime data st =
     (case st of
        None \<Rightarrow> Some \<lparr>first_seq = seq, r_mime = mime, chunks = bt_insert seq data [],
                     contiguous_end = seq, buffered = length data, eof_seq = None\<rparr>
      | Some r \<Rightarrow> Some r)"

definition on_continuation :: "nat \<Rightarrow> bytes \<Rightarrow> reassembly \<Rightarrow> client" where
  "on_continuation seq data r =
     (if data = [] then Running (Some (r\<lparr>eof_seq := Some seq\<rparr>))
      else case reassembly_insert seq data r of
        None \<Rightarrow> Stopped Panicked | Some r' \<Rightarrow> Running (Some r'))"

definition on_packet :: "(bytes \<Rightarrow> bool) \<Rightarrow> packet \<Rightarrow> reassembly option \<Rightarrow> bytes list \<times> client" where
  "on_packet ok p st =
     (case p of
        PPrompt t \<Rightarrow> ([], if st = None then Stopped (Done (GPrompt t)) else Running st)
      | PRedirect t \<Rightarrow> ([], if st = None then Stopped (Done (GRedirect t)) else Running st)
      | PError t \<Rightarrow> ([], if st = None then Stopped (Done (GError t)) else Running st)
      | PFirst seq mime data \<Rightarrow> sending ok [encode_ack seq] (Running (on_first seq mime data st))
      | PContinuation seq data \<Rightarrow>
          (case st of
             None \<Rightarrow> ([], Running None)
           | Some r \<Rightarrow>
               if seq \<le> first_seq r then ([], Running (Some r))
               else sending ok [encode_ack seq] (on_continuation seq data r)))"

definition on_input ::
  "bytes \<Rightarrow> (bytes \<Rightarrow> bool) \<Rightarrow> client_input \<Rightarrow> reassembly option \<Rightarrow> bytes list \<times> client" where
  "on_input request ok inp st =
     (case inp of
        Recv_error \<Rightarrow> ([], Stopped (Failed Io_error))
      | Silence \<Rightarrow> sending ok (on_silence request st) (Running st)
      | Datagram d \<Rightarrow>
          (case parse_packet d of Inl _ \<Rightarrow> ([], Running st) | Inr p \<Rightarrow> on_packet ok p st))"

text \<open>The loop over a finite list of events, with everything it sends.\<close>

fun client_loop ::
  "nat \<Rightarrow> bytes \<Rightarrow> client_event list \<Rightarrow> reassembly option \<Rightarrow> bytes list \<times> client" where
  "client_loop max_body request [] st = ([], loop_head max_body st)"
| "client_loop max_body request ((ok, inp) # evs) st =
     (case loop_head max_body st of
        Stopped res \<Rightarrow> ([], Stopped res)
      | Running st' \<Rightarrow>
          (case on_input request ok inp st' of
             (out, Stopped res) \<Rightarrow> (out, Stopped res)
           | (out, Running st'') \<Rightarrow>
               let (out', c) = client_loop max_body request evs st'' in (out @ out', c)))"

definition transact ::
  "nat \<Rightarrow> bytes \<Rightarrow> (bytes \<Rightarrow> bool) \<Rightarrow> client_event list \<Rightarrow> bytes list \<times> client" where
  "transact max_body request ok evs =
     (if ok request then apfst (Cons request) (client_loop max_body request evs None)
      else ([], Stopped (Failed Io_error)))"

text \<open>
  \<open>fetch\<close>: the checks before the socket is opened, then the transaction under the overall
  deadline. \<open>evs\<close> are the events before the deadline; a transaction still running then
  has timed out.
\<close>

definition guppy_fetch ::
  "url_parser \<Rightarrow> nat \<Rightarrow> bool \<Rightarrow> bool \<Rightarrow> string \<Rightarrow> (bytes \<Rightarrow> bool) \<Rightarrow> client_event list \<Rightarrow> client_result" where
  "guppy_fetch url_parse max_body bind_ok connect_ok url ok evs =
     (case url_parse url of
        None \<Rightarrow> Failed (Bad_url Unparsable)
      | Some u \<Rightarrow>
          if url_scheme u \<noteq> ''guppy'' then Failed (Bad_url (Wrong_scheme (url_scheme u)))
          else if url_host u = None then Failed (Bad_url No_host)
          else let request = encode_request url in
            if length request > MAX_REQUEST_BYTES
            then Failed (Request_too_long (length request) MAX_REQUEST_BYTES)
            else if \<not> bind_ok \<or> \<not> connect_ok then Failed Io_error
            else (case snd (transact max_body request ok evs) of
                    Stopped res \<Rightarrow> res
                  | Running _ \<Rightarrow> Failed Timeout))"

section \<open>The transfer contract\<close>

text \<open>
  What the client needs of a server: the datagrams of a response decode to a first packet, the
  non-empty continuation pieces in sequence, and an empty packet at the end. \<open>'r\<close> is the
  type of responses, \<open>ok_src\<close> the responses the contract is promised for.
\<close>

definition transfer_packet :: "nat \<Rightarrow> string \<Rightarrow> bytes list \<Rightarrow> nat \<Rightarrow> packet" where
  "transfer_packet f mime ps i =
     (if i = 0 then PFirst f mime (ps ! 0)
      else PContinuation (f + i) (if i < length ps then ps ! i else []))"

locale transfer_source =
  fixes ok_src :: "'r \<Rightarrow> bool"
    and first_of :: "'r \<Rightarrow> nat"
    and mime_of :: "'r \<Rightarrow> string"
    and pieces_of :: "'r \<Rightarrow> bytes list"
    and datagrams :: "'r \<Rightarrow> bytes list"
  assumes pieces_not_Nil: "ok_src r \<Longrightarrow> pieces_of r \<noteq> []"
    and piece_not_Nil: "ok_src r \<Longrightarrow> 0 < i \<Longrightarrow> i < length (pieces_of r) \<Longrightarrow> pieces_of r ! i \<noteq> []"
    and seq_bound: "ok_src r \<Longrightarrow> first_of r + length (pieces_of r) < u32_max"
    and length_datagrams: "ok_src r \<Longrightarrow> length (datagrams r) = length (pieces_of r) + 1"
    and parse_datagram: "ok_src r \<Longrightarrow> i \<le> length (pieces_of r) \<Longrightarrow>
      parse_packet (datagrams r ! i) = Inr (transfer_packet (first_of r) (mime_of r) (pieces_of r) i)"

section \<open>The reassembly invariant\<close>

definition partial_ok :: "nat \<Rightarrow> string \<Rightarrow> bytes list \<Rightarrow> reassembly \<Rightarrow> bool" where
  "partial_ok f mime ps r \<longleftrightarrow>
     first_seq r = f \<and> r_mime r = mime \<and> bt_inv (chunks r) \<and>
     (\<forall>k v. bt_get (chunks r) k = Some v \<longrightarrow> f \<le> k \<and> k < f + length ps \<and> v = ps ! (k - f)) \<and>
     f \<le> contiguous_end r \<and>
     (\<forall>k. f \<le> k \<and> k \<le> contiguous_end r \<longrightarrow> bt_get (chunks r) k \<noteq> None) \<and>
     bt_get (chunks r) (contiguous_end r + 1) = None \<and>
     (eof_seq r = None \<or> eof_seq r = Some (f + length ps))"

lemma advance_spec:
  assumes "\<forall>k \<in> dom (bt_get cs). k < u32_max" "e < u32_max"
  shows "\<exists>e'. advance cs e = Some e' \<and> e \<le> e' \<and> e' < u32_max \<and>
    (\<forall>k. e < k \<and> k \<le> e' \<longrightarrow> bt_get cs k \<noteq> None) \<and> bt_get cs (e' + 1) = None"
  using assms
proof (induction cs e rule: advance.induct)
  case (1 cs e)
  have n: "checked_add u32_max e 1 = Some (e + 1)"
    using "1.prems"(2) by (simp add: checked_add_def)
  show ?case
  proof (cases "bt_get cs (e + 1)")
    case None
    with n "1.prems"(2) show ?thesis by (subst advance.simps) auto
  next
    case (Some v)
    then have "e + 1 < u32_max" using "1.prems"(1) by blast
    with "1.IH" [OF n] Some "1.prems"(1) obtain e' where
      "advance cs (e + 1) = Some e'" "e + 1 \<le> e'" "e' < u32_max"
      "\<forall>k. e + 1 < k \<and> k \<le> e' \<longrightarrow> bt_get cs k \<noteq> None" "bt_get cs (e' + 1) = None"
      by auto
    moreover from this Some have "\<forall>k. e < k \<and> k \<le> e' \<longrightarrow> bt_get cs k \<noteq> None"
      by (metis Suc_eq_plus1 Suc_lessI option.distinct(1))
    ultimately show ?thesis
      using n Some by (subst advance.simps) auto
  qed
qed

lemma partial_ok_less: "partial_ok f mime ps r \<Longrightarrow> contiguous_end r < f + length ps"
  by (force simp: partial_ok_def)

lemma insert_partial_ok:
  assumes r: "partial_ok f mime ps r" and b: "f + length ps < u32_max"
    and i: "i < length ps" "0 < i"
  obtains r' where "reassembly_insert (f + i) (ps ! i) r = Some r'" "partial_ok f mime ps r'"
    "bt_get (chunks r') = (bt_get (chunks r))(f + i \<mapsto> ps ! i)" "eof_seq r' = eof_seq r"
    "buffered r' = buffered r + length (ps ! i)"
proof -
  let ?cs = "bt_or_insert (f + i) (ps ! i) (chunks r)"
  have g: "bt_get ?cs = (bt_get (chunks r))(f + i \<mapsto> ps ! i)"
  proof (cases "bt_get (chunks r) (f + i)")
    case None
    with r show ?thesis by (simp add: partial_ok_def bt_get_or_insert)
  next
    case (Some v)
    with r have "v = ps ! i" by (force simp: partial_ok_def)
    with r Some show ?thesis by (simp add: partial_ok_def bt_get_or_insert fun_upd_idem)
  qed
  have rng: "\<forall>k v. bt_get ?cs k = Some v \<longrightarrow> f \<le> k \<and> k < f + length ps \<and> v = ps ! (k - f)"
    using r i by (auto simp: g partial_ok_def)
  then have "\<forall>k \<in> dom (bt_get ?cs). k < u32_max"
    using b by (auto simp: dom_def) (meson less_trans)
  moreover have "contiguous_end r < u32_max"
    using partial_ok_less [OF r] b by simp
  ultimately obtain e' where e': "advance ?cs (contiguous_end r) = Some e'"
    "contiguous_end r \<le> e'" "\<forall>k. contiguous_end r < k \<and> k \<le> e' \<longrightarrow> bt_get ?cs k \<noteq> None"
    "bt_get ?cs (e' + 1) = None"
    using advance_spec by blast
  have "bt_get ?cs k \<noteq> None" if "f \<le> k" "k \<le> e'" for k
    using that e'(3) r by (cases "k \<le> contiguous_end r") (auto simp: g partial_ok_def)
  then have "partial_ok f mime ps (r\<lparr>buffered := buffered r + length (ps ! i), chunks := ?cs,
      contiguous_end := e'\<rparr>)"
    using r e'(2,4) rng by (auto simp: partial_ok_def bt_inv_or_insert)
  with e'(1) g show thesis
    by (intro that [of "r\<lparr>buffered := buffered r + length (ps ! i), chunks := ?cs, contiguous_end := e'\<rparr>"])
      (simp_all add: reassembly_insert_def)
qed

text \<open>A complete reassembly holds every piece, in order.\<close>

lemma partial_ok_body:
  assumes "partial_ok f mime ps r" "contiguous_end r + 1 = f + length ps"
  shows "into_response r = GSuccess mime (concat ps)"
proof -
  have dom: "dom (bt_get (chunks r)) = {f..<f + length ps}"
    using assms by (fastforce simp: partial_ok_def)
  have "the (bt_get (chunks r) k) = ps ! (k - f)" if "k \<in> {f..<f + length ps}" for k
  proof -
    from that dom obtain v where "bt_get (chunks r) k = Some v" by blast
    with assms show ?thesis by (auto simp: partial_ok_def)
  qed
  moreover have "map snd (chunks r) = map (\<lambda>k. the (bt_get (chunks r) k)) [f..<f + length ps]"
    using assms dom by (intro bt_values_of_interval) (auto simp: partial_ok_def)
  ultimately have "map snd (chunks r) = map (\<lambda>k. ps ! (k - f)) [f..<f + length ps]"
    by simp
  also have "\<dots> = map ((!) ps) [0..<length ps]"
    by (rule nth_equalityI) simp_all
  also have "\<dots> = ps" by (rule map_nth)
  finally show ?thesis
    using assms by (simp add: into_response_def partial_ok_def)
qed

lemma first_partial_ok:
  assumes "ps \<noteq> []" "on_first f mime (ps ! 0) None = Some r"
  shows "partial_ok f mime ps r"
  using assms by (auto simp: on_first_def partial_ok_def bt_inv_def split: if_splits)

section \<open>The client against a transfer\<close>

definition honest :: "bytes list \<Rightarrow> client_input \<Rightarrow> bool" where
  "honest ds inp \<longleftrightarrow> (case inp of Datagram d \<Rightarrow> d \<in> set ds | _ \<Rightarrow> True)"

definition state_ok :: "nat \<Rightarrow> string \<Rightarrow> bytes list \<Rightarrow> reassembly option \<Rightarrow> bool" where
  "state_ok f mime ps st \<longleftrightarrow> (case st of None \<Rightarrow> True | Some r \<Rightarrow> partial_ok f mime ps r)"

definition payload :: "bytes \<Rightarrow> nat" where
  "payload d = (case parse_packet d of
     Inr (PFirst _ _ x) \<Rightarrow> length x | Inr (PContinuation _ x) \<Rightarrow> length x | _ \<Rightarrow> 0)"

definition delivered :: "nat \<Rightarrow> bytes list \<Rightarrow> reassembly \<Rightarrow> nat \<Rightarrow> bool" where
  "delivered f ps r i \<longleftrightarrow>
     (if i < length ps then bt_get (chunks r) (f + i) \<noteq> None else eof_seq r = Some (f + length ps))"

lemma complete_partial_ok:
  assumes "partial_ok f mime ps r" "f + length ps < u32_max"
  shows "complete r = Some (eof_seq r = Some (contiguous_end r + 1))"
  using partial_ok_less [OF assms(1)] assms(2) by (simp add: complete_def checked_add_def)

lemma complete_done:
  assumes "partial_ok f mime ps r" "eof_seq r = Some (contiguous_end r + 1)"
  shows "into_response r = GSuccess mime (concat ps)"
  using assms by (intro partial_ok_body) (auto simp: partial_ok_def)

lemma loop_head_ok:
  assumes "state_ok f mime ps st" "f + length ps < u32_max"
  shows "loop_head mb st = Running st \<or>
    loop_head mb st = Stopped (Done (GSuccess mime (concat ps))) \<or>
    loop_head mb st = Stopped (Failed (Body_too_large mb))"
  using assms by (auto simp: loop_head_def state_ok_def complete_partial_ok complete_done
      split: option.splits)

lemma all_delivered_complete:
  assumes "partial_ok f mime ps r" "ps \<noteq> []" "\<forall>i. 0 < i \<and> i \<le> length ps \<longrightarrow> delivered f ps r i"
  shows "eof_seq r = Some (contiguous_end r + 1)"
proof -
  have "\<not> contiguous_end r + 1 < f + length ps"
  proof
    assume l: "contiguous_end r + 1 < f + length ps"
    define i where "i = contiguous_end r + 1 - f"
    have "0 < i" "i < length ps" "f + i = contiguous_end r + 1"
      using l assms(1) by (auto simp: i_def partial_ok_def)
    with assms(3) have "bt_get (chunks r) (contiguous_end r + 1) \<noteq> None"
      by (auto simp: delivered_def)
    with assms(1) show False by (simp add: partial_ok_def)
  qed
  with partial_ok_less [OF assms(1)] have "contiguous_end r + 1 = f + length ps" by simp
  with assms(2,3) show ?thesis by (auto simp: delivered_def)
qed

context transfer_source
begin

abbreviation st_ok :: "'r \<Rightarrow> reassembly option \<Rightarrow> bool" where
  "st_ok r \<equiv> state_ok (first_of r) (mime_of r) (pieces_of r)"

abbreviation body_of :: "'r \<Rightarrow> guppy_response" where
  "body_of r \<equiv> GSuccess (mime_of r) (concat (pieces_of r))"

lemma datagram_packet:
  assumes "ok_src r" "d \<in> set (datagrams r)"
  obtains i where "i \<le> length (pieces_of r)" "d = datagrams r ! i"
    "parse_packet d = Inr (transfer_packet (first_of r) (mime_of r) (pieces_of r) i)"
  using assms length_datagrams [of r] parse_datagram [of r]
  by (metis Suc_eq_plus1 in_set_conv_nth less_Suc_eq_le)

lemma continuation_ok:
  assumes r: "ok_src r" and q: "partial_ok (first_of r) (mime_of r) (pieces_of r) q"
    and i: "0 < i" "i \<le> length (pieces_of r)"
  shows "\<exists>q'. on_continuation (first_of r + i) (if i < length (pieces_of r) then pieces_of r ! i else []) q
       = Running (Some q') \<and>
    partial_ok (first_of r) (mime_of r) (pieces_of r) q' \<and>
    delivered (first_of r) (pieces_of r) q' i \<and>
    (\<forall>j. delivered (first_of r) (pieces_of r) q j \<longrightarrow> delivered (first_of r) (pieces_of r) q' j) \<and>
    buffered q' = buffered q + (if i < length (pieces_of r) then length (pieces_of r ! i) else 0)"
proof (cases "i < length (pieces_of r)")
  case True
  obtain q' where "reassembly_insert (first_of r + i) (pieces_of r ! i) q = Some q'"
    "partial_ok (first_of r) (mime_of r) (pieces_of r) q'"
    "bt_get (chunks q') = (bt_get (chunks q))(first_of r + i \<mapsto> pieces_of r ! i)"
    "eof_seq q' = eof_seq q" "buffered q' = buffered q + length (pieces_of r ! i)"
    using insert_partial_ok [OF q seq_bound [OF r] True i(1)] .
  with piece_not_Nil [OF r i(1)] True show ?thesis
    by (intro exI [of _ q']) (simp add: on_continuation_def delivered_def)
next
  case False
  with i q show ?thesis
    by (intro exI [of _ "q\<lparr>eof_seq := Some (first_of r + i)\<rparr>"])
      (auto simp: on_continuation_def partial_ok_def delivered_def)
qed

text \<open>
  A datagram of the transfer: a client that has started keeps what it has, and has that packet
  too; one that has not is started by the first packet only.
\<close>

lemma arrival_running:
  assumes r: "ok_src r" and q: "partial_ok (first_of r) (mime_of r) (pieces_of r) q"
    and i: "i \<le> length (pieces_of r)"
    and p: "parse_packet d = Inr (transfer_packet (first_of r) (mime_of r) (pieces_of r) i)"
  obtains q' where
    "on_input request ok (Datagram d) (Some q) = sending ok [encode_ack (first_of r + i)] (Running (Some q'))"
    "partial_ok (first_of r) (mime_of r) (pieces_of r) q'" "delivered (first_of r) (pieces_of r) q' i"
    "\<forall>j. delivered (first_of r) (pieces_of r) q j \<longrightarrow> delivered (first_of r) (pieces_of r) q' j"
    "buffered q' \<le> buffered q + payload d"
proof (cases "i = 0")
  case True
  then show ?thesis
    using that [of q] p q pieces_not_Nil [OF r]
    by (auto simp: on_input_def on_packet_def transfer_packet_def on_first_def delivered_def partial_ok_def)
next
  case False
  then have "first_seq q < first_of r + i" using q by (simp add: partial_ok_def)
  moreover obtain q' where
    "on_continuation (first_of r + i) (if i < length (pieces_of r) then pieces_of r ! i else []) q = Running (Some q')"
    "partial_ok (first_of r) (mime_of r) (pieces_of r) q'" "delivered (first_of r) (pieces_of r) q' i"
    "\<forall>j. delivered (first_of r) (pieces_of r) q j \<longrightarrow> delivered (first_of r) (pieces_of r) q' j"
    "buffered q' = buffered q + (if i < length (pieces_of r) then length (pieces_of r ! i) else 0)"
    using continuation_ok [OF r q _ i] False by blast
  ultimately show ?thesis
    using that [of q'] False p by (simp add: on_input_def on_packet_def transfer_packet_def payload_def)
qed

lemma arrival_waiting:
  assumes "ok_src r" and p: "parse_packet d = Inr (transfer_packet (first_of r) (mime_of r) (pieces_of r) i)"
  shows "i \<noteq> 0 \<Longrightarrow> on_input request ok (Datagram d) None = ([], Running None)"
    "i = 0 \<Longrightarrow> \<exists>q. on_input request ok (Datagram d) None = sending ok [encode_ack (first_of r)] (Running (Some q)) \<and>
      partial_ok (first_of r) (mime_of r) (pieces_of r) q \<and> buffered q = payload d"
  using p first_partial_ok [OF pieces_not_Nil [OF assms(1)], of "first_of r" "mime_of r"]
  by (auto simp: on_input_def on_packet_def transfer_packet_def on_first_def payload_def)

text \<open>One event keeps the invariant, or ends the transaction with an I/O error.\<close>

lemma on_input_ok:
  assumes r: "ok_src r" and h: "honest (datagrams r) inp" and st: "st_ok r st"
  shows "snd (on_input request ok inp st) = Stopped (Failed Io_error) \<or>
    (\<exists>st'. snd (on_input request ok inp st) = Running st' \<and> st_ok r st')"
proof (cases inp)
  case (Datagram d)
  with h r obtain i where i: "i \<le> length (pieces_of r)"
    "parse_packet d = Inr (transfer_packet (first_of r) (mime_of r) (pieces_of r) i)"
    by (auto simp: honest_def elim: datagram_packet)
  show ?thesis
  proof (cases st)
    case None
    then show ?thesis
      using arrival_waiting [OF r i(2), of request ok] Datagram
      by (cases "i = 0") (auto simp: state_ok_def sending_def)
  next
    case (Some q)
    with st have "partial_ok (first_of r) (mime_of r) (pieces_of r) q" by (simp add: state_ok_def)
    from arrival_running [OF r this i, of request ok] show ?thesis
      using Datagram Some by (metis snd_conv sending_def state_ok_def option.simps(5))
  qed
qed (use st in \<open>auto simp: on_input_def sending_def\<close>)

lemma client_loop_ok:
  "ok_src r \<Longrightarrow> list_all (\<lambda>e. honest (datagrams r) (snd e)) evs \<Longrightarrow> st_ok r st \<Longrightarrow>
     (\<exists>st'. snd (client_loop mb request evs st) = Running st' \<and> st_ok r st') \<or>
     snd (client_loop mb request evs st)
       \<in> {Stopped (Done (body_of r)), Stopped (Failed (Body_too_large mb)), Stopped (Failed Io_error)}"
proof (induction evs arbitrary: st)
  case Nil
  with loop_head_ok [OF _ seq_bound] show ?case by fastforce
next
  case (Cons e evs)
  obtain ok inp where e: "e = (ok, inp)" by fastforce
  show ?case
  proof (cases "loop_head mb st")
    case (Running st')
    with loop_head_ok [OF Cons.prems(3) seq_bound [OF Cons.prems(1)], of mb]
    have st': "st' = st" by auto
    from on_input_ok [of r inp st request ok] Cons.prems e
    consider "snd (on_input request ok inp st) = Stopped (Failed Io_error)"
      | st2 where "snd (on_input request ok inp st) = Running st2" "st_ok r st2"
      by auto
    then show ?thesis
    proof cases
      case 1
      then show ?thesis
        using Running st' e by (auto split: prod.splits client.splits)
    next
      case 2
      then show ?thesis
        using Cons.IH [OF Cons.prems(1) _ 2(2)] Cons.prems(2) Running st' e
        by (auto split: prod.splits client.splits)
    qed
  next
    case (Stopped res)
    with loop_head_ok [OF Cons.prems(3) seq_bound [OF Cons.prems(1)], of mb] e show ?thesis by auto
  qed
qed

text \<open>Every piece delivered once, in any order after the first, completes the response.\<close>

lemma client_loop_completes:
  assumes r: "ok_src r"
  shows "partial_ok (first_of r) (mime_of r) (pieces_of r) q \<Longrightarrow> set ds \<subseteq> set (datagrams r) \<Longrightarrow>
    \<forall>i. 0 < i \<and> i \<le> length (pieces_of r) \<longrightarrow>
      delivered (first_of r) (pieces_of r) q i \<or> datagrams r ! i \<in> set ds \<Longrightarrow>
    buffered q + sum_list (map payload ds) \<le> mb \<Longrightarrow>
    snd (client_loop mb request (map (\<lambda>d. (reliable, Datagram d)) ds) (Some q)) =
      Stopped (Done (body_of r))"
proof (induction ds arbitrary: q)
  case Nil
  then have "eof_seq q = Some (contiguous_end q + 1)"
    using pieces_not_Nil [OF r] by (intro all_delivered_complete) auto
  with Nil show ?case
    by (simp add: loop_head_def complete_partial_ok [OF _ seq_bound [OF r]] complete_done)
next
  case (Cons d ds)
  let ?f = "first_of r" and ?ps = "pieces_of r"
  from Cons.prems(2) r obtain i where i: "i \<le> length ?ps" "d = datagrams r ! i"
    "parse_packet d = Inr (transfer_packet ?f (mime_of r) ?ps i)"
    by (auto elim: datagram_packet)
  show ?case
  proof (cases "eof_seq q = Some (contiguous_end q + 1)")
    case True
    with Cons.prems show ?thesis
      by (simp add: loop_head_def complete_partial_ok [OF _ seq_bound [OF r]] complete_done)
  next
    case False
    with Cons.prems(1,4) have head: "loop_head mb (Some q) = Running (Some q)"
      by (simp add: loop_head_def complete_partial_ok [OF _ seq_bound [OF r]])
    obtain q' where q': "on_input request reliable (Datagram d) (Some q) = sending reliable [encode_ack (?f + i)] (Running (Some q'))"
      "partial_ok ?f (mime_of r) ?ps q'" "delivered ?f ?ps q' i"
      "\<forall>j. delivered ?f ?ps q j \<longrightarrow> delivered ?f ?ps q' j" "buffered q' \<le> buffered q + payload d"
      using arrival_running [OF r Cons.prems(1) i(1,3)] .
    have "delivered ?f ?ps q' j \<or> datagrams r ! j \<in> set ds" if j: "0 < j" "j \<le> length ?ps" for j
    proof (cases "datagrams r ! j = d")
      case True
      then have "transfer_packet ?f (mime_of r) ?ps j = transfer_packet ?f (mime_of r) ?ps i"
        using parse_datagram [OF r, of j] j i by simp
      with j have "i = j" by (auto simp: transfer_packet_def split: if_splits)
      with q'(3) show ?thesis by simp
    next
      case False
      then show ?thesis using Cons.prems(3) j q'(4) by auto
    qed
    then have "snd (client_loop mb request (map (\<lambda>d. (reliable, Datagram d)) ds) (Some q')) = Stopped (Done (body_of r))"
      using Cons.prems(2,4) q'(2,5) by (intro Cons.IH) auto
    with head q'(1) show ?thesis by (simp add: sending_def case_prod_beta)
  qed
qed

end

end
