(* ===== verification/Guppy_System.thy ===== *)
theory Guppy_System
  imports Guppy_Session Guppy_Client
begin

text \<open>
  The Guppy server and client together. The server's sessions provide the transfer contract the
  client is verified against; an exchange is a server run that keeps one peer's session alive,
  with a network that may lose, repeat and reorder whatever the server has sent that peer.
\<close>

section \<open>Sessions provide the transfer contract\<close>

type_synonym served = "string \<times> bytes \<times> nat \<times> nat"

definition served_ok :: "served \<Rightarrow> bool" where
  "served_ok = (\<lambda>(mime, body, chunk, hash). fits chunk body \<and> header_text mime \<and> mime \<noteq> [])"

definition served_first :: "served \<Rightarrow> nat" where
  "served_first = (\<lambda>(mime, body, chunk, hash). first_seq_of chunk body hash)"

definition served_pieces :: "served \<Rightarrow> bytes list" where
  "served_pieces = (\<lambda>(mime, body, chunk, hash). body_pieces (max chunk 1) body)"

definition session_wires :: "served \<Rightarrow> bytes list" where
  "session_wires = (\<lambda>(mime, body, chunk, hash).
     case build_session mime body chunk hash 0 of None \<Rightarrow> [] | Some s \<Rightarrow> map snd (packets s))"

lemma session_packets_nth:
  assumes "i \<le> length ps" "ps \<noteq> []"
  shows "session_packets f mime ps ! i =
    (f + i, if i = 0 then encode_first f mime (ps ! 0)
            else encode_continuation (f + i) (if i < length ps then ps ! i else []))"
  using assms by (cases i; cases ps) (auto simp: session_packets_def cont_packets_nth)

interpretation session: transfer_source served_ok served_first fst served_pieces session_wires
proof
  fix r :: served and i
  obtain mime body chunk hash where r: "r = (mime, body, chunk, hash)" by (cases r) auto
  define f where "f = first_seq_of chunk body hash"
  define ps where "ps = body_pieces (max chunk 1) body"
  note defs = r served_ok_def served_first_def served_pieces_def f_def [symmetric] ps_def [symmetric]
  show "served_ok r \<Longrightarrow> served_pieces r \<noteq> []"
    by (simp add: r served_pieces_def)
  show "served_ok r \<Longrightarrow> 0 < i \<Longrightarrow> i < length (served_pieces r) \<Longrightarrow> served_pieces r ! i \<noteq> []"
    using body_pieces_nth_not_Nil by (simp add: r served_pieces_def)
  assume ok: "served_ok r"
  then have fits: "fits chunk body" and mime: "header_text mime" "mime \<noteq> []"
    by (simp_all add: r served_ok_def)
  have b: "MIN_SEQ \<le> f" "f + length ps < MAX_SEQ"
    using first_seq_bounds [OF fits] by (simp_all add: f_def ps_def)
  show "served_first r + length (served_pieces r) < u32_max"
    using b by (simp add: defs MAX_SEQ_def del: One_nat_def)
  have w: "session_wires r = map snd (session_packets f mime ps)"
    by (simp add: session_wires_def r build_session_packets [OF fits] f_def ps_def)
  have ps: "ps \<noteq> []" by (simp add: ps_def)
  then have len: "length (session_packets f mime ps) = length ps + 1"
    by (simp add: session_packets_def)
  then show "length (session_wires r) = length (served_pieces r) + 1"
    unfolding w by (simp add: defs del: One_nat_def)
  assume i: "i \<le> length (served_pieces r)"
  then have i': "i \<le> length ps" by (simp add: defs del: One_nat_def)
  have "f + i \<le> u32_max"
    using b i' by (simp add: MAX_SEQ_def)
  moreover have "wf_packet (PFirst f mime (ps ! 0))"
    using b mime by (auto simp: MAX_SEQ_def MIN_SEQ_def)
  ultimately show "parse_packet (session_wires r ! i) =
    Inr (transfer_packet (served_first r) (fst r) (served_pieces r) i)"
    using i' ps len parse_first parse_continuation unfolding w
    by (simp add: defs transfer_packet_def session_packets_nth del: wf_packet.simps One_nat_def)
qed

section \<open>What the server sends a peer\<close>

definition wires_to :: "'addr \<Rightarrow> 'addr sends \<Rightarrow> bytes list" where
  "wires_to p out = map snd (filter (\<lambda>e. fst e = p) out)"

lemma send_window_wires: "set (snd (send_window win ok s)) \<subseteq> snd ` set (packets s)"
proof -
  obtain s' out where r: "send_window win ok s = (s', out)" by fastforce
  have "set out \<subseteq> set (map snd (drop (next_unsent s) (packets s)))"
    using send_window_spec [OF r] by (metis set_take_subset take_map)
  also have "\<dots> \<subseteq> snd ` set (packets s)"
    using set_drop_subset by fastforce
  finally show ?thesis by (simp add: r)
qed

lemma send_window_packets [simp]: "packets (fst (send_window win ok s)) = packets s"
proof -
  obtain s' out where r: "send_window win ok s = (s', out)" by fastforce
  with send_window_spec [OF r] show ?thesis by simp
qed

lemma open_window_wires:
  "set (snd (open_window cfg ok now s)) \<subseteq> snd ` set (packets s)"
  "packets (fst (open_window cfg ok now s)) = packets s"
  using send_window_wires [of "cfg_window cfg" ok s] send_window_packets [of "cfg_window cfg" ok s]
  by (simp_all add: open_window_def case_prod_beta del: send_window_packets)

lemma acknowledge_wires:
  "set (snd (acknowledge cfg ok now q s)) \<subseteq> snd ` set (packets s)"
  "packets (fst (acknowledge cfg ok now q s)) = packets s"
  using open_window_wires [of cfg ok now "s\<lparr>unacked := unacked s - {q}\<rparr>"]
  by (auto simp: acknowledge_def Let_def)

lemma retransmit_wires:
  "set (snd (retransmit ok now s)) \<subseteq> snd ` set (packets s)"
  "packets (fst (retransmit ok now s)) = packets s"
proof -
  have "the (map_of (packets s) k) \<in> snd ` set (packets s)" if "map_of (packets s) k \<noteq> None" for k
    using that by (metis image_eqI map_of_SomeD not_None_eq option.sel snd_conv)
  then show "set (snd (retransmit ok now s)) \<subseteq> snd ` set (packets s)"
    by (auto simp: retransmit_def Let_def)
  show "packets (fst (retransmit ok now s)) = packets s"
    by (simp add: retransmit_def Let_def)
qed

lemma tick_session_wires:
  "set (snd (tick_session cfg ok now (p, s))) \<subseteq> {p} \<times> snd ` set (packets s)"
  "packets (snd (fst (tick_session cfg ok now (p, s)))) = packets s"
  using retransmit_wires [of ok now s]
  by (auto simp: tick_session_def case_prod_beta)

text \<open>
  While a peer's session lives, its packets never change and everything sent to the peer is
  one of them: whatever arrives, from whomever.
\<close>

definition own_packets :: "'addr \<Rightarrow> session \<Rightarrow> 'addr sessions \<times> 'addr sends \<Rightarrow> bool" where
  "own_packets p s r \<longleftrightarrow>
     (map_of (fst r) p = None \<or> (\<exists>s'. map_of (fst r) p = Some s' \<and> packets s' = packets s)) \<and>
     set (wires_to p (snd r)) \<subseteq> snd ` set (packets s)"

lemma serve_tick_own:
  assumes "distinct (map fst ss)" "map_of ss p = Some s"
  shows "own_packets p s (serve_tick cfg ok now ss)"
proof -
  have uniq: "t = s" if "(p, t) \<in> set ss" for t
    using assms that by (metis map_of_is_SomeI option.inject)
  let ?out = "serve_tick cfg ok now ss"
  have "packets s' = packets s" if "map_of (fst ?out) p = Some s'" for s'
  proof -
    from map_of_SomeD [OF that] obtain q t where "(q, t) \<in> set ss"
      "fst (tick_session cfg ok now (q, t)) = (p, s')"
      by (auto simp: serve_tick_def Let_def)
    then show ?thesis
      using uniq tick_session_wires(2) fst_tick_session by (metis fst_conv snd_conv)
  qed
  moreover have "w \<in> snd ` set (packets s)" if "w \<in> set (wires_to p (snd ?out))" for w
  proof -
    from that obtain e where "e \<in> set ss" "(p, w) \<in> set (snd (tick_session cfg ok now e))"
      unfolding wires_to_def serve_tick_def Let_def by auto
    then show ?thesis
      using uniq [of "snd e"] tick_session_wires(1) [of cfg ok now "fst e" "snd e"]
      by (metis SigmaD1 SigmaD2 prod.collapse singletonD subsetD)
  qed
  ultimately show ?thesis
    by (cases "map_of (fst ?out) p") (auto simp: own_packets_def)
qed

lemma wires_to_Pair [simp]: "wires_to p (map (Pair q) ws) = (if p = q then ws else [])"
  by (simp add: wires_to_def filter_map o_def)

lemma wires_to_reply [simp]: "p \<noteq> q \<Longrightarrow> wires_to p (reply_one ok q w) = []"
  by (simp add: wires_to_def reply_one_def)

lemma wires_to_Nil [simp]: "wires_to p [] = []"
  by (simp add: wires_to_def)

text \<open>
  What a datagram does to a peer that has a session: its own acknowledgements reach the session,
  nothing else touches it or is sent to the peer.
\<close>

lemma serve_recv_session:
  assumes "map_of ss p = Some s"
    and "serve_step cfg url_parse pct_decode handler ok now hash (Recv q d) ss = Some (ss', out)"
  obtains k where "q = p" "parse_client_datagram d = Inr (Ack k)"
      "map_of ss' p = Some (fst (acknowledge cfg ok now k s))" "wires_to p out = snd (acknowledge cfg ok now k s)"
  | "map_of ss' p = Some s" "wires_to p out = []"
proof (cases "\<exists>k. q = p \<and> \<not> length d > MAX_REQUEST_BYTES \<and> parse_client_datagram d = Inr (Ack k)")
  case True
  then show ?thesis
    using assms that(1) by (auto simp: serve_step_def serve_datagram_def map_of_put_session case_prod_beta)
next
  case False
  then have "map_of ss' p = Some s \<and> wires_to p out = []"
    using assms
    by (cases "p = q")
      (auto simp: serve_step_def serve_datagram_def serve_request_def map_of_put_session case_prod_beta
        split: if_splits option.splits sum.splits client_datagram.splits guppy_response.splits)
  then show ?thesis using that(2) by blast
qed

lemma serve_step_own:
  assumes "distinct (map fst ss)" "map_of ss p = Some s"
    "serve_step cfg url_parse pct_decode handler ok now hash ev ss = Some r"
  shows "own_packets p s r"
proof (cases ev)
  case (Recv q d)
  obtain ss' out where r: "r = (ss', out)" by fastforce
  show ?thesis
    by (cases rule: serve_recv_session [OF assms(2) assms(3) [unfolded Recv r]]) (auto simp: r own_packets_def acknowledge_wires)
next
  case Tick
  with assms(3) serve_tick_own [OF assms(1,2)] show ?thesis by (auto simp: serve_step_def)
next
  case Recv_failed
  with assms(2,3) show ?thesis by (auto simp: serve_step_def own_packets_def)
qed

section \<open>Exchanges\<close>

text \<open>
  A run of the server from the request of peer \<open>p\<close> that opened a session, as long as the
  session lives, with all that was sent to \<open>p\<close> on the way. The other events are arbitrary:
  ticks, datagrams of any peer, any choice of clock, hash and failing sends.
\<close>

inductive exchange ::
  "server_config \<Rightarrow> url_parser \<Rightarrow> (string \<Rightarrow> bytes) \<Rightarrow> ('addr request \<Rightarrow> guppy_response) \<Rightarrow>
   'addr \<Rightarrow> served \<Rightarrow> 'addr sessions \<Rightarrow> bytes list \<Rightarrow> bool"
  for cfg url_parse pct_decode handler p
where
  opened:
    "server_ok cfg ss \<Longrightarrow> map_of ss p = None \<Longrightarrow>
     guppy_parse_request url_parse pct_decode line p = Some rq \<Longrightarrow> handler rq = GSuccess mime body \<Longrightarrow>
     serve_request cfg url_parse pct_decode handler ok now hash p line ss = Some (ss', out) \<Longrightarrow>
     map_of ss' p \<noteq> None \<Longrightarrow>
     exchange cfg url_parse pct_decode handler p (mime, body, cfg_chunk_size cfg, hash) ss' (wires_to p out)"
| continued:
    "exchange cfg url_parse pct_decode handler p sv ss net \<Longrightarrow>
     serve_step cfg url_parse pct_decode handler ok now hash ev ss = Some (ss', out) \<Longrightarrow>
     map_of ss' p \<noteq> None \<Longrightarrow>
     exchange cfg url_parse pct_decode handler p sv ss' (net @ wires_to p out)"

lemma build_session_wires:
  assumes "build_session mime body chunk hash now = Some s"
  shows "map snd (packets s) = session_wires (mime, body, chunk, hash)"
proof -
  have "map_option packets (build_session mime body chunk hash 0) =
    map_option packets (build_session mime body chunk hash now)"
    unfolding build_session_def Let_def by (simp split: option.splits)
  with assms show ?thesis
    by (cases "build_session mime body chunk hash 0") (simp_all add: session_wires_def)
qed

text \<open>The invariant of an exchange: the peer's session is the one that was built, and only its datagrams went out.\<close>

lemma exchange_inv:
  "exchange cfg url_parse pct_decode handler p sv ss net \<Longrightarrow>
     server_ok cfg ss \<and> set net \<subseteq> set (session_wires sv) \<and>
     (\<exists>s. map_of ss p = Some s \<and> map snd (packets s) = session_wires sv)"
proof (induction rule: exchange.induct)
  case (opened ss line rq mime body ok now hash ss' out)
  from opened(2-6) obtain s where s: "build_session mime body (cfg_chunk_size cfg) hash now = Some s"
    and ss': "ss' = put_session p (fst (open_window cfg ok now s)) ss"
    and out: "out = map (Pair p) (snd (open_window cfg ok now s))"
    by (auto simp: serve_request_def case_prod_beta split: if_splits option.splits)
  have "server_ok cfg ss'"
    using serve_request_ok [OF opened(1) opened(5)] .
  moreover have "set (wires_to p out) \<subseteq> snd ` set (packets s)"
    using out open_window_wires(1) by simp
  moreover have "map_of ss' p = Some (fst (open_window cfg ok now s))"
    by (simp add: ss' map_of_put_session)
  ultimately show ?case
    using build_session_wires [OF s] open_window_wires(2) [of cfg ok now s]
    by (metis list.set_map)
next
  case (continued sv ss net ok now hash ev ss' out)
  then obtain s where s: "map_of ss p = Some s" "map snd (packets s) = session_wires sv"
    and ok: "server_ok cfg ss" and net: "set net \<subseteq> set (session_wires sv)" by blast
  have "distinct (map fst ss)" using ok by (simp add: server_ok_def)
  from serve_step_own [OF this s(1) continued(2)] have "own_packets p s (ss', out)" .
  with continued(3) obtain s' where "map_of ss' p = Some s'" "packets s' = packets s"
    and "set (wires_to p out) \<subseteq> snd ` set (packets s)"
    by (auto simp: own_packets_def)
  moreover have "snd ` set (packets s) = set (session_wires sv)"
    by (metis s(2) list.set_map)
  ultimately show ?case
    using serve_step_ok [OF ok continued(2)] s(2) net by simp
qed

section \<open>Progress of a session\<close>

definition remaining :: "session \<Rightarrow> nat" where
  "remaining s = length (packets s) - next_unsent s + card (unacked s)"

definition window_open :: "nat \<Rightarrow> session \<Rightarrow> bool" where
  "window_open win s \<longleftrightarrow> card (unacked s) = win \<or> next_unsent s = length (packets s)"

fun ack_schedule :: "server_config \<Rightarrow> nat \<Rightarrow> (nat set \<Rightarrow> nat) \<Rightarrow> nat \<Rightarrow> session \<Rightarrow> session" where
  "ack_schedule cfg now pick 0 s = s"
| "ack_schedule cfg now pick (Suc n) s =
     ack_schedule cfg now pick n (fst (acknowledge cfg reliable now (pick (unacked s)) s))"

lemma remaining_send_window: "session_ok win s \<Longrightarrow> remaining (fst (send_window win ok s)) = remaining s"
proof (induction s rule: send_window_induct [where win = win and ok = ok])
  case (1 s)
  then show ?case
    using send_one_ok [of win s] next_seq_not_unacked [of win s] session_okD(5) [of win s]
    by (subst fst_send_window) (auto simp: remaining_def)
qed

lemma acknowledge_progress:
  assumes ok: "session_ok (cfg_window cfg) s" and w: "0 < cfg_window cfg"
    and q: "q \<in> unacked s" and t_def: "t = fst (acknowledge cfg reliable now q s)"
  shows "remaining t + 1 = remaining s \<and> (window_open (cfg_window cfg) t) \<and>
    (remaining t = 0 \<longrightarrow> done_at t \<noteq> None)"
proof -
  let ?s = "s\<lparr>unacked := unacked s - {q}\<rparr>"
  have fin: "finite (unacked s)" "done_at s = None"
    using ok q session_okD(5) by (auto simp: session_ok_def)
  then have oks: "session_ok (cfg_window cfg) ?s"
    using ack_one_ok [OF ok] by simp
  have r: "remaining ?s + 1 = remaining s"
    using q fin card_Suc_Diff1 [of "unacked s" q] by (simp add: remaining_def)
  show ?thesis
  proof (cases "next_unsent ?s = length (packets ?s) \<and> unacked ?s = {}")
    case True
    then have "t = ?s\<lparr>done_at := Some now\<rparr>"
      using fin by (simp add: t_def acknowledge_def)
    with True r show ?thesis by (simp add: remaining_def window_open_def)
  next
    case False
    let ?u = "fst (send_window (cfg_window cfg) reliable ?s)"
    have t: "t = ?u\<lparr>last_send := now\<rparr>"
      using False by (auto simp: t_def acknowledge_def Let_def open_window_def case_prod_beta)
    have "remaining ?u = remaining ?s" using remaining_send_window [OF oks] .
    moreover have "remaining ?s \<noteq> 0"
    proof
      assume "remaining ?s = 0"
      then have "next_unsent ?s = length (packets ?s)" "card (unacked ?s) = 0"
        using session_okD(2) [OF oks] unfolding remaining_def by linarith+
      with session_okD(5) [OF oks] False show False by simp
    qed
    ultimately show ?thesis
      using send_window_fills [OF oks] r t by (auto simp: remaining_def window_open_def)
  qed
qed

lemma window_open_unacked:
  assumes "session_ok win s" "window_open win s" "0 < win" "0 < remaining s"
  shows "unacked s \<noteq> {}"
  using assms session_okD(2,5) [OF assms(1)] by (auto simp: window_open_def remaining_def)

lemma ack_schedule_done:
  assumes w: "0 < cfg_window cfg" and pick: "\<And>A. finite A \<Longrightarrow> A \<noteq> {} \<Longrightarrow> pick A \<in> A"
  shows "session_ok (cfg_window cfg) s \<Longrightarrow> window_open (cfg_window cfg) s \<Longrightarrow> remaining s = Suc n \<Longrightarrow>
    done_at (ack_schedule cfg now pick (Suc n) s) \<noteq> None"
proof (induction n arbitrary: s)
  case (0 s)
  then have "pick (unacked s) \<in> unacked s"
    using window_open_unacked [OF _ _ w] session_okD(5) by (intro pick) auto
  with acknowledge_progress [OF 0(1) w _ refl] 0(3) show ?case by simp
next
  case (Suc n s)
  then have q: "pick (unacked s) \<in> unacked s"
    using window_open_unacked [OF _ _ w] session_okD(5) by (intro pick) auto
  let ?t = "fst (acknowledge cfg reliable now (pick (unacked s)) s)"
  have "remaining ?t = Suc n" "window_open (cfg_window cfg) ?t"
    using acknowledge_progress [OF Suc.prems(1) w q refl, of now] Suc.prems(3) by auto
  with Suc.IH [OF acknowledge_ok [OF Suc.prems(1)]] show ?case
    by (simp del: ack_schedule.simps(2) add: ack_schedule.simps(2) [of cfg now pick "Suc n"])
qed

section \<open>Properties\<close>

text \<open>
  (C1) End to end: whatever a Guppy client receives of one exchange with the server, lost,
  repeated and reordered at will, with ticks, stray datagrams and failing sends in between, its
  transaction never panics and never yields anything but the body the handler produced, with
  the handler's MIME type.
\<close>

theorem guppy_exchange_correct:
  assumes "exchange cfg url_parse pct_decode handler p (mime, body, chunk, hash) ss net"
    and "fits chunk body" "header_text mime" "mime \<noteq> []"
    and "list_all (\<lambda>e. honest net (snd e)) evs"
  shows "snd (transact mb request ok evs)
      \<in> {Stopped (Done (GSuccess mime body)), Stopped (Failed (Body_too_large mb)), Stopped (Failed Io_error)}
    \<or> (\<exists>st. snd (transact mb request ok evs) = Running st)"
proof -
  let ?r = "(mime, body, chunk, hash)"
  have r: "served_ok ?r" using assms(2-4) by (simp add: served_ok_def)
  have "set net \<subseteq> set (session_wires ?r)"
    using exchange_inv [OF assms(1)] by blast
  then have h: "list_all (\<lambda>e. honest (session_wires ?r) (snd e)) evs"
    using assms(5) by (auto simp: list_all_iff honest_def split: client_input.splits)
  have "concat (served_pieces ?r) = body"
    by (simp add: served_pieces_def concat_body_pieces)
  then show ?thesis
    using session.client_loop_ok [OF r h, of None mb request] by (auto simp: transact_def state_ok_def)
qed

text \<open>
  Liveness of the transfer: once the first packet has arrived, every other datagram of the
  session, in any order and with any repetitions, completes the response, as long as the
  payloads received do not exceed the client's limit.
\<close>

theorem guppy_transfer_completes:
  assumes "fits chunk body" "header_text mime" "mime \<noteq> []"
    and "build_session mime body chunk hash now = Some s"
    and "set (d # ds) = snd ` set (packets s)" "d = snd (hd (packets s))"
    and "sum_list (map payload (d # ds)) \<le> mb" "ok request"
  shows "snd (transact mb request ok (map (\<lambda>d. (reliable, Datagram d)) (d # ds))) =
    Stopped (Done (GSuccess mime body))"
proof -
  let ?r = "(mime, body, chunk, hash)" and ?f = "first_seq_of chunk body hash"
  let ?ps = "served_pieces ?r"
  have r: "served_ok ?r" using assms(1-3) by (simp add: served_ok_def)
  have w: "map snd (packets s) = session_wires ?r"
    using assms(4) by (rule build_session_wires)
  then have ds: "set (d # ds) = set (session_wires ?r)"
    using assms(5) by (metis list.set_map)
  have ne: "packets s \<noteq> []" using assms(5) by auto
  have d0: "d = session_wires ?r ! 0"
    using assms(6) w ne by (metis hd_conv_nth length_greater_0_conv nth_map)
  have pd: "parse_packet d = Inr (transfer_packet ?f mime ?ps 0)"
    using session.parse_datagram [OF r, of 0] d0 by (simp add: served_first_def)
  obtain q where q: "on_input request reliable (Datagram d) None = sending reliable [encode_ack ?f] (Running (Some q))"
    "partial_ok ?f mime ?ps q" "buffered q = payload d"
    using session.arrival_waiting(2) [OF r, of d 0] pd by (auto simp: served_first_def)
  have "snd (client_loop mb request (map (\<lambda>d. (reliable, Datagram d)) ds) (Some q)) =
    Stopped (Done (GSuccess mime (concat ?ps)))"
  proof (rule session.client_loop_completes [OF r, simplified served_first_def, simplified])
    show "\<forall>i. 0 < i \<and> i \<le> length ?ps \<longrightarrow> delivered ?f ?ps q i \<or> session_wires ?r ! i \<in> set ds"
    proof (intro allI impI)
      fix i assume i: "0 < i \<and> i \<le> length ?ps"
      then have "session_wires ?r ! i \<in> set (session_wires ?r)"
        using session.length_datagrams [OF r] by simp
      moreover have "session_wires ?r ! i \<noteq> d"
        using session.parse_datagram [OF r, of i] pd i by (auto simp: transfer_packet_def)
      ultimately show "delivered ?f ?ps q i \<or> session_wires ?r ! i \<in> set ds"
        using ds by auto
    qed
    show "buffered q + sum_list (map payload ds) \<le> mb"
      using assms(7) q(3) by simp
  qed (use q(2) ds in auto)
  moreover have "concat ?ps = body"
    by (simp add: served_pieces_def concat_body_pieces)
  ultimately show ?thesis
    using assms(8) q(1) by (simp add: transact_def loop_head_def sending_def case_prod_beta)
qed

text \<open>
  (C23) Liveness of the server: a session whose window has been opened, over a network that takes
  every datagram, is finished after exactly one acknowledgement per packet, whichever
  outstanding packet each acknowledgement names.
\<close>

theorem guppy_session_finishes:
  assumes "build_session mime body chunk hash now = Some s" "0 < cfg_window cfg"
    and "\<And>A. finite A \<Longrightarrow> A \<noteq> {} \<Longrightarrow> pick A \<in> A"
  shows "done_at (ack_schedule cfg now pick (length (packets s)) (fst (open_window cfg reliable now s))) \<noteq> None"
proof -
  let ?u = "fst (send_window (cfg_window cfg) reliable s)"
  let ?t = "fst (open_window cfg reliable now s)"
  have s: "session_ok (cfg_window cfg) s" "unacked s = {}"
    using build_session_ok [OF assms(1)] by blast+
  have n: "next_unsent s = 0"
    using assms(1) by (auto simp: build_session_def Let_def split: option.splits)
  have t: "?t = ?u\<lparr>last_send := now\<rparr>" by (simp add: open_window_def case_prod_beta)
  have "remaining ?t = length (packets s)"
    using remaining_send_window [OF s(1), of reliable] s(2) n by (simp add: t remaining_def)
  moreover have "window_open (cfg_window cfg) ?t"
    using send_window_fills [OF s(1)] by (simp add: t window_open_def)
  moreover obtain k where "length (packets s) = Suc k"
    using session_okD(1) [OF s(1)] by (cases "packets s") auto
  ultimately show ?thesis
    using ack_schedule_done [where pick = pick, OF assms(2,3) open_window_ok [OF s(1)]] by metis
qed

section \<open>A concrete exchange\<close>

abbreviation demo_url :: url where
  "demo_url \<equiv> \<lparr>url_scheme = ''guppy'', url_host = Some ''h'', url_port = None, url_path = ''/'',
     url_query = None, url_fragment = None, url_username = []\<rparr>"

abbreviation demo_handler :: "nat request \<Rightarrow> guppy_response" where
  "demo_handler \<equiv> \<lambda>_. GSuccess ''text/plain'' ''hi''"

abbreviation demo_first :: bytes where "demo_first \<equiv> ''6 text/plain'' @ CRLF @ ''hi''"
abbreviation demo_eof :: bytes where "demo_eof \<equiv> ''7'' @ CRLF"

abbreviation demo_session :: "nat \<Rightarrow> nat set \<Rightarrow> session" where
  "demo_session n u \<equiv> \<lparr>packets = [(6, demo_first), (7, demo_eof)], next_unsent = n, unacked = u,
     last_send = 0, created = 0, done_at = None\<rparr>"

lemmas guppy_eval = show_nat.simps body_pieces_def session_packets_def encode_first_def
  encode_continuation_def MAX_SEQ_def MIN_SEQ_def first_seq_of_def

lemma demo_fits: "fits 512 ''hi''"
  by (simp add: fits_def guppy_eval)

lemma demo_mime: "header_text ''text/plain''"
  by (simp add: header_text_def trim_visible_all ascii_valid_utf8 ascii_def ascii_ws_def between_def)

lemma demo_build: "build_session ''text/plain'' ''hi'' 512 0 0 = Some (demo_session 0 {})"
  by (simp add: build_session_packets [OF demo_fits] guppy_eval)

lemma demo_request:
  "serve_request default_server_config (\<lambda>_. Some demo_url) id demo_handler reliable 0 0 0 ''guppy://h/'' [] =
   Some ([(0, demo_session 2 {6, 7})], [(0, demo_first), (0, demo_eof)])"
  by (auto simp: serve_request_def default_server_config_def guppy_parse_request_def demo_build
      open_window_def send_window.simps put_session_def)

lemma demo_exchange:
  "exchange default_server_config (\<lambda>_. Some demo_url) id demo_handler 0
     (''text/plain'', ''hi'', 512, 0) [(0, demo_session 2 {6, 7})] [demo_first, demo_eof]"
proof -
  have "server_ok default_server_config []"
    by (simp add: server_ok_def)
  moreover have "guppy_parse_request (\<lambda>_. Some demo_url) id ''guppy://h/'' (0::nat) =
    Some \<lparr>r_url = demo_url, r_path = ''/'', r_input = None, r_peer = 0\<rparr>"
    by (simp add: guppy_parse_request_def)
  ultimately show ?thesis
    using exchange.opened [OF _ _ _ _ demo_request, where mime = "''text/plain''" and body = "''hi''"]
    by (auto simp: wires_to_def default_server_config_def)
qed

theorem guppy_exchange_witness:
  "snd (transact 100 ''guppy://h/'' reliable [(reliable, Datagram demo_eof), (reliable, Datagram demo_first)])
      \<in> {Stopped (Done (GSuccess ''text/plain'' ''hi'')), Stopped (Failed (Body_too_large 100)),
          Stopped (Failed Io_error)}
    \<or> (\<exists>st. snd (transact 100 ''guppy://h/'' reliable
         [(reliable, Datagram demo_eof), (reliable, Datagram demo_first)]) = Running st)"
  by (rule guppy_exchange_correct [OF demo_exchange demo_fits demo_mime]) (simp_all add: honest_def)

theorem guppy_transfer_witness:
  "snd (transact 100 ''guppy://h/'' reliable
      (map (\<lambda>d. (reliable, Datagram d)) [demo_first, demo_eof, demo_first])) =
    Stopped (Done (GSuccess ''text/plain'' ''hi''))"
proof (rule guppy_transfer_completes [OF demo_fits demo_mime _ demo_build])
  have "payload demo_first = 2" "payload demo_eof = 0"
    using parse_first [of 6 "''text/plain''" "''hi''"] parse_continuation [of 7 "[]"] demo_mime
    by (simp_all add: payload_def guppy_eval)
  then show "sum_list (map payload (demo_first # [demo_eof, demo_first])) \<le> 100" by simp
qed auto

theorem guppy_session_finishes_witness:
  "done_at (ack_schedule default_server_config 0 Min (length (packets (demo_session 0 {})))
     (fst (open_window default_server_config reliable 0 (demo_session 0 {})))) \<noteq> None"
  by (rule guppy_session_finishes [OF demo_build]) (simp_all add: default_server_config_def)

theorem guppy_serve_invariant_witness:
  "let ss = [(0::nat, demo_session 2 {6, 7})] in
   serve_loop default_server_config (\<lambda>_. Some demo_url) id demo_handler
     [(reliable, 0, 0, Recv 0 (''guppy://h/'' @ CRLF))] [] = Some (ss, [(0, demo_first), (0, demo_eof)]) \<and>
   distinct (map fst ss) \<and> length ss \<le> cfg_max_sessions default_server_config \<and>
   (\<forall>(p, s) \<in> set ss. session_ok (cfg_window default_server_config) s)"
proof -
  have "parse_client_datagram (''guppy://h/'' @ CRLF) = Inr (Req ''guppy://h/'')"
    using client_datagram.dec_enc [of "Req ''guppy://h/''"]
    by (simp add: encode_request_def ascii_valid_utf8 ascii_def trim_visible_all ascii_ws_def
        between_def parse_uint_def is_digit_def)
  then have run: "serve_loop default_server_config (\<lambda>_. Some demo_url) id demo_handler
     [(reliable, 0, 0, Recv 0 (''guppy://h/'' @ CRLF))] [] =
     Some ([(0, demo_session 2 {6, 7})], [(0, demo_first), (0, demo_eof)])"
    using demo_request by (simp add: serve_step_def serve_datagram_def MAX_REQUEST_BYTES_def)
  from run guppy_serve_invariant [OF run] show ?thesis
    unfolding Let_def by blast
qed

end
