(* ===== verification/Guppy_Findings.thy ===== *)
theory Guppy_Findings
  imports Guppy_System
begin

text \<open>
  Behaviours of the Guppy server and client that their documentation does not intend, stated and
  proved on the models: a session that stalls when its first send fails, duplicates counted
  against the body limit, and the overflow at the largest sequence number.
\<close>

text \<open>
  A session whose opening send failed has sent nothing and waits for nothing. \<open>retransmit\<close> only
  repeats what is unacknowledged and \<open>serve\<close> ignores further requests of a live session, so
  only an acknowledgement the client has no reason to send can revive it.
\<close>

definition stalled :: "session \<Rightarrow> bool" where
  "stalled s \<longleftrightarrow> unacked s = {} \<and> next_unsent s = 0 \<and> packets s \<noteq> []"

lemma retransmit_stalled: "stalled s \<Longrightarrow> snd (retransmit ok now s) = [] \<and> stalled (fst (retransmit ok now s))"
  by (simp add: retransmit_def stalled_def Let_def)

lemma tick_session_stalled:
  "stalled s \<Longrightarrow> snd (tick_session cfg ok now (p, s)) = [] \<and> stalled (snd (fst (tick_session cfg ok now (p, s))))"
  using retransmit_stalled [of s ok now] by (simp add: tick_session_def case_prod_beta)

lemma serve_tick_stalled:
  assumes "distinct (map fst ss)" "map_of ss p = Some s" "stalled s"
  shows "wires_to p (snd (serve_tick cfg ok now ss)) = [] \<and>
    (\<forall>s'. map_of (fst (serve_tick cfg ok now ss)) p = Some s' \<longrightarrow> stalled s')"
proof -
  have uniq: "t = s" if "(p, t) \<in> set ss" for t
    using assms(1,2) that by (metis map_of_is_SomeI option.inject)
  have "w \<notin> set (wires_to p (snd (serve_tick cfg ok now ss)))" for w
  proof
    assume "w \<in> set (wires_to p (snd (serve_tick cfg ok now ss)))"
    then obtain e where e: "e \<in> set ss" "(p, w) \<in> set (snd (tick_session cfg ok now e))"
      unfolding wires_to_def serve_tick_def Let_def by auto
    then have "fst e = p"
      using tick_session_wires(1) [of cfg ok now "fst e" "snd e"] by (metis SigmaD1 prod.collapse singletonD subsetD)
    with e uniq [of "snd e"] tick_session_stalled [OF assms(3)] show False
      by (metis empty_iff empty_set prod.collapse)
  qed
  then have "wires_to p (snd (serve_tick cfg ok now ss)) = []"
    by (metis list.set_intros(1) neq_Nil_conv)
  moreover have "stalled s'" if "map_of (fst (serve_tick cfg ok now ss)) p = Some s'" for s'
  proof -
    from map_of_SomeD [OF that] obtain q t where "(q, t) \<in> set ss"
      "fst (tick_session cfg ok now (q, t)) = (p, s')"
      by (auto simp: serve_tick_def Let_def)
    then show ?thesis
      using uniq tick_session_stalled [OF assms(3)] fst_tick_session by (metis fst_conv snd_conv)
  qed
  ultimately show ?thesis by blast
qed

text \<open>
  A stalled session stays stalled: no event other than an acknowledgement from the peer
  makes the server send it anything, until the session is dropped.
\<close>

theorem guppy_stalled_session:
  assumes "distinct (map fst ss)" "map_of ss p = Some s" "stalled s"
    and "serve_step cfg url_parse pct_decode handler ok now hash ev ss = Some (ss', out)"
    and "\<And>d k. ev = Recv p d \<Longrightarrow> parse_client_datagram d \<noteq> Inr (Ack k)"
  shows "wires_to p out = [] \<and> (\<forall>s'. map_of ss' p = Some s' \<longrightarrow> stalled s')"
proof (cases ev)
  case Tick
  with assms(4) serve_tick_stalled [OF assms(1-3), of cfg ok now] show ?thesis
    by (simp add: serve_step_def)
next
  case Recv_failed
  with assms(2-4) show ?thesis by (simp add: serve_step_def)
next
  case (Recv q d)
  show ?thesis
  proof (cases rule: serve_recv_session [OF assms(2) assms(4) [unfolded Recv]])
    case (1 k)
    then show ?thesis using assms(5) Recv by auto
  next
    case 2
    then show ?thesis using assms(3) by simp
  qed
qed

text \<open>A request whose first send fails leaves its peer with a stalled session.\<close>

theorem guppy_stalled_witness:
  "\<exists>ss out. serve_request default_server_config (\<lambda>_. Some demo_url) id demo_handler (\<lambda>_. False) 0 0 0
      ''guppy://h/'' [] = Some (ss, []) \<and> map_of ss 0 = Some (demo_session 0 {}) \<and>
    wires_to 0 out = [] \<and>
    serve_step default_server_config (\<lambda>_. Some demo_url) id demo_handler reliable 700 0 Tick ss =
      Some ([(0, demo_session 0 {}\<lparr>last_send := 700\<rparr>)], out)"
proof -
  let ?ss = "[(0::nat, demo_session 0 {})]"
  have 1: "serve_request default_server_config (\<lambda>_. Some demo_url) id demo_handler (\<lambda>_. False) 0 0 0
      ''guppy://h/'' [] = Some (?ss, [])"
    by (simp add: serve_request_def default_server_config_def guppy_parse_request_def demo_build
        open_window_def send_window.simps put_session_def)
  have 2: "serve_step default_server_config (\<lambda>_. Some demo_url) id demo_handler reliable 700 0 Tick ?ss =
      Some ([(0, demo_session 0 {}\<lparr>last_send := 700\<rparr>)], [])"
    by (simp add: serve_step_def serve_tick_def default_server_config_def expired_def
        tick_session_def retransmit_def)
  have "wires_to 0 [] = []"
    using guppy_stalled_session [OF _ _ _ 2, of 0 "demo_session 0 {}"] by (simp add: stalled_def)
  with 1 2 show ?thesis by auto
qed

text \<open>
  The client counts a repeated chunk again: its body does not change, the byte count that
  is held against \<open>max_body\<close> grows, so a response within the limit can be refused.
\<close>

theorem guppy_duplicate_counts:
  assumes "bt_inv (chunks r)" "bt_get (chunks r) seq = Some v"
    and "reassembly_insert seq data r = Some r'"
  shows "into_response r' = into_response r \<and> buffered r' = buffered r + length data"
proof -
  have "bt_or_insert seq data (chunks r) = chunks r"
    using assms(1,2) by (rule bt_or_insert_present)
  with assms(3) show ?thesis by (auto simp: reassembly_insert_def Let_def into_response_def)
qed

theorem guppy_duplicate_witness:
  "snd (client_loop 4 [] (map (\<lambda>d. (reliable, Datagram d))
      [''9 a'' @ CRLF @ ''AA'', ''10'' @ CRLF @ ''BB'', ''10'' @ CRLF @ ''BB'']) None) =
    Stopped (Failed (Body_too_large 4)) \<and>
   (let r = \<lparr>first_seq = 9, r_mime = ''a'', chunks = [(9, ''AA''), (10, ''BB'')], contiguous_end = 10,
              buffered = 4, eof_seq = None\<rparr>;
        r' = r\<lparr>buffered := 6\<rparr>
    in into_response r' = into_response r \<and> buffered r' = 4 + length ''BB'')"
proof -
  have 1: "parse_packet (''9 a'' @ CRLF @ ''AA'') = Inr (PFirst 9 ''a'' ''AA'')"
    using parse_first [of 9 "''a''" "''AA''"]
    by (simp add: encode_first_def show_nat.simps header_text_def trim_visible_all ascii_def
        ascii_ws_def between_def)
  have 2: "parse_packet (''10'' @ CRLF @ ''BB'') = Inr (PContinuation 10 ''BB'')"
    using parse_continuation [of 10 "''BB''"] by (simp add: encode_continuation_def show_nat.simps)
  have "snd (client_loop 4 [] (map (\<lambda>d. (reliable, Datagram d))
      [''9 a'' @ CRLF @ ''AA'', ''10'' @ CRLF @ ''BB'', ''10'' @ CRLF @ ''BB'']) None) =
    Stopped (Failed (Body_too_large 4))"
    unfolding list.map client_loop.simps on_input_def client_input.case 1 2
    by (simp add: loop_head_def complete_def checked_add_def on_packet_def sending_def on_first_def
        on_continuation_def reassembly_insert_def advance.simps)
  moreover have "reassembly_insert 10 ''BB'' \<lparr>first_seq = 9, r_mime = ''a'',
      chunks = [(9, ''AA''), (10, ''BB'')], contiguous_end = 10, buffered = 4, eof_seq = None\<rparr> =
    Some \<lparr>first_seq = 9, r_mime = ''a'', chunks = [(9, ''AA''), (10, ''BB'')], contiguous_end = 10,
      buffered = 6, eof_seq = None\<rparr>"
    by (simp add: reassembly_insert_def advance.simps checked_add_def)
  from guppy_duplicate_counts [OF _ _ this] have "let r = \<lparr>first_seq = 9, r_mime = ''a'',
      chunks = [(9, ''AA''), (10, ''BB'')], contiguous_end = 10, buffered = 4, eof_seq = None\<rparr>;
      r' = r\<lparr>buffered := 6\<rparr> in into_response r' = into_response r \<and> buffered r' = 4 + length ''BB''"
    by (simp add: bt_inv_def Let_def)
  ultimately show ?thesis by blast
qed

text \<open>
  A first packet with the largest \<open>u32\<close> as its number, which the client accepts although it is
  beyond \<open>MAX_SEQ\<close>, makes the next turn of its loop overflow.
\<close>

theorem guppy_max_seq_panics:
  assumes "parse_packet d = Inr (PFirst u32_max mime data)" "ok (encode_ack u32_max)"
  shows "snd (client_loop mb request ((ok, Datagram d) # evs) None) = Stopped Panicked"
proof -
  have "on_input request ok (Datagram d) None =
    ([encode_ack u32_max], Running (on_first u32_max mime data None))"
    using assms by (simp add: on_input_def on_packet_def sending_def)
  moreover have "loop_head mb (on_first u32_max mime data None) = Stopped Panicked"
    by (simp add: loop_head_def on_first_def complete_def checked_add_def)
  ultimately show ?thesis
    by (cases evs) (auto simp: loop_head_def case_prod_beta)
qed

theorem guppy_max_seq_witness:
  "snd (client_loop 100 [] [(reliable, Datagram (encode_first u32_max ''a'' []))] None) = Stopped Panicked"
proof (rule guppy_max_seq_panics)
  show "parse_packet (encode_first u32_max ''a'' []) = Inr (PFirst u32_max ''a'' [])"
    by (rule parse_first)
      (simp add: header_text_def trim_visible_all ascii_def ascii_ws_def between_def)
qed simp

end
