(* ===== verification/Guppy_Link.thy ===== *)
theory Guppy_Link
  imports Guppy_System
begin

text \<open>
  A Guppy client and the server connected by a network: the client's transaction
  (\<open>crates/guppy-protocol/src/client.rs\<close>) and the server's loop (\<open>server.rs\<close>) step in any
  interleaving, and each receives from the other what was sent to it, lost, repeated, delayed and
  reordered at will. Unlike in \<open>Guppy_System\<close> the acknowledgements are the client's own.
\<close>

section \<open>One more event for the client\<close>

lemma client_loop_snoc:
  "client_loop mb request (evs @ [(ok, inp)]) st =
     (case client_loop mb request evs st of
        (out, Stopped res) \<Rightarrow> (out, Stopped res)
      | (out, Running st') \<Rightarrow>
          (case on_input request ok inp st' of
             (out', Stopped res) \<Rightarrow> (out @ out', Stopped res)
           | (out', Running st'') \<Rightarrow> (out @ out', loop_head mb st'')))"
proof (induction evs arbitrary: st)
  case Nil
  then show ?case by (auto split: client.splits prod.splits)
next
  case (Cons e evs)
  then show ?case by (cases e) (auto split: client.splits prod.splits)
qed

text \<open>What the transaction is after one more event, and what it has sent by then.\<close>

definition next_client :: "nat \<Rightarrow> bytes \<Rightarrow> client_event \<Rightarrow> client \<Rightarrow> bytes list \<times> client" where
  "next_client mb request e c =
     (case c of Stopped res \<Rightarrow> ([], Stopped res)
      | Running st \<Rightarrow>
          (case on_input request (fst e) (snd e) st of
             (out, Stopped res) \<Rightarrow> (out, Stopped res)
           | (out, Running st') \<Rightarrow> (out, loop_head mb st')))"

lemma transact_snoc:
  "transact mb request ok (evs @ [e]) =
     (case transact mb request ok evs of (out, c) \<Rightarrow>
      case next_client mb request e c of (out', c') \<Rightarrow> (out @ out', c'))"
  by (cases e) (auto simp: transact_def next_client_def client_loop_snoc split: client.splits prod.splits)

section \<open>What the client holds\<close>

text \<open>
  \<open>H\<close> is a set of packets that the client has received, by their position in the session. Only a
  client that has returned the response holds all of them.
\<close>

definition received :: "nat \<Rightarrow> bytes list \<Rightarrow> reassembly \<Rightarrow> nat set" where
  "received f ps q = {i. i \<le> length ps \<and> delivered f ps q i}"

definition holding :: "nat \<Rightarrow> string \<Rightarrow> bytes list \<Rightarrow> nat set \<Rightarrow> client \<Rightarrow> bool" where
  "holding f mime ps H c \<longleftrightarrow> H \<subseteq> {..length ps} \<and>
     (case c of
        Running None \<Rightarrow> H = {}
      | Running (Some q) \<Rightarrow> partial_ok f mime ps q \<and> H = received f ps q \<and> H \<noteq> {..length ps}
      | Stopped res \<Rightarrow> res = Done (GSuccess mime (concat ps)) \<or> H \<noteq> {..length ps})"

definition acks_of :: "nat \<Rightarrow> nat set \<Rightarrow> bytes set" where
  "acks_of f H = (\<lambda>i. encode_ack (f + i)) ` H"

lemma holding_stop: "holding f mime ps H (Running st) \<Longrightarrow> holding f mime ps H (Stopped (Failed e))"
  by (auto simp: holding_def split: option.splits)

lemma holding_head:
  assumes "partial_ok f mime ps q" "ps \<noteq> []" "f + length ps < u32_max"
  shows "holding f mime ps (received f ps q) (loop_head mb (Some q))"
proof -
  have "received f ps q = {..length ps} \<Longrightarrow> eof_seq q = Some (contiguous_end q + 1)"
    by (rule all_delivered_complete [OF assms(1,2)]) (auto simp: received_def)
  moreover have "received f ps q \<subseteq> {..length ps}" by (auto simp: received_def)
  ultimately show ?thesis
    using assms by (auto simp: holding_def loop_head_def complete_partial_ok complete_done)
qed

lemma received_end:
  assumes "partial_ok f mime ps q"
  shows "\<exists>i \<in> received f ps q. contiguous_end q = f + i" "eof_seq q = Some e \<Longrightarrow> \<exists>i \<in> received f ps q. e = f + i"
    "0 \<in> received f ps q"
proof -
  have b: "f \<le> contiguous_end q" "contiguous_end q < f + length ps"
    "\<forall>k. f \<le> k \<and> k \<le> contiguous_end q \<longrightarrow> bt_get (chunks q) k \<noteq> None"
    using assms partial_ok_less [OF assms] by (auto simp: partial_ok_def)
  then show "\<exists>i \<in> received f ps q. contiguous_end q = f + i"
    by (intro bexI [of _ "contiguous_end q - f"]) (auto simp: received_def delivered_def)
  show "0 \<in> received f ps q" using b by (auto simp: received_def delivered_def)
  assume "eof_seq q = Some e"
  then show "\<exists>i \<in> received f ps q. e = f + i"
    using assms by (intro bexI [of _ "length ps"]) (auto simp: received_def delivered_def partial_ok_def)
qed

text \<open>
  What a turn of the client comes to: the messages \<open>msgs\<close>, and the next state unless sending them
  fails. Each message is the request or acknowledges a packet the next state holds.
\<close>

definition keeps :: "nat \<Rightarrow> string \<Rightarrow> bytes list \<Rightarrow> bytes \<Rightarrow> nat set \<Rightarrow> bytes list \<Rightarrow> reassembly option \<Rightarrow> bool" where
  "keeps f mime ps request H msgs st \<longleftrightarrow>
     (case st of
        None \<Rightarrow> H = {} \<and> set msgs \<subseteq> {request}
      | Some q \<Rightarrow> partial_ok f mime ps q \<and> H \<subseteq> received f ps q \<and> set msgs \<subseteq> insert request (acks_of f (received f ps q)))"

lemma next_client_sending:
  assumes on: "on_input request ok inp st = sending ok msgs (Running st')" and k: "keeps f mime ps request H msgs st'"
    and fail: "set msgs \<subseteq> insert request (acks_of f H) \<or> length msgs = 1"
    and h: "holding f mime ps H (Running st)" and facts: "ps \<noteq> []" "f + length ps < u32_max"
    and n: "next_client mb request (ok, inp) (Running st) = (out, c')"
  shows "\<exists>H'. H \<subseteq> H' \<and> holding f mime ps H' c' \<and> set out \<subseteq> insert request (acks_of f H')"
proof (cases "list_all ok msgs")
  case False
  then have c: "out = takeWhile ok msgs" "c' = Stopped (Failed Io_error)"
    using on n by (auto simp: next_client_def sending_def)
  have "set out \<subseteq> insert request (acks_of f H)"
    using fail False set_takeWhileD unfolding c(1) by (cases msgs) fastforce+
  then show ?thesis using holding_stop [OF h] c(2) by blast
next
  case True
  then have c: "out = msgs" "c' = loop_head mb st'"
    using on n by (auto simp: next_client_def sending_def list_all_iff split: client.splits)
  show ?thesis
  proof (cases st')
    case None
    then show ?thesis using k c by (intro exI [of _ "{}"]) (auto simp: keeps_def holding_def loop_head_def)
  next
    case (Some q)
    then show ?thesis
      using k c holding_head [OF _ facts, of mime q mb] by (intro exI [of _ "received f ps q"]) (simp add: keeps_def)
  qed
qed

lemma silence_keeps:
  assumes "holding f mime ps H (Running st)"
  shows "keeps f mime ps request H (on_silence request st) st" "set (on_silence request st) \<subseteq> insert request (acks_of f H)"
proof -
  have "set (on_silence request (Some q)) \<subseteq> acks_of f (received f ps q)" if "partial_ok f mime ps q" for q
    using received_end(1) [OF that] received_end(2) [OF that, of "the (eof_seq q)"]
    by (cases "eof_seq q") (auto simp: on_silence_def acks_of_def)
  then show "keeps f mime ps request H (on_silence request st) st" "set (on_silence request st) \<subseteq> insert request (acks_of f H)"
    using assms by (cases st; auto simp: keeps_def holding_def on_silence_def)+
qed

context transfer_source
begin

text \<open>One event: the client keeps what it holds, and acknowledges only what it holds.\<close>

lemma datagram_keeps:
  assumes r: "ok_src r" and h: "holding (first_of r) (mime_of r) (pieces_of r) H (Running st)" and d: "d \<in> set (datagrams r)"
  obtains msgs st' where "on_input request ok (Datagram d) st = sending ok msgs (Running st')" "length msgs \<le> 1"
    "keeps (first_of r) (mime_of r) (pieces_of r) request H msgs st'"
proof -
  let ?f = "first_of r" and ?m = "mime_of r" and ?ps = "pieces_of r"
  obtain i where i: "i \<le> length ?ps" "parse_packet d = Inr (transfer_packet ?f ?m ?ps i)"
    using datagram_packet [OF r d] by blast
  show ?thesis
  proof (cases st)
    case (Some q)
    then have q: "partial_ok ?f ?m ?ps q" "H = received ?f ?ps q" using h by (simp_all add: holding_def)
    obtain q' where q': "on_input request ok (Datagram d) (Some q) = sending ok [encode_ack (?f + i)] (Running (Some q'))"
      "partial_ok ?f ?m ?ps q'" "delivered ?f ?ps q' i" "\<forall>j. delivered ?f ?ps q j \<longrightarrow> delivered ?f ?ps q' j"
      using arrival_running [OF r q(1) i] .
    then have "keeps ?f ?m ?ps request H [encode_ack (?f + i)] (Some q')"
      using q(2) i(1) by (auto simp: keeps_def received_def acks_of_def)
    with q'(1) Some show ?thesis by (intro that [of "[encode_ack (?f + i)]" "Some q'"]) simp_all
  next
    case None
    then have H: "H = {}" using h by (simp add: holding_def)
    show ?thesis
    proof (cases "i = 0")
      case True
      then obtain q where q: "on_input request ok (Datagram d) None = sending ok [encode_ack ?f] (Running (Some q))"
        "partial_ok ?f ?m ?ps q" using arrival_waiting(2) [OF r i(2)] by blast
      have "keeps ?f ?m ?ps request H [encode_ack ?f] (Some q)"
        using q(2) H received_end(3) [OF q(2)] by (force simp: keeps_def acks_of_def)
      with q(1) None show ?thesis by (intro that [of "[encode_ack ?f]" "Some q"]) simp_all
    next
      case False
      from that [of "[]" None] arrival_waiting(1) [OF r i(2) False] None H show ?thesis
        by (simp add: sending_def keeps_def)
    qed
  qed
qed

lemma next_client_holding:
  assumes r: "ok_src r" and h: "holding (first_of r) (mime_of r) (pieces_of r) H c"
    and inp: "honest (datagrams r) inp"
    and n: "next_client mb request (ok, inp) c = (out, c')"
  shows "\<exists>H'. H \<subseteq> H' \<and> holding (first_of r) (mime_of r) (pieces_of r) H' c' \<and>
    set out \<subseteq> insert request (acks_of (first_of r) H')"
proof (cases c)
  case (Stopped res)
  then show ?thesis using h n by (auto simp: next_client_def)
next
  case (Running st)
  note turn = next_client_sending [OF _ _ _ h [unfolded Running] pieces_not_Nil [OF r] seq_bound [OF r] n [unfolded Running]]
  show ?thesis
  proof (cases inp)
    case Recv_error
    then show ?thesis using n Running holding_stop [OF h [unfolded Running]] by (auto simp: next_client_def on_input_def)
  next
    case Silence
    then have "on_input request ok inp st = sending ok (on_silence request st) (Running st)" by (simp add: on_input_def)
    from turn [OF this] silence_keeps [OF h [unfolded Running]] show ?thesis by blast
  next
    case (Datagram d)
    with inp have "d \<in> set (datagrams r)" by (simp add: honest_def)
    from datagram_keeps [OF r h [unfolded Running] this, of request ok]
    obtain msgs st' where m: "on_input request ok inp st = sending ok msgs (Running st')" "length msgs \<le> 1"
      "keeps (first_of r) (mime_of r) (pieces_of r) request H msgs st'" unfolding Datagram by blast
    from turn [OF m(1,3)] m(2) show ?thesis by (cases msgs) auto
  qed
qed

end

section \<open>What the server may forget\<close>

text \<open>
  The packets that have been sent and are no longer waited for; a session keeps them apart from
  those in flight, and only an acknowledgement adds to them.
\<close>

definition acked :: "session \<Rightarrow> nat set" where
  "acked s = set (take (next_unsent s) (seqs s)) - unacked s"

lemma send_window_acked: "session_ok win s \<Longrightarrow> acked (fst (send_window win ok s)) \<subseteq> acked s"
proof -
  obtain s' out where r: "send_window win ok s = (s', out)" by fastforce
  have "acked s' \<subseteq> acked s"
  proof
    fix k assume k: "k \<in> acked s'"
    then obtain j where j: "j < next_unsent s'" "j < length (packets s)" "k = seqs s ! j" "k \<notin> unacked s'"
      using send_window_spec [OF r] by (auto simp: acked_def in_set_conv_nth)
    have "j < next_unsent s"
    proof (rule ccontr)
      assume "\<not> j < next_unsent s"
      then have "packets s ! j = take (length out) (drop (next_unsent s) (packets s)) ! (j - next_unsent s)"
        "j - next_unsent s < length (take (length out) (drop (next_unsent s) (packets s)))"
        using j(1,2) send_window_spec [OF r] by auto
      then have "packets s ! j \<in> set (take (length out) (drop (next_unsent s) (packets s)))"
        by (metis nth_mem)
      then show False using j send_window_spec [OF r] by auto
    qed
    then show "k \<in> acked s"
      using j send_window_spec [OF r] by (auto simp: acked_def in_set_conv_nth)
  qed
  then show ?thesis by (simp add: r)
qed

lemma acknowledge_acked: "session_ok (cfg_window cfg) s \<Longrightarrow> acked (fst (acknowledge cfg ok now q s)) \<subseteq> insert q (acked s)"
proof -
  assume ok: "session_ok (cfg_window cfg) s"
  let ?s = "s\<lparr>unacked := unacked s - {q}\<rparr>"
  have one: "acked ?s \<subseteq> insert q (acked s)" by (auto simp: acked_def)
  have "done_at s = None \<or> unacked s = {}" using ok by (auto simp: session_ok_def)
  then have "acked (fst (open_window cfg ok now ?s)) \<subseteq> acked ?s"
    using send_window_acked [OF ack_one_ok [OF ok, where seq = q], of ok] by (simp add: open_window_def acked_def case_prod_beta)
  then show ?thesis using one by (auto simp: acknowledge_def Let_def acked_def)
qed

lemma tick_session_acked: "acked (snd (fst (tick_session cfg ok now (p, s)))) = acked s"
  by (simp add: tick_session_def retransmit_def acked_def case_prod_beta Let_def)

lemma serve_tick_lookup:
  assumes "distinct (map fst ss)" "map_of ss p = Some s" "map_of (fst (serve_tick cfg ok now ss)) p = Some s'"
  shows "s' = snd (fst (tick_session cfg ok now (p, s)))"
proof -
  from map_of_SomeD [OF assms(3)] obtain q t where "(q, t) \<in> set ss" "fst (tick_session cfg ok now (q, t)) = (p, s')"
    by (auto simp: serve_tick_def Let_def)
  moreover from this have "q = p" using fst_tick_session [of cfg ok now "(q, t)"] by simp
  ultimately show ?thesis using assms(1,2) by (metis map_of_is_SomeI option.inject snd_conv)
qed

text \<open>A turn of the loop that leaves the peer its session lets go of what the peer acknowledged, no more.\<close>

lemma serve_step_acked:
  assumes "server_ok cfg ss" "map_of ss p = Some s" "map_of ss' p = Some s'"
    and "serve_step cfg up pct handler ok now hash ev ss = Some (ss', out)"
  shows "acked s' \<subseteq> acked s \<or>
    (\<exists>d q. ev = Recv p d \<and> parse_client_datagram d = Inr (Ack q) \<and> acked s' \<subseteq> insert q (acked s))"
proof (cases ev)
  case Tick
  then show ?thesis
    using assms serve_tick_lookup [of ss p s cfg ok now s'] tick_session_acked [of cfg ok now p s]
    by (auto simp: serve_step_def server_ok_def)
next
  case Recv_failed
  then show ?thesis using assms by (auto simp: serve_step_def)
next
  case (Recv peer d)
  show ?thesis
  proof (cases rule: serve_recv_session [OF assms(2) assms(4) [unfolded Recv]])
    case (1 k)
    then show ?thesis
      using acknowledge_acked [OF server_ok_lookup [OF assms(1,2)]] assms(3) Recv by auto
  next
    case 2
    then show ?thesis using assms(3) by simp
  qed
qed

section \<open>Client and server connected\<close>

text \<open>
  \<open>guppy_link cfg up pct handler p mb url ok0 ss evs dn\<close>: a client that fetches \<open>url\<close> (at most \<open>mb\<close>
  bytes; \<open>ok0\<close> says whether its first send succeeds) and a server with the sessions \<open>ss\<close> have come
  so far that the client has seen the events \<open>evs\<close>, and \<open>dn\<close> has been sent to the client's address
  \<open>p\<close>. The server takes any event, but from \<open>p\<close> only what the client has sent; the client any event,
  but as datagrams only those of \<open>dn\<close>. Once the client has a session, the run lasts as long as it.
\<close>

inductive guppy_link ::
  "server_config \<Rightarrow> url_parser \<Rightarrow> (string \<Rightarrow> bytes) \<Rightarrow> ('addr request \<Rightarrow> guppy_response) \<Rightarrow> 'addr \<Rightarrow>
   nat \<Rightarrow> string \<Rightarrow> (bytes \<Rightarrow> bool) \<Rightarrow> 'addr sessions \<Rightarrow> client_event list \<Rightarrow> bytes list \<Rightarrow> bool"
  for cfg up pct handler p mb url ok0
where
  link_start: "server_ok cfg ss \<Longrightarrow> map_of ss p = None \<Longrightarrow> guppy_link cfg up pct handler p mb url ok0 ss [] []"
| link_server:
    "guppy_link cfg up pct handler p mb url ok0 ss evs dn \<Longrightarrow>
     serve_step cfg up pct handler ok now hash ev ss = Some (ss', out) \<Longrightarrow>
     \<forall>d. ev = Recv p d \<longrightarrow> d \<in> set (fst (transact mb (encode_request url) ok0 evs)) \<Longrightarrow>
     map_of ss p \<noteq> None \<longrightarrow> map_of ss' p \<noteq> None \<Longrightarrow>
     guppy_link cfg up pct handler p mb url ok0 ss' evs (dn @ wires_to p out)"
| link_client:
    "guppy_link cfg up pct handler p mb url ok0 ss evs dn \<Longrightarrow> honest dn inp \<Longrightarrow>
     guppy_link cfg up pct handler p mb url ok0 ss (evs @ [(ok, inp)]) dn"

lemma serve_step_fresh:
  assumes "map_of ss p = None" "serve_step cfg up pct handler ok now hash ev ss = Some (ss', out)"
    and "\<forall>d. ev = Recv p d \<longrightarrow> d = encode_request url" "wf_client_datagram (Req url)"
    and "guppy_parse_request up pct url p = Some rq" "handler rq = GSuccess mime body"
  shows "map_of ss' p = None \<and> wires_to p out = [] \<or>
    (\<exists>s. build_session mime body (cfg_chunk_size cfg) hash now = Some s \<and>
      map_of ss' p = Some (fst (open_window cfg ok now s)) \<and> wires_to p out = snd (open_window cfg ok now s))"
proof (cases ev)
  case Tick
  have "p \<notin> fst ` set ss" using assms(1) by (simp add: map_of_eq_None_iff)
  moreover have "fst ` set (fst (serve_tick cfg ok now ss)) \<subseteq> fst ` set ss"
    by (auto simp: serve_tick_def Let_def) (metis fst_conv fst_tick_session image_eqI)
  moreover have "p \<in> fst ` set ss" if w: "(p, w) \<in> set (snd (serve_tick cfg ok now ss))" for w
  proof -
    from w obtain q t where "(q, t) \<in> set ss" "(p, w) \<in> set (snd (tick_session cfg ok now (q, t)))"
      by (auto simp: serve_tick_def Let_def)
    then show ?thesis using tick_session_wires(1) [of cfg ok now q t] by force
  qed
  ultimately have "map_of ss' p = None" "wires_to p out = []"
    using assms(2) Tick by (auto simp: serve_step_def map_of_eq_None_iff wires_to_def filter_empty_conv)
  then show ?thesis by simp
next
  case Recv_failed
  then show ?thesis using assms(1,2) by (auto simp: serve_step_def)
next
  case (Recv peer d)
  show ?thesis
  proof (cases "peer = p")
    case True
    then have "parse_client_datagram d = Inr (Req url)"
      using assms(3,4) Recv client_datagram.dec_enc [of "Req url"] by simp
    then show ?thesis
      using assms(1,2,5,6) Recv True
      by (auto simp: serve_step_def serve_datagram_def serve_request_def map_of_put_session case_prod_beta
          split: if_splits option.splits)
  next
    case False
    then show ?thesis
      using assms(1,2) Recv
      by (auto simp: serve_step_def serve_datagram_def serve_request_def map_of_put_session case_prod_beta
          split: if_splits option.splits sum.splits client_datagram.splits guppy_response.splits)
  qed
qed

text \<open>The invariant: whatever the server no longer waits for, the client holds.\<close>

definition link_inv ::
  "server_config \<Rightarrow> string \<Rightarrow> bytes \<Rightarrow> bytes \<Rightarrow> session \<Rightarrow> bytes list \<Rightarrow> bytes list \<times> client \<Rightarrow> bool" where
  "link_inv cfg mime body request s dn uc \<longleftrightarrow>
     (\<exists>hash H. let ps = body_pieces (max (cfg_chunk_size cfg) 1) body; f = first_seq_of (cfg_chunk_size cfg) body hash in
        packets s = session_packets f mime ps \<and> set dn \<subseteq> snd ` set (packets s) \<and>
        holding f mime ps H (snd uc) \<and> set (fst uc) \<subseteq> insert request (acks_of f H) \<and> acked s \<subseteq> (\<lambda>i. f + i) ` H)"

definition quiet :: "bytes \<Rightarrow> bytes list \<times> client \<Rightarrow> bool" where
  "quiet request uc \<longleftrightarrow> set (fst uc) \<subseteq> {request} \<and> snd uc \<in> {Running None, Stopped (Failed Io_error)}"

lemma quiet_next:
  assumes "quiet request (transact mb request ok0 evs)" "honest [] inp"
  shows "quiet request (transact mb request ok0 (evs @ [(ok, inp)]))"
  using assms
  by (cases inp)
    (auto simp: quiet_def transact_snoc next_client_def honest_def on_input_def on_silence_def sending_def loop_head_def
      split: prod.splits if_splits)

lemma link_inv_opened:
  assumes "fits (cfg_chunk_size cfg) body" "build_session mime body (cfg_chunk_size cfg) hash now = Some s"
    and "quiet request uc"
  shows "link_inv cfg mime body request (fst (open_window cfg ok now s)) (snd (open_window cfg ok now s)) uc"
proof -
  let ?ps = "body_pieces (max (cfg_chunk_size cfg) 1) body" and ?f = "first_seq_of (cfg_chunk_size cfg) body hash"
  have s: "packets s = session_packets ?f mime ?ps" "next_unsent s = 0"
    using assms(2) build_session_packets [OF assms(1), of mime hash now] by auto
  have "session_ok (cfg_window cfg) s" using build_session_ok [OF assms(2)] by blast
  then have "acked (fst (open_window cfg ok now s)) \<subseteq> acked s"
    using send_window_acked [of "cfg_window cfg" s ok] by (simp add: open_window_def acked_def case_prod_beta)
  then have "acked (fst (open_window cfg ok now s)) = {}" using s(2) by (simp add: acked_def)
  moreover have "holding ?f mime ?ps {} (snd uc)"
    using assms(3) by (auto simp: quiet_def holding_def)
  ultimately show ?thesis
    using s(1) assms(3) open_window_wires [of cfg ok now s] unfolding link_inv_def Let_def quiet_def
    by (intro exI [of _ hash] exI [of _ "{}"]) auto
qed

lemma session_datagrams:
  "fits chunk body \<Longrightarrow>
   session_wires (mime, body, chunk, hash) =
     map snd (session_packets (first_seq_of chunk body hash) mime (body_pieces (max chunk 1) body))"
  by (simp add: session_wires_def build_session_packets)

lemma link_inv_client:
  assumes "fits (cfg_chunk_size cfg) body" "header_text mime" "mime \<noteq> []"
    and "link_inv cfg mime body request s dn (transact mb request ok0 evs)" "honest dn inp"
  shows "link_inv cfg mime body request s dn (transact mb request ok0 (evs @ [(ok, inp)]))"
proof -
  let ?ps = "body_pieces (max (cfg_chunk_size cfg) 1) body"
  obtain u c where uc: "transact mb request ok0 evs = (u, c)" by fastforce
  obtain out c' where n: "next_client mb request (ok, inp) c = (out, c')" by fastforce
  from assms(4) obtain hash H where inv:
    "packets s = session_packets (first_seq_of (cfg_chunk_size cfg) body hash) mime ?ps" "set dn \<subseteq> snd ` set (packets s)"
    "holding (first_seq_of (cfg_chunk_size cfg) body hash) mime ?ps H c"
    "set u \<subseteq> insert request (acks_of (first_seq_of (cfg_chunk_size cfg) body hash) H)"
    "acked s \<subseteq> (\<lambda>i. first_seq_of (cfg_chunk_size cfg) body hash + i) ` H"
    unfolding link_inv_def Let_def uc by auto
  let ?f = "first_seq_of (cfg_chunk_size cfg) body hash" and ?r = "(mime, body, cfg_chunk_size cfg, hash)"
  have r: "served_ok ?r" using assms(1-3) by (simp add: served_ok_def)
  have "honest (session_wires ?r) inp"
    using assms(5) inv(1,2) by (auto simp: honest_def session_datagrams [OF assms(1)] split: client_input.splits)
  then obtain H' where H': "H \<subseteq> H'" "holding ?f mime ?ps H' c'" "set out \<subseteq> insert request (acks_of ?f H')"
    using session.next_client_holding [OF r _ _ n, of H] inv(3) by (auto simp: served_first_def served_pieces_def)
  have "acks_of ?f H \<subseteq> acks_of ?f H'" "(\<lambda>i. ?f + i) ` H \<subseteq> (\<lambda>i. ?f + i) ` H'"
    using H'(1) by (auto simp: acks_of_def)
  then show ?thesis
    using inv(1,2,4,5) H' unfolding link_inv_def Let_def transact_snoc uc
    by (intro exI [of _ hash] exI [of _ H'] conjI) (simp_all add: n subset_trans, blast)
qed

lemma link_inv_server:
  assumes "fits (cfg_chunk_size cfg) body" "wf_client_datagram (Req url)"
    and "link_inv cfg mime body (encode_request url) s dn uc" "server_ok cfg ss" "map_of ss p = Some s" "map_of ss' p = Some s'"
    and "serve_step cfg up pct handler ok now hash ev ss = Some (ss', out)"
    and "\<forall>d. ev = Recv p d \<longrightarrow> d \<in> set (fst uc)"
  shows "link_inv cfg mime body (encode_request url) s' (dn @ wires_to p out) uc"
proof -
  let ?ps = "body_pieces (max (cfg_chunk_size cfg) 1) body"
  from assms(3) obtain h H where inv:
    "packets s = session_packets (first_seq_of (cfg_chunk_size cfg) body h) mime ?ps" "set dn \<subseteq> snd ` set (packets s)"
    "holding (first_seq_of (cfg_chunk_size cfg) body h) mime ?ps H (snd uc)"
    "set (fst uc) \<subseteq> insert (encode_request url) (acks_of (first_seq_of (cfg_chunk_size cfg) body h) H)"
    "acked s \<subseteq> (\<lambda>i. first_seq_of (cfg_chunk_size cfg) body h + i) ` H"
    unfolding link_inv_def Let_def by auto
  let ?f = "first_seq_of (cfg_chunk_size cfg) body h"
  have "own_packets p s (ss', out)"
    using serve_step_own [OF _ assms(5,7)] assms(4) by (simp add: server_ok_def)
  then have pk: "packets s' = packets s" "set (wires_to p out) \<subseteq> snd ` set (packets s)"
    using assms(6) by (auto simp: own_packets_def)
  have "q \<in> (\<lambda>i. ?f + i) ` H" if d: "ev = Recv p d" "parse_client_datagram d = Inr (Ack q)" for d q
  proof -
    have "d \<noteq> encode_request url"
      using d(2) client_datagram.dec_enc [OF assms(2)] by auto
    then obtain i where i: "i \<in> H" "d = encode_ack (?f + i)"
      using d(1) assms(8) inv(4) by (auto simp: acks_of_def)
    then have "i \<le> length ?ps" using inv(3) by (auto simp: holding_def)
    then have "?f + i \<le> u32_max"
      using first_seq_bounds(2) [OF assms(1), of h] by (simp add: MAX_SEQ_def)
    then show ?thesis
      using client_datagram.dec_enc [of "Ack (?f + i)"] i d(2) by auto
  qed
  then have "acked s' \<subseteq> (\<lambda>i. ?f + i) ` H"
    using serve_step_acked [OF assms(4-7)] inv(5) by blast
  then show ?thesis
    using inv pk unfolding link_inv_def Let_def by (intro exI [of _ h] exI [of _ H]) auto
qed

lemma link_keeps_inv:
  assumes "fits (cfg_chunk_size cfg) body" "header_text mime" "mime \<noteq> []" "wf_client_datagram (Req url)"
    and "guppy_parse_request up pct url p = Some rq" "handler rq = GSuccess mime body"
  shows "guppy_link cfg up pct handler p mb url ok0 ss evs dn \<Longrightarrow>
    server_ok cfg ss \<and>
    (map_of ss p = None \<longrightarrow> dn = [] \<and> quiet (encode_request url) (transact mb (encode_request url) ok0 evs)) \<and>
    (\<forall>s. map_of ss p = Some s \<longrightarrow>
       link_inv cfg mime body (encode_request url) s dn (transact mb (encode_request url) ok0 evs))"
proof (induction rule: guppy_link.induct)
  case (link_start ss)
  then show ?case by (auto simp: quiet_def transact_def loop_head_def)
next
  case (link_server ss evs dn ok now hash ev ss' out)
  have ok: "server_ok cfg ss'" using serve_step_ok [OF _ link_server.hyps(2)] link_server.IH by blast
  show ?case
  proof (cases "map_of ss p")
    case None
    then have q: "dn = []" "quiet (encode_request url) (transact mb (encode_request url) ok0 evs)"
      using link_server.IH by auto
    then have "\<forall>d. ev = Recv p d \<longrightarrow> d = encode_request url"
      using link_server.hyps(3) by (auto simp: quiet_def)
    from serve_step_fresh [OF None link_server.hyps(2) this assms(4-6)]
    show ?thesis using ok q link_inv_opened [OF assms(1) _ q(2)] by auto
  next
    case (Some s)
    then obtain s' where s': "map_of ss' p = Some s'" using link_server.hyps(4) by auto
    have "link_inv cfg mime body (encode_request url) s' (dn @ wires_to p out) (transact mb (encode_request url) ok0 evs)"
      using link_server.IH Some link_server.hyps(2,3)
      by (intro link_inv_server [OF assms(1,4) _ _ Some s']) auto
    then show ?thesis using ok s' by simp
  qed
next
  case (link_client ss evs dn inp ok)
  then show ?case using link_inv_client [OF assms(1-3)] quiet_next by auto
qed

text \<open>A session that is done has had every packet acknowledged.\<close>

lemma link_done:
  assumes "guppy_link cfg up pct handler p mb url ok0 ss evs dn" "map_of ss p = Some s" "done_at s \<noteq> None"
    and "wf_client_datagram (Req url)" "guppy_parse_request up pct url p = Some rq" "handler rq = GSuccess mime body"
    and "fits (cfg_chunk_size cfg) body" "header_text mime" "mime \<noteq> []"
  shows "snd (transact mb (encode_request url) ok0 evs) = Stopped (Done (GSuccess mime body))"
proof -
  let ?ps = "body_pieces (max (cfg_chunk_size cfg) 1) body"
  from link_keeps_inv [OF assms(7-9,4-6,1)] assms(2) obtain h H where inv:
    "packets s = session_packets (first_seq_of (cfg_chunk_size cfg) body h) mime ?ps"
    "holding (first_seq_of (cfg_chunk_size cfg) body h) mime ?ps H (snd (transact mb (encode_request url) ok0 evs))"
    "acked s \<subseteq> (\<lambda>i. first_seq_of (cfg_chunk_size cfg) body h + i) ` H" and ok: "server_ok cfg ss"
    unfolding link_inv_def Let_def by auto
  let ?f = "first_seq_of (cfg_chunk_size cfg) body h"
  have n: "length (packets s) = Suc (length ?ps)" "hd (seqs s) = ?f"
    by (simp_all add: inv(1) session_packets_def Suc_pred)
  have "session_ok (cfg_window cfg) s" using server_ok_lookup [OF ok assms(2)] .
  then have "acked s = {?f..<?f + length (packets s)}"
    using assms(3) n(2) unfolding acked_def session_ok_def by (metis Diff_empty length_map order_refl set_upt take_all)
  then have "(\<lambda>i. ?f + i) ` {..length ?ps} \<subseteq> (\<lambda>i. ?f + i) ` H"
    using inv(3) n(1) by auto
  then have "{..length ?ps} \<subseteq> H" by (simp add: inj_image_subset_iff)
  then have "H = {..length ?ps}" using inv(2) by (auto simp: holding_def)
  then show ?thesis
    using inv(2) by (auto simp: holding_def concat_body_pieces split: client.splits option.splits)
qed

section \<open>Agreement\<close>

text \<open>
  (C2) When the server is done, so is the client. In every run of a client and a server over a network
  that loses, repeats, delays and reorders in both directions, with failing sends on both sides and
  any other traffic at the server, a session is marked done only when the client's transaction has
  returned, with exactly the body and the MIME type of the handler: the server never forgets a
  packet that the client still needs.
\<close>

theorem guppy_done_agreement:
  assumes "guppy_link cfg up pct handler p mb url ok0 ss evs dn" "map_of ss p = Some s" "done_at s \<noteq> None"
    and "wf_client_datagram (Req url)" "guppy_parse_request up pct url p = Some rq" "handler rq = GSuccess mime body"
    and "fits (cfg_chunk_size cfg) body" "header_text mime" "mime \<noteq> []"
  shows "snd (transact mb (encode_request url) ok0 evs) = Stopped (Done (GSuccess mime body))"
  using assms by (rule link_done)

end
