(* ===== verification/Guppy_Recovery.thy ===== *)
theory Guppy_Recovery
  imports Guppy_Link
begin

text \<open>
  Recovery of a Guppy transfer: from whatever state losses have led a connected client and server
  to, the server's retransmissions and the client's acknowledgements finish the transfer once the
  network delivers them.
\<close>

section \<open>Several events for the client\<close>

fun next_clients :: "nat \<Rightarrow> bytes \<Rightarrow> client_event list \<Rightarrow> client \<Rightarrow> bytes list \<times> client" where
  "next_clients mb request [] c = ([], c)"
| "next_clients mb request (e # es) c =
     (case next_client mb request e c of (out, c1) \<Rightarrow>
      case next_clients mb request es c1 of (out', c2) \<Rightarrow> (out @ out', c2))"

lemma transact_append:
  "transact mb request ok (evs @ es) =
     (case transact mb request ok evs of (out, c) \<Rightarrow>
      case next_clients mb request es c of (out', c') \<Rightarrow> (out @ out', c'))"
proof (induction es arbitrary: evs)
  case (Cons e es)
  show ?case
    using Cons.IH [of "evs @ [e]"] by (simp add: transact_snoc split: prod.splits)
qed simp

lemma next_clients_stopped [simp]: "next_clients mb request es (Stopped res) = ([], Stopped res)"
  by (induction es) (simp_all add: next_client_def)

text \<open>The acknowledgement that a datagram of a transfer is answered with.\<close>

definition ack_for :: "bytes \<Rightarrow> bytes" where
  "ack_for d = (case parse_packet d of
     Inr (PFirst k _ _) \<Rightarrow> encode_ack k | Inr (PContinuation k _) \<Rightarrow> encode_ack k | _ \<Rightarrow> [])"

abbreviation incomplete :: "reassembly \<Rightarrow> bool" where
  "incomplete q \<equiv> eof_seq q \<noteq> Some (contiguous_end q + 1)"

definition taken :: "client \<Rightarrow> nat" where
  "taken c = (case c of Running (Some q) \<Rightarrow> buffered q | _ \<Rightarrow> 0)"

abbreviation arrivals :: "bytes list \<Rightarrow> client_event list" where
  "arrivals ds \<equiv> map (\<lambda>d. (reliable, Datagram d)) ds"

context transfer_source
begin

lemma head_cases:
  assumes "ok_src r" "partial_ok (first_of r) (mime_of r) (pieces_of r) q" "buffered q \<le> mb"
  shows "loop_head mb (Some q) = (if incomplete q then Running (Some q) else Stopped (Done (body_of r)))"
  using assms(3) complete_partial_ok [OF assms(2) seq_bound [OF assms(1)]] complete_done [OF assms(2)]
  by (auto simp: loop_head_def)

text \<open>A datagram that arrives is acknowledged and the client goes on, or has everything.\<close>

lemma next_client_arrival:
  assumes r: "ok_src r" and q: "partial_ok (first_of r) (mime_of r) (pieces_of r) q"
    and d: "d \<in> set (datagrams r)" and b: "buffered q + payload d \<le> mb"
  shows "\<exists>q'. next_client mb request (reliable, Datagram d) (Running (Some q)) = ([ack_for d], loop_head mb (Some q')) \<and>
    partial_ok (first_of r) (mime_of r) (pieces_of r) q' \<and> buffered q' \<le> buffered q + payload d"
proof -
  obtain i where i: "i \<le> length (pieces_of r)" "parse_packet d = Inr (transfer_packet (first_of r) (mime_of r) (pieces_of r) i)"
    using datagram_packet [OF r d] by metis
  then have "ack_for d = encode_ack (first_of r + i)" by (simp add: ack_for_def transfer_packet_def)
  then show ?thesis
    using arrival_running [OF r q i, of request reliable] by (force simp: next_client_def sending_def)
qed

lemma next_clients_arrivals:
  assumes r: "ok_src r"
  shows "partial_ok (first_of r) (mime_of r) (pieces_of r) q \<Longrightarrow> set ds \<subseteq> set (datagrams r) \<Longrightarrow>
    buffered q + sum_list (map payload ds) \<le> mb \<Longrightarrow>
    snd (next_clients mb request (arrivals ds) (loop_head mb (Some q))) = Stopped (Done (body_of r)) \<or>
    (\<exists>q'. next_clients mb request (arrivals ds) (loop_head mb (Some q)) = (map ack_for ds, Running (Some q')) \<and>
      buffered q' \<le> buffered q + sum_list (map payload ds))"
proof (induction ds arbitrary: q)
  case Nil
  then show ?case by (simp add: head_cases [OF r])
next
  case (Cons d ds)
  show ?case
  proof (cases "incomplete q")
    case False
    then show ?thesis using Cons.prems by (simp add: head_cases [OF r])
  next
    case True
    then have head: "loop_head mb (Some q) = Running (Some q)" using Cons.prems by (simp add: head_cases [OF r])
    obtain q' where q': "next_client mb request (reliable, Datagram d) (Running (Some q)) = ([ack_for d], loop_head mb (Some q'))"
      "partial_ok (first_of r) (mime_of r) (pieces_of r) q'" "buffered q' \<le> buffered q + payload d"
      using next_client_arrival [OF r Cons.prems(1), of d mb request] Cons.prems(2,3) by auto
    show ?thesis
      using Cons.IH [OF q'(2)] Cons.prems(2,3) q' by (auto simp: head split: prod.splits)
  qed
qed

text \<open>A client without a response so far needs the first packet first.\<close>

lemma next_clients_first:
  assumes r: "ok_src r" and ds: "set (d # ds) \<subseteq> set (datagrams r)" "d = datagrams r ! 0"
    and b: "sum_list (map payload (d # ds)) \<le> mb"
  shows "snd (next_clients mb request (arrivals (d # ds)) (Running None)) = Stopped (Done (body_of r)) \<or>
    (\<exists>q. next_clients mb request (arrivals (d # ds)) (Running None) = (map ack_for (d # ds), Running (Some q)) \<and>
      buffered q \<le> sum_list (map payload (d # ds)))"
proof -
  let ?f = "first_of r" and ?m = "mime_of r" and ?ps = "pieces_of r"
  have d: "parse_packet d = Inr (PFirst ?f ?m (?ps ! 0))"
    using parse_datagram [OF r, of 0] ds(2) by (simp add: transfer_packet_def)
  obtain q where q: "on_first ?f ?m (?ps ! 0) None = Some q" "buffered q = payload d"
    by (simp add: on_first_def payload_def d)
  have "next_client mb request (reliable, Datagram d) (Running None) = ([ack_for d], loop_head mb (Some q))"
    using q(1) by (simp add: next_client_def on_input_def d on_packet_def sending_def ack_for_def)
  then show ?thesis
    using next_clients_arrivals [OF r first_partial_ok [OF pieces_not_Nil [OF r] q(1)], of ds mb request] ds(1) b q(2)
    by (auto split: prod.splits)
qed

end

section \<open>A server that is acknowledged\<close>

text \<open>What the client may still be sent, in bytes of the body.\<close>

definition debt :: "session \<Rightarrow> nat" where
  "debt s = (\<Sum>k \<in> set (seqs s) - acked s. payload (the (map_of (packets s) k)))"

fun acknowledge_all :: "server_config \<Rightarrow> nat \<Rightarrow> nat list \<Rightarrow> session \<Rightarrow> session" where
  "acknowledge_all cfg now [] s = s"
| "acknowledge_all cfg now (q # qs) s = acknowledge_all cfg now qs (fst (acknowledge cfg reliable now q s))"

lemma send_window_keeps:
  assumes "session_ok win s"
  shows "unacked s \<subseteq> unacked (fst (send_window win ok s)) \<and> acked s \<subseteq> acked (fst (send_window win ok s)) \<and>
    created (fst (send_window win ok s)) = created s \<and> done_at (fst (send_window win ok s)) = done_at s"
proof -
  obtain s' out where r: "send_window win ok s = (s', out)" by fastforce
  note spec = send_window_spec [OF r]
  have "k \<notin> set (map fst (take (length out) (drop (next_unsent s) (packets s))))" if "k \<in> set (take (next_unsent s) (seqs s))" for k
  proof -
    have "distinct (seqs s)" using session_okD(6) [OF assms] .
    then have "set (take (next_unsent s) (seqs s)) \<inter> set (drop (next_unsent s) (seqs s)) = {}"
      by (rule set_take_disj_set_drop_if_distinct) simp
    moreover have "set (map fst (take (length out) (drop (next_unsent s) (packets s)))) \<subseteq> set (drop (next_unsent s) (seqs s))"
      by (metis drop_map set_take_subset take_map)
    ultimately show ?thesis using that by blast
  qed
  moreover have "set (take (next_unsent s) (seqs s)) \<subseteq> set (take (next_unsent s') (seqs s'))"
    using spec by (metis le_add1 session.select_convs(1,2) session.surjective session.update_convs(2,3) set_take_subset_set_take)
  ultimately show ?thesis
    using spec by (auto simp: r acked_def)
qed

lemma acked_frame [simp]: "acked (s\<lparr>done_at := x\<rparr>) = acked s" "acked (s\<lparr>last_send := y\<rparr>) = acked s"
  by (simp_all add: acked_def)

lemma remaining_frame [simp]: "remaining (s\<lparr>last_send := y\<rparr>) = remaining s"
  by (simp add: remaining_def)

text \<open>One acknowledgement of a packet in flight.\<close>

lemma acknowledge_in_flight:
  assumes ok: "session_ok (cfg_window cfg) s" and w: "0 < cfg_window cfg" and q: "q \<in> unacked s"
    and t: "t = fst (acknowledge cfg reliable now q s)"
  shows "acked t = insert q (acked s)" "unacked s - {q} \<subseteq> unacked t" "packets t = packets s" "created t = created s"
    "done_at t = None \<Longrightarrow> last_send t = now" "session_ok (cfg_window cfg) t" "remaining t + 1 = remaining s"
proof -
  let ?s = "s\<lparr>unacked := unacked s - {q}\<rparr>"
  have d: "done_at s = None" using ok q by (auto simp: session_ok_def)
  have oks: "session_ok (cfg_window cfg) ?s" using ack_one_ok [OF ok, of q] d by simp
  have one: "acked ?s = insert q (acked s)"
    using q session_okD(3) [OF ok] by (auto simp: acked_def)
  have "acked (fst (send_window (cfg_window cfg) reliable ?s)) = acked ?s"
    using send_window_acked [OF oks] send_window_keeps [OF oks] by blast
  then show "acked t = insert q (acked s)"
    using one by (auto simp: t acknowledge_def Let_def open_window_def case_prod_beta)
  show "unacked s - {q} \<subseteq> unacked t"
    using send_window_keeps [OF oks, of reliable] by (auto simp: t acknowledge_def Let_def open_window_def case_prod_beta)
  show "packets t = packets s" by (simp add: t acknowledge_wires)
  show "created t = created s"
    using send_window_keeps [OF oks, of reliable] by (auto simp: t acknowledge_def Let_def open_window_def case_prod_beta)
  show "done_at t = None \<Longrightarrow> last_send t = now"
    by (auto simp: t acknowledge_def Let_def open_window_def case_prod_beta split: if_splits)
  show "session_ok (cfg_window cfg) t" using acknowledge_ok [OF ok] by (simp add: t)
  show "remaining t + 1 = remaining s" using acknowledge_progress [OF ok w q t] by simp
qed

lemma acknowledge_all_in_flight:
  assumes w: "0 < cfg_window cfg"
  shows "session_ok (cfg_window cfg) s \<Longrightarrow> set qs \<subseteq> unacked s \<Longrightarrow> distinct qs \<Longrightarrow> qs \<noteq> [] \<Longrightarrow>
    t = acknowledge_all cfg now qs s \<Longrightarrow>
    acked t = set qs \<union> acked s \<and> packets t = packets s \<and> created t = created s \<and> session_ok (cfg_window cfg) t \<and>
    remaining t + length qs = remaining s \<and> (done_at t = None \<longrightarrow> last_send t = now) \<and>
    window_open (cfg_window cfg) t \<and> (remaining t = 0 \<longrightarrow> done_at t \<noteq> None)"
proof (induction qs arbitrary: s)
  case (Cons q qs)
  let ?u = "fst (acknowledge cfg reliable now q s)"
  have q: "q \<in> unacked s" using Cons.prems(2) by simp
  note one = acknowledge_in_flight [OF Cons.prems(1) w q refl, of now]
  show ?case
  proof (cases "qs = []")
    case True
    then show ?thesis
      using one acknowledge_progress [OF Cons.prems(1) w q refl, of now] Cons.prems(5) by simp
  next
    case False
    have "set qs \<subseteq> unacked ?u" using one(2) Cons.prems(2,3) by auto
    from Cons.IH [OF one(6) this _ False] Cons.prems(3,5) one show ?thesis by auto
  qed
qed simp

lemma debt_paid:
  assumes "acked t = A \<union> acked s" "packets t = packets s" "A \<subseteq> set (seqs s) - acked s"
  shows "debt t + (\<Sum>k \<in> A. payload (the (map_of (packets s) k))) = debt s"
proof -
  have "set (seqs t) - acked t = (set (seqs s) - acked s) - A" using assms by auto
  then show ?thesis
    using sum.subset_diff [OF assms(3), of "\<lambda>k. payload (the (map_of (packets s) k))"] assms(2)
    by (simp add: debt_def)
qed

text \<open>The server's loop over datagrams of one peer that has a session never panics and keeps it.\<close>

lemma serve_datagram_live:
  assumes "map_of ss p = Some s"
  obtains ss' out s' where "serve_step cfg up pct handler ok now hash (Recv p d) ss = Some (ss', out)" "map_of ss' p = Some s'"
proof -
  have "\<exists>ss' out s'. serve_step cfg up pct handler ok now hash (Recv p d) ss = Some (ss', out) \<and> map_of ss' p = Some s'"
    using assms
    by (cases "parse_client_datagram d")
      (auto simp: serve_step_def serve_datagram_def serve_request_def map_of_put_session case_prod_beta
        split: client_datagram.splits)
  then show ?thesis using that by blast
qed

abbreviation from_peer :: "nat \<Rightarrow> 'addr \<Rightarrow> bytes list \<Rightarrow> 'addr loop_event list" where
  "from_peer now p ws \<equiv> map (\<lambda>w. (reliable, now, 0, Recv p w)) ws"

lemma serve_loop_live:
  assumes "guppy_link cfg up pct handler p mb url ok0 ss evs dn" "map_of ss p \<noteq> None"
    and "set ws \<subseteq> set (fst (transact mb (encode_request url) ok0 evs))"
  shows "\<exists>ss' out dn'. serve_loop cfg up pct handler (from_peer now p ws) ss = Some (ss', out) \<and>
    guppy_link cfg up pct handler p mb url ok0 ss' evs dn' \<and> map_of ss' p \<noteq> None"
  using assms
proof (induction ws arbitrary: ss dn)
  case (Cons w ws)
  obtain s where "map_of ss p = Some s" using Cons.prems(2) by auto
  then obtain ss1 o1 s1 where one: "serve_step cfg up pct handler reliable now 0 (Recv p w) ss = Some (ss1, o1)" "map_of ss1 p = Some s1"
    by (rule serve_datagram_live)
  have "guppy_link cfg up pct handler p mb url ok0 ss1 evs (dn @ wires_to p o1)"
    using link_server [OF Cons.prems(1) one(1)] one(2) Cons.prems(3) by auto
  from Cons.IH [OF this] one Cons.prems(3) show ?case by auto
qed auto

lemma length_show_nat_le: "n < 10 ^ d \<Longrightarrow> 0 < d \<Longrightarrow> length (show_nat n) \<le> d"
proof (induction d arbitrary: n)
  case (Suc d)
  show ?case
  proof (cases "n < 10")
    case False
    then have "n div 10 < 10 ^ d" "0 < d" using Suc.prems(1) by (cases d; simp)+
    then show ?thesis using Suc.IH [of "n div 10"] False by (subst show_nat.simps) simp
  qed (subst show_nat.simps, simp)
qed simp

lemma length_encode_ack: "q \<le> u32_max \<Longrightarrow> length (encode_ack q) \<le> MAX_REQUEST_BYTES"
  using length_show_nat_le [of q 10] by (simp add: encode_ack_def MAX_REQUEST_BYTES_def)

lemma serve_loop_acks:
  "map_of ss p = Some s \<Longrightarrow> \<forall>q \<in> set qs. q \<le> u32_max \<Longrightarrow>
   \<exists>ss' out. serve_loop cfg up pct handler (from_peer now p (map encode_ack qs)) ss = Some (ss', out) \<and>
     map_of ss' p = Some (acknowledge_all cfg now qs s)"
proof (induction qs arbitrary: ss s)
  case (Cons q qs)
  have ack: "parse_client_datagram (encode_ack q) = Inr (Ack q)"
    using client_datagram.dec_enc [of "Ack q"] Cons.prems(2) by simp
  have len: "length (encode_ack q) \<le> MAX_REQUEST_BYTES" using length_encode_ack Cons.prems(2) by simp
  have one: "serve_step cfg up pct handler reliable now 0 (Recv p (encode_ack q)) ss =
      (case acknowledge cfg reliable now q s of (s', out) \<Rightarrow> Some (put_session p s' ss, map (Pair p) out))"
    using ack len Cons.prems(1) by (simp add: serve_step_def serve_datagram_def)
  show ?case
    using Cons.IH [of "put_session p (fst (acknowledge cfg reliable now q s)) ss"] Cons.prems(2)
    by (auto simp: one map_of_put_session case_prod_beta)
qed simp

section \<open>The retransmission of a session\<close>

lemma serve_tick_Cons:
  "serve_tick cfg ok now ((q, t) # ss) =
     (if expired cfg now t then serve_tick cfg ok now ss
      else (fst (tick_session cfg ok now (q, t)) # fst (serve_tick cfg ok now ss),
            snd (tick_session cfg ok now (q, t)) @ snd (serve_tick cfg ok now ss)))"
  by (simp add: serve_tick_def Let_def)

lemma wires_to_append [simp]: "wires_to p (xs @ ys) = wires_to p xs @ wires_to p ys"
  by (simp add: wires_to_def)

lemma wires_to_other:
  "q \<noteq> p \<Longrightarrow> wires_to p (snd (tick_session cfg ok now (q, t))) = []"
  "p \<noteq> q \<Longrightarrow> wires_to p (snd (tick_session cfg ok now (q, t))) = []"
  using tick_session_wires(1) [of cfg ok now q t] by (auto simp: wires_to_def filter_empty_conv)

lemma wires_to_absent: "p \<notin> fst ` set ss \<Longrightarrow> wires_to p (snd (serve_tick cfg ok now ss)) = []"
proof (induction ss)
  case (Cons e ss)
  then show ?case by (cases e) (simp add: serve_tick_Cons wires_to_other)
qed (simp add: serve_tick_def)

lemma serve_tick_session:
  "distinct (map fst ss) \<Longrightarrow> map_of ss p = Some s \<Longrightarrow> \<not> expired cfg now s \<Longrightarrow>
   map_of (fst (serve_tick cfg ok now ss)) p = Some (snd (fst (tick_session cfg ok now (p, s)))) \<and>
   wires_to p (snd (serve_tick cfg ok now ss)) = wires_to p (snd (tick_session cfg ok now (p, s)))"
proof (induction ss)
  case (Cons e ss)
  obtain q t where e: "e = (q, t)" by fastforce
  show ?case
  proof (cases "q = p")
    case True
    then have "t = s" "p \<notin> fst ` set ss" using Cons.prems e by auto
    then show ?thesis
      using True Cons.prems(3) fst_tick_session [of cfg ok now "(p, s)"]
      by (cases "fst (tick_session cfg ok now (p, s))") (simp add: e serve_tick_Cons wires_to_absent)
  next
    case False
    then have "map_of ss p = Some s" using Cons.prems(2) e by simp
    then show ?thesis
      using Cons.IH Cons.prems(1,3) False fst_tick_session [of cfg ok now "(q, t)"]
      by (cases "fst (tick_session cfg ok now (q, t))") (simp add: e serve_tick_Cons wires_to_other)
  qed
qed simp

definition in_flight :: "session \<Rightarrow> bytes list" where
  "in_flight s = map (\<lambda>k. the (map_of (packets s) k)) (sorted_list_of_set (unacked s))"

lemma tick_resends:
  assumes "session_ok win s" "done_at s = None" "last_send s + cfg_retransmit_after cfg \<le> now"
  shows "fst (tick_session cfg reliable now (p, s)) = (p, s\<lparr>last_send := now\<rparr>)"
    "wires_to p (snd (tick_session cfg reliable now (p, s))) = in_flight s"
proof -
  have "map_of (packets s) k \<noteq> None" if "k \<in> unacked s" for k
    using session_okD(3) [OF assms(1)] that by (auto simp: map_of_eq_None_iff dest!: in_set_takeD)
  then have "filter (\<lambda>w. w \<noteq> None) (map (map_of (packets s)) (sorted_list_of_set (unacked s))) =
      map (map_of (packets s)) (sorted_list_of_set (unacked s))"
    using session_okD(5) [OF assms(1)] by (intro filter_True) auto
  then show "fst (tick_session cfg reliable now (p, s)) = (p, s\<lparr>last_send := now\<rparr>)"
    "wires_to p (snd (tick_session cfg reliable now (p, s))) = in_flight s"
    using assms(2,3) by (simp_all add: tick_session_def retransmit_def in_flight_def o_def wires_to_def filter_map)
qed

section \<open>Packets by their numbers\<close>

lemma packet_at:
  assumes "fits chunk body" "header_text mime" "mime \<noteq> []"
    and "packets s = session_packets (first_seq_of chunk body h) mime (body_pieces (max chunk 1) body)"
    and "session_ok win s" "k \<in> set (seqs s)"
  shows "\<exists>i \<le> length (body_pieces (max chunk 1) body). k = first_seq_of chunk body h + i \<and>
    map_of (packets s) k = Some (session_wires (mime, body, chunk, h) ! i) \<and>
    ack_for (the (map_of (packets s) k)) = encode_ack k \<and> k \<le> u32_max \<and>
    payload (the (map_of (packets s) k)) =
      (if i < length (body_pieces (max chunk 1) body) then length (body_pieces (max chunk 1) body ! i) else 0)"
proof -
  let ?f = "first_seq_of chunk body h" and ?ps = "body_pieces (max chunk 1) body" and ?r = "(mime, body, chunk, h)"
  have r: "served_ok ?r" using assms(1-3) by (simp add: served_ok_def)
  have len: "length (packets s) = Suc (length ?ps)"
    by (simp add: assms(4) session_packets_def Suc_pred)
  obtain i where i: "i \<le> length ?ps" "k = seqs s ! i"
    using assms(6) len by (auto simp: in_set_conv_nth less_Suc_eq_le)
  have k: "k = ?f + i"
    using i session_packets_nth [OF i(1), of ?f mime] len by (simp add: assms(4))
  have w: "session_wires ?r ! i = snd (packets s ! i)"
    using i len by (simp add: session_datagrams [OF assms(1)] assms(4))
  have "(k, snd (packets s ! i)) \<in> set (packets s)"
    using i len by (metis length_map less_Suc_eq_le nth_map nth_mem prod.collapse)
  then have m: "map_of (packets s) k = Some (session_wires ?r ! i)"
    using session_okD(6) [OF assms(5)] w by simp
  have "parse_packet (session_wires ?r ! i) = Inr (transfer_packet ?f mime ?ps i)"
    using session.parse_datagram [OF r, of i] i by (simp add: served_first_def served_pieces_def)
  moreover have "k \<le> u32_max" using session.seq_bound [OF r] i k by (simp add: served_first_def served_pieces_def)
  ultimately show ?thesis
    using i(1) k m by (intro exI [of _ i]) (simp add: ack_for_def payload_def transfer_packet_def)
qed

lemma in_flight_facts:
  assumes "fits chunk body" "header_text mime" "mime \<noteq> []"
    and "packets s = session_packets (first_seq_of chunk body h) mime (body_pieces (max chunk 1) body)"
    and "session_ok win s"
  shows "set (in_flight s) \<subseteq> set (session_wires (mime, body, chunk, h))"
    "map ack_for (in_flight s) = map encode_ack (sorted_list_of_set (unacked s))"
    "sum_list (map payload (in_flight s)) = (\<Sum>k \<in> unacked s. payload (the (map_of (packets s) k)))"
    "\<forall>k \<in> unacked s. k \<le> u32_max" "unacked s \<subseteq> set (seqs s) - acked s"
proof -
  note fin = session_okD(5) [OF assms(5)]
  show sub: "unacked s \<subseteq> set (seqs s) - acked s"
    using session_okD(3) [OF assms(5)] set_take_subset [of "next_unsent s" "seqs s"] by (auto simp only: acked_def)
  have len: "length (session_wires (mime, body, chunk, h)) = Suc (length (body_pieces (max chunk 1) body))"
    by (simp add: session_datagrams [OF assms(1)] session_packets_def Suc_pred)
  have at: "the (map_of (packets s) k) \<in> set (session_wires (mime, body, chunk, h)) \<and>
      ack_for (the (map_of (packets s) k)) = encode_ack k \<and> k \<le> u32_max" if k: "k \<in> unacked s" for k
  proof -
    have "k \<in> set (seqs s)" using sub k by blast
    then obtain i where i: "i \<le> length (body_pieces (max chunk 1) body)"
      "map_of (packets s) k = Some (session_wires (mime, body, chunk, h) ! i)"
      "ack_for (the (map_of (packets s) k)) = encode_ack k" "k \<le> u32_max"
      using packet_at [OF assms, of k] by blast
    have "session_wires (mime, body, chunk, h) ! i \<in> set (session_wires (mime, body, chunk, h))"
      using i(1) len by simp
    then show ?thesis using i by simp
  qed
  show "set (in_flight s) \<subseteq> set (session_wires (mime, body, chunk, h))"
    "map ack_for (in_flight s) = map encode_ack (sorted_list_of_set (unacked s))"
    "\<forall>k \<in> unacked s. k \<le> u32_max"
    using at fin by (auto simp: in_flight_def)
  show "sum_list (map payload (in_flight s)) = (\<Sum>k \<in> unacked s. payload (the (map_of (packets s) k)))"
    using fin by (simp add: in_flight_def o_def flip: sum.distinct_set_conv_list)
qed

lemma debt_le_body:
  assumes "fits chunk body" "header_text mime" "mime \<noteq> []"
    and "packets s = session_packets (first_seq_of chunk body h) mime (body_pieces (max chunk 1) body)"
    and "session_ok win s"
  shows "debt s \<le> length body"
proof -
  let ?f = "first_seq_of chunk body h" and ?ps = "body_pieces (max chunk 1) body"
  let ?g = "\<lambda>i. if i < length ?ps then length (?ps ! i) else 0"
  have "debt s \<le> (\<Sum>k \<in> set (seqs s). payload (the (map_of (packets s) k)))"
    unfolding debt_def by (rule sum_mono2) auto
  also have "\<dots> \<le> (\<Sum>k \<in> (\<lambda>i. ?f + i) ` {..length ?ps}. ?g (k - ?f))"
    using packet_at [OF assms] by (intro sum_le_included [where i = id]) force+
  also have "\<dots> = (\<Sum>i \<in> {..length ?ps}. ?g i)"
    by (subst sum.reindex) (auto simp: o_def intro!: sum.cong)
  also have "\<dots> = (\<Sum>i < length ?ps. length (?ps ! i))"
    by (simp add: lessThan_Suc_atMost [symmetric] del: lessThan_Suc_atMost)
  also have "\<dots> = length (concat ?ps)"
    by (simp add: length_concat sum_list_sum_nth atLeast0LessThan)
  finally show ?thesis by (simp add: concat_body_pieces)
qed

section \<open>A round of retransmission\<close>

text \<open>
  A tick of the server at time \<open>now\<close>; the client gets what the tick has sent it, in order; the server
  gets the client's answers, in order. What the server sends in answer to these is lost.
\<close>

definition recovery_round ::
  "server_config \<Rightarrow> url_parser \<Rightarrow> (string \<Rightarrow> bytes) \<Rightarrow> ('addr request \<Rightarrow> guppy_response) \<Rightarrow> 'addr \<Rightarrow>
   nat \<Rightarrow> string \<Rightarrow> (bytes \<Rightarrow> bool) \<Rightarrow> nat \<Rightarrow> 'addr sessions \<times> client_event list \<Rightarrow>
   ('addr sessions \<times> client_event list) option" where
  "recovery_round cfg up pct handler p mb url ok0 now = (\<lambda>(ss, evs).
     let (ss1, out) = serve_tick cfg reliable now ss;
         evs' = evs @ arrivals (wires_to p out);
         before = fst (transact mb (encode_request url) ok0 evs);
         answers = drop (length before) (fst (transact mb (encode_request url) ok0 evs'))
     in map_option (\<lambda>(ss2, _). (ss2, evs')) (serve_loop cfg up pct handler (from_peer now p answers) ss1))"

fun recovery_rounds ::
  "server_config \<Rightarrow> url_parser \<Rightarrow> (string \<Rightarrow> bytes) \<Rightarrow> ('addr request \<Rightarrow> guppy_response) \<Rightarrow> 'addr \<Rightarrow>
   nat \<Rightarrow> string \<Rightarrow> (bytes \<Rightarrow> bool) \<Rightarrow> nat list \<Rightarrow> 'addr sessions \<times> client_event list \<Rightarrow>
   ('addr sessions \<times> client_event list) option" where
  "recovery_rounds cfg up pct handler p mb url ok0 [] st = Some st"
| "recovery_rounds cfg up pct handler p mb url ok0 (now # nows) st =
     Option.bind (recovery_round cfg up pct handler p mb url ok0 now st)
       (recovery_rounds cfg up pct handler p mb url ok0 nows)"

lemma link_arrivals:
  "guppy_link cfg up pct handler p mb url ok0 ss evs dn \<Longrightarrow> set ds \<subseteq> set dn \<Longrightarrow>
   guppy_link cfg up pct handler p mb url ok0 ss (evs @ arrivals ds) dn"
proof (induction ds arbitrary: evs)
  case (Cons d ds)
  have "guppy_link cfg up pct handler p mb url ok0 ss (evs @ [(reliable, Datagram d)]) dn"
    using Cons.prems by (intro link_client) (simp_all add: honest_def)
  from Cons.IH [OF this] Cons.prems(2) show ?case by simp
qed simp

lemma rounds_keep_result:
  "snd (transact mb (encode_request url) ok0 evs) = Stopped res \<Longrightarrow>
   \<exists>ss' evs'. recovery_rounds cfg up pct handler p mb url ok0 nows (ss, evs) = Some (ss', evs') \<and>
     snd (transact mb (encode_request url) ok0 evs') = Stopped res"
proof (induction nows arbitrary: ss evs)
  case (Cons now nows)
  obtain u where u: "transact mb (encode_request url) ok0 evs = (u, Stopped res)"
    using Cons.prems by (metis prod.collapse)
  obtain ss1 out where tick: "serve_tick cfg reliable now ss = (ss1, out)" by fastforce
  let ?evs = "evs @ arrivals (wires_to p out)"
  have e: "transact mb (encode_request url) ok0 ?evs = (u, Stopped res)"
    by (simp add: transact_append u)
  then have "recovery_round cfg up pct handler p mb url ok0 now (ss, evs) = Some (ss1, ?evs)"
    by (simp add: recovery_round_def tick u)
  then show ?case using Cons.IH [of ?evs ss1] e by simp
qed simp

text \<open>An incomplete client has not received everything.\<close>

lemma received_all:
  assumes "partial_ok f mime ps q" "\<not> incomplete q"
  shows "received f ps q = {..length ps}"
proof -
  have e: "eof_seq q = Some (f + length ps)" "contiguous_end q + 1 = f + length ps"
    using assms by (auto simp: partial_ok_def)
  have "delivered f ps q i" if "i \<le> length ps" for i
    using assms(1) e that by (auto simp: delivered_def partial_ok_def)
  then show ?thesis by (auto simp: received_def)
qed

text \<open>While the client has not started, the first packet is in flight, ahead of the others.\<close>

lemma fresh_flight:
  assumes "fits chunk body" "header_text mime" "mime \<noteq> []"
    and "packets s = session_packets (first_seq_of chunk body h) mime (body_pieces (max chunk 1) body)"
    and "session_ok win s" "unacked s \<noteq> {}" "acked s = {}"
  obtains ds where "in_flight s = session_wires (mime, body, chunk, h) ! 0 # ds"
proof -
  let ?f = "first_seq_of chunk body h"
  have all: "unacked s = set (take (next_unsent s) (seqs s))"
    using session_okD(3) [OF assms(5)] assms(7) by (auto simp: acked_def)
  have "seqs s = [hd (seqs s)..<hd (seqs s) + length (packets s)]" "hd (seqs s) = ?f"
    using assms(5) by (simp add: session_ok_def) (simp add: assms(4) session_packets_def)
  then have sq: "seqs s = [?f..<?f + length (packets s)]" by simp
  define m where "m = min (next_unsent s) (length (packets s))"
  have "take (next_unsent s) (seqs s) = [?f..<?f + m]"
    by (subst sq) (simp add: m_def min_def)
  moreover from this have "0 < m" using all assms(6) by (cases m) auto
  ultimately have ks: "sorted_list_of_set (unacked s) = ?f # [Suc ?f..<?f + m]"
    using all by (simp only: sorted_list_of_set.idem_if_sorted_distinct sorted_upt distinct_upt) (simp add: upt_conv_Cons)
  have first: "?f \<in> set (seqs s)" using sq assms(5) by (simp add: session_ok_def)
  obtain i where "?f = ?f + i" "map_of (packets s) ?f = Some (session_wires (mime, body, chunk, h) ! i)"
    using packet_at [OF assms(1-5) first] by blast
  then show ?thesis using that by (simp add: in_flight_def ks)
qed

text \<open>The client's part of a round.\<close>

lemma round_client:
  assumes "fits (cfg_chunk_size cfg) body" "header_text mime" "mime \<noteq> []"
    and "link_inv cfg mime body request s dn (u, Running st)" "session_ok (cfg_window cfg) s" "unacked s \<noteq> {}"
    and "taken (Running st) + debt s \<le> mb"
    and n: "next_clients mb request (arrivals (in_flight s)) (Running st) = (answers, c)"
  shows "c = Stopped (Done (GSuccess mime body)) \<or>
    answers = map encode_ack (sorted_list_of_set (unacked s)) \<and>
      (\<exists>q. c = Running (Some q) \<and> taken c \<le> taken (Running st) + sum_list (map payload (in_flight s)))"
proof -
  let ?ps = "body_pieces (max (cfg_chunk_size cfg) 1) body"
  from assms(4) obtain h H where inv:
    "packets s = session_packets (first_seq_of (cfg_chunk_size cfg) body h) mime ?ps"
    "holding (first_seq_of (cfg_chunk_size cfg) body h) mime ?ps H (Running st)"
    "acked s \<subseteq> (\<lambda>i. first_seq_of (cfg_chunk_size cfg) body h + i) ` H"
    unfolding link_inv_def Let_def by auto
  let ?f = "first_seq_of (cfg_chunk_size cfg) body h" and ?r = "(mime, body, cfg_chunk_size cfg, h)"
  have r: "served_ok ?r" using assms(1-3) by (simp add: served_ok_def)
  have sv: "served_first ?r = ?f" "served_pieces ?r = ?ps" "concat ?ps = body"
    by (simp_all add: served_first_def served_pieces_def concat_body_pieces)
  note facts = in_flight_facts [OF assms(1-3) inv(1) assms(5)]
  have "sum_list (map payload (in_flight s)) \<le> debt s"
    unfolding facts(3) debt_def using facts(5) by (intro sum_mono2) auto
  then have budget: "taken (Running st) + sum_list (map payload (in_flight s)) \<le> mb"
    using assms(7) by simp
  show ?thesis
  proof (cases st)
    case (Some q)
    then have q: "partial_ok ?f mime ?ps q" "received ?f ?ps q \<noteq> {..length ?ps}"
      using inv(2) by (auto simp: holding_def)
    then have "incomplete q" using received_all by blast
    then have "loop_head mb (Some q) = Running (Some q)"
      using session.head_cases [OF r, of q mb] q(1) budget Some by (simp add: sv taken_def)
    then show ?thesis
      using session.next_clients_arrivals [OF r, of q "in_flight s" mb request] q(1) facts(1,2) budget n Some
      by (auto simp: sv taken_def concat_body_pieces)
  next
    case None
    then have "acked s = {}" using inv(2,3) by (simp add: holding_def)
    from fresh_flight [OF assms(1-3) inv(1) assms(5,6) this]
    obtain ds where ds: "in_flight s = session_wires ?r ! 0 # ds" .
    show ?thesis
      using session.next_clients_first [OF r, of "session_wires ?r ! 0" ds mb request] facts(1,2) budget n None
      by (auto simp: sv ds taken_def concat_body_pieces)
  qed
qed

text \<open>The server's part of a round: the tick, and the acknowledgements of all that is in flight.\<close>

lemma round_tick:
  assumes "server_ok cfg ss" "map_of ss p = Some s" "done_at s = None"
    and "last_send s + cfg_retransmit_after cfg \<le> now" "now - created s \<le> cfg_session_timeout cfg"
    and "serve_tick cfg reliable now ss = (ss1, out)"
  shows "map_of ss1 p = Some (s\<lparr>last_send := now\<rparr>)" "wires_to p out = in_flight s"
proof -
  have "\<not> expired cfg now s" using assms(3,5) by (simp add: expired_def)
  then show "map_of ss1 p = Some (s\<lparr>last_send := now\<rparr>)" "wires_to p out = in_flight s"
    using serve_tick_session [of ss p s cfg now reliable] tick_resends [OF server_ok_lookup [OF assms(1,2)] assms(3,4), of p]
      assms(1,2,6) by (simp_all add: server_ok_def)
qed

lemma flight_acknowledged:
  assumes "fits chunk body" "header_text mime" "mime \<noteq> []"
    and "packets s = session_packets (first_seq_of chunk body h) mime (body_pieces (max chunk 1) body)"
    and "session_ok (cfg_window cfg) s" "unacked s \<noteq> {}" "0 < cfg_window cfg"
    and t: "t = acknowledge_all cfg now (sorted_list_of_set (unacked s)) (s\<lparr>last_send := now\<rparr>)"
  shows "created t = created s" "remaining t < remaining s" "debt t + sum_list (map payload (in_flight s)) = debt s"
    "done_at t = None \<Longrightarrow> last_send t = now \<and> unacked t \<noteq> {}"
proof -
  note facts = in_flight_facts [OF assms(1-5)]
  have fin: "finite (unacked s)" using session_okD(5) [OF assms(5)] .
  have "session_ok (cfg_window cfg) (s\<lparr>last_send := now\<rparr>)" using assms(5) by (simp add: session_ok_def)
  moreover have "sorted_list_of_set (unacked s) \<noteq> []" using fin assms(6) by simp
  ultimately have t: "acked t = unacked s \<union> acked s" "packets t = packets s" "created t = created s"
      "session_ok (cfg_window cfg) t" "remaining t + card (unacked s) = remaining s"
      "done_at t = None \<longrightarrow> last_send t = now" "window_open (cfg_window cfg) t" "remaining t = 0 \<longrightarrow> done_at t \<noteq> None"
    using acknowledge_all_in_flight [OF assms(7) _ _ _ _ t] fin by simp_all
  show "created t = created s" by (rule t(3))
  show "remaining t < remaining s"
    using t(5) assms(6) fin by (metis add_less_cancel_left add.right_neutral card_gt_0_iff)
  show "debt t + sum_list (map payload (in_flight s)) = debt s"
    using debt_paid [OF t(1,2) facts(5)] facts(3) by simp
  show "done_at t = None \<Longrightarrow> last_send t = now \<and> unacked t \<noteq> {}"
    using t(6,8) window_open_unacked [OF t(4,7) assms(7)] by auto
qed

text \<open>A round as the two ends run it: the server resends, the client answers, the server takes the answers.\<close>

lemma round_runs:
  assumes link: "guppy_link cfg up pct handler p mb url ok0 ss evs dn" and s: "map_of ss p = Some s"
    and ok: "server_ok cfg ss" and live: "done_at s = None"
    and run: "transact mb (encode_request url) ok0 evs = (u, Running st)"
    and time: "last_send s + cfg_retransmit_after cfg \<le> now" "now - created s \<le> cfg_session_timeout cfg"
  obtains answers c ss1 ss2 out dn2 where
    "next_clients mb (encode_request url) (arrivals (in_flight s)) (Running st) = (answers, c)"
    "transact mb (encode_request url) ok0 (evs @ arrivals (in_flight s)) = (u @ answers, c)"
    "map_of ss1 p = Some (s\<lparr>last_send := now\<rparr>)"
    "serve_loop cfg up pct handler (from_peer now p answers) ss1 = Some (ss2, out)"
    "recovery_round cfg up pct handler p mb url ok0 now (ss, evs) = Some (ss2, evs @ arrivals (in_flight s))"
    "guppy_link cfg up pct handler p mb url ok0 ss2 (evs @ arrivals (in_flight s)) dn2"
proof -
  let ?req = "encode_request url" and ?ds = "in_flight s"
  obtain ss1 out where tick: "serve_tick cfg reliable now ss = (ss1, out)" by fastforce
  note p1 = round_tick(1) [OF ok s live time tick] and ws = round_tick(2) [OF ok s live time tick]
  have "guppy_link cfg up pct handler p mb url ok0 ss1 evs (dn @ ?ds)"
    using link_server [OF link, of reliable now 0 Tick ss1 out] tick p1 ws by (simp add: serve_step_def)
  then have link1: "guppy_link cfg up pct handler p mb url ok0 ss1 (evs @ arrivals ?ds) (dn @ ?ds)"
    by (rule link_arrivals) simp
  obtain answers c where n: "next_clients mb ?req (arrivals ?ds) (Running st) = (answers, c)" by fastforce
  have tr: "transact mb ?req ok0 (evs @ arrivals ?ds) = (u @ answers, c)"
    by (simp add: transact_append run n)
  obtain ss2 out2 dn2 where loop: "serve_loop cfg up pct handler (from_peer now p answers) ss1 = Some (ss2, out2)"
    and link2: "guppy_link cfg up pct handler p mb url ok0 ss2 (evs @ arrivals ?ds) dn2"
    using serve_loop_live [OF link1, of answers now] p1 tr by auto
  have "recovery_round cfg up pct handler p mb url ok0 now (ss, evs) = Some (ss2, evs @ arrivals ?ds)"
    by (simp add: recovery_round_def tick ws run tr loop)
  then show ?thesis using that n tr p1 loop link2 by blast
qed

text \<open>A round brings the client its response, or the session forward.\<close>

lemma round_progress:
  assumes "fits (cfg_chunk_size cfg) body" "header_text mime" "mime \<noteq> []" "wf_client_datagram (Req url)"
    and "guppy_parse_request up pct url p = Some rq" "handler rq = GSuccess mime body"
    and link: "guppy_link cfg up pct handler p mb url ok0 ss evs dn" and s: "map_of ss p = Some s"
    and run: "transact mb (encode_request url) ok0 evs = (u, Running st)"
    and flight: "unacked s \<noteq> {}" "done_at s = None" and w: "0 < cfg_window cfg"
    and time: "last_send s + cfg_retransmit_after cfg \<le> now" "now - created s \<le> cfg_session_timeout cfg"
    and budget: "taken (Running st) + debt s \<le> mb"
  shows "\<exists>ss' evs' dn'. recovery_round cfg up pct handler p mb url ok0 now (ss, evs) = Some (ss', evs') \<and>
    guppy_link cfg up pct handler p mb url ok0 ss' evs' dn' \<and>
    (snd (transact mb (encode_request url) ok0 evs') = Stopped (Done (GSuccess mime body)) \<or>
     (\<exists>s' u' st'. map_of ss' p = Some s' \<and> transact mb (encode_request url) ok0 evs' = (u', Running st') \<and>
        unacked s' \<noteq> {} \<and> done_at s' = None \<and> last_send s' = now \<and> created s' = created s \<and>
        remaining s' < remaining s \<and> taken (Running st') + debt s' \<le> mb))"
proof -
  let ?req = "encode_request url" and ?ds = "in_flight s" and ?ks = "sorted_list_of_set (unacked s)"
  have ok: "server_ok cfg ss" and inv: "link_inv cfg mime body ?req s dn (u, Running st)"
    using link_keeps_inv [OF assms(1-6) link] s run by auto
  have sok: "session_ok (cfg_window cfg) s" using server_ok_lookup [OF ok s] .
  obtain answers c ss1 ss2 out dn2 where n: "next_clients mb ?req (arrivals ?ds) (Running st) = (answers, c)"
    and tr: "transact mb ?req ok0 (evs @ arrivals ?ds) = (u @ answers, c)"
    and p1: "map_of ss1 p = Some (s\<lparr>last_send := now\<rparr>)"
    and loop: "serve_loop cfg up pct handler (from_peer now p answers) ss1 = Some (ss2, out)"
    and round: "recovery_round cfg up pct handler p mb url ok0 now (ss, evs) = Some (ss2, evs @ arrivals ?ds)"
    and link2: "guppy_link cfg up pct handler p mb url ok0 ss2 (evs @ arrivals ?ds) dn2"
    using round_runs [OF link s ok flight(2) run time] .
  from round_client [OF assms(1-3) inv sok flight(1) budget n]
  consider "c = Stopped (Done (GSuccess mime body))"
    | q where "answers = map encode_ack ?ks" "c = Running (Some q)" "taken c \<le> taken (Running st) + sum_list (map payload ?ds)"
    by blast
  then show ?thesis
  proof cases
    case 1
    then show ?thesis using round link2 tr by (metis snd_conv)
  next
    case 2
    obtain h where pk: "packets s = session_packets (first_seq_of (cfg_chunk_size cfg) body h) mime (body_pieces (max (cfg_chunk_size cfg) 1) body)"
      using inv unfolding link_inv_def Let_def by blast
    have small: "\<forall>k \<in> unacked s. k \<le> u32_max" "finite (unacked s)"
      using in_flight_facts(4) [OF assms(1-3) pk sok] session_okD(5) [OF sok] by blast+
    define t where "t = acknowledge_all cfg now ?ks (s\<lparr>last_send := now\<rparr>)"
    have p3: "map_of ss2 p = Some t"
      using serve_loop_acks [OF p1, of ?ks cfg up pct handler now] small loop 2(1) by (auto simp: t_def)
    note A = flight_acknowledged [OF assms(1-3) pk sok flight(1) w t_def]
    have running: "snd (transact mb ?req ok0 (evs @ arrivals ?ds)) = Running (Some q)" using tr 2(2) by simp
    then have nd: "done_at t = None"
      using link_done [OF link2 p3 _ assms(4-6,1-3)] by (cases "done_at t") auto
    have "taken (Running (Some q)) + debt t \<le> mb" using A(3) 2(2,3) budget by simp
    then have "\<exists>s' u' st'. map_of ss2 p = Some s' \<and> transact mb ?req ok0 (evs @ arrivals ?ds) = (u', Running st') \<and>
        unacked s' \<noteq> {} \<and> done_at s' = None \<and> last_send s' = now \<and> created s' = created s \<and>
        remaining s' < remaining s \<and> taken (Running st') + debt s' \<le> mb"
      using p3 tr 2(2) nd A(1,2) A(4) [OF nd] by blast
    then show ?thesis using round link2 by blast
  qed
qed

section \<open>Recovery\<close>

text \<open>Times of ticks at which the session is due for retransmission and not yet timed out.\<close>

fun paced :: "server_config \<Rightarrow> nat \<Rightarrow> nat \<Rightarrow> nat list \<Rightarrow> bool" where
  "paced cfg opened before [] \<longleftrightarrow> True"
| "paced cfg opened before (now # nows) \<longleftrightarrow>
     before + cfg_retransmit_after cfg \<le> now \<and> now - opened \<le> cfg_session_timeout cfg \<and> paced cfg opened now nows"

lemma recovery_rounds_finish:
  assumes base: "fits (cfg_chunk_size cfg) body" "header_text mime" "mime \<noteq> []" "wf_client_datagram (Req url)"
    "guppy_parse_request up pct url p = Some rq" "handler rq = GSuccess mime body"
    and w: "0 < cfg_window cfg"
  shows "guppy_link cfg up pct handler p mb url ok0 ss evs dn \<Longrightarrow> map_of ss p = Some s \<Longrightarrow>
    transact mb (encode_request url) ok0 evs = (u, Running st) \<Longrightarrow> unacked s \<noteq> {} \<Longrightarrow> done_at s = None \<Longrightarrow>
    taken (Running st) + debt s \<le> mb \<Longrightarrow> paced cfg (created s) (last_send s) nows \<Longrightarrow> remaining s \<le> length nows \<Longrightarrow>
    \<exists>ss' evs'. recovery_rounds cfg up pct handler p mb url ok0 nows (ss, evs) = Some (ss', evs') \<and>
      snd (transact mb (encode_request url) ok0 evs') = Stopped (Done (GSuccess mime body))"
proof (induction nows arbitrary: ss evs dn s u st)
  case Nil
  have "session_ok (cfg_window cfg) s"
    by (rule server_ok_lookup [OF conjunct1 [OF link_keeps_inv [OF base Nil.prems(1)]] Nil.prems(2)])
  then show ?case
    using Nil.prems(4,8) session_okD(5) [of "cfg_window cfg" s] by (simp add: remaining_def)
next
  case (Cons now nows)
  have time: "last_send s + cfg_retransmit_after cfg \<le> now" "now - created s \<le> cfg_session_timeout cfg" "paced cfg (created s) now nows"
    using Cons.prems(7) by simp_all
  from round_progress [OF base Cons.prems(1-5) w time(1,2) Cons.prems(6)]
  obtain ss1 evs1 dn1 where r: "recovery_round cfg up pct handler p mb url ok0 now (ss, evs) = Some (ss1, evs1)"
    and l: "guppy_link cfg up pct handler p mb url ok0 ss1 evs1 dn1"
    and c: "snd (transact mb (encode_request url) ok0 evs1) = Stopped (Done (GSuccess mime body)) \<or>
      (\<exists>s' u' st'. map_of ss1 p = Some s' \<and> transact mb (encode_request url) ok0 evs1 = (u', Running st') \<and>
        unacked s' \<noteq> {} \<and> done_at s' = None \<and> last_send s' = now \<and> created s' = created s \<and>
        remaining s' < remaining s \<and> taken (Running st') + debt s' \<le> mb)" by blast
  from c show ?case
  proof
    assume "snd (transact mb (encode_request url) ok0 evs1) = Stopped (Done (GSuccess mime body))"
    from rounds_keep_result [OF this] r show ?thesis by simp
  next
    assume "\<exists>s' u' st'. map_of ss1 p = Some s' \<and> transact mb (encode_request url) ok0 evs1 = (u', Running st') \<and>
        unacked s' \<noteq> {} \<and> done_at s' = None \<and> last_send s' = now \<and> created s' = created s \<and>
        remaining s' < remaining s \<and> taken (Running st') + debt s' \<le> mb"
    then obtain s' u' st' where s': "map_of ss1 p = Some s'" "transact mb (encode_request url) ok0 evs1 = (u', Running st')"
      "unacked s' \<noteq> {}" "done_at s' = None" "last_send s' = now" "created s' = created s"
      "remaining s' < remaining s" "taken (Running st') + debt s' \<le> mb" by blast
    then have "paced cfg (created s') (last_send s') nows" "remaining s' \<le> length nows"
      using time(3) Cons.prems(8) by simp_all
    from Cons.IH [OF l s'(1,2,3,4,8) this] r show ?thesis by simp
  qed
qed

text \<open>
  (C3) A transfer recovers from any losses. Take any state that a client and a server have reached over
  a network that loses, repeats, delays and reorders, with failing sends: the client is still
  waiting, packets of its session are in flight, and its limit leaves room for the body. When
  from then on the server's ticks are delivered to the client and the client's answers to the
  server, at most one tick per packet not yet acknowledged brings the client exactly the
  handler's body, within the session's life time, even if all else the server sends is lost.
\<close>

theorem guppy_recovers:
  assumes "guppy_link cfg up pct handler p mb url ok0 ss evs dn" "map_of ss p = Some s"
    and "snd (transact mb (encode_request url) ok0 evs) = Running st" "unacked s \<noteq> {}" "done_at s = None"
    and "taken (Running st) + length body \<le> mb" "0 < cfg_window cfg"
    and "paced cfg (created s) (last_send s) nows" "remaining s \<le> length nows"
    and "wf_client_datagram (Req url)" "guppy_parse_request up pct url p = Some rq" "handler rq = GSuccess mime body"
    and "fits (cfg_chunk_size cfg) body" "header_text mime" "mime \<noteq> []"
  shows "\<exists>ss' evs'. recovery_rounds cfg up pct handler p mb url ok0 nows (ss, evs) = Some (ss', evs') \<and>
    snd (transact mb (encode_request url) ok0 evs') = Stopped (Done (GSuccess mime body))"
proof -
  note all = link_keeps_inv [OF assms(13-15,10-12,1)]
  obtain u where u: "transact mb (encode_request url) ok0 evs = (u, Running st)"
    using assms(3) by (metis prod.collapse)
  obtain h where "packets s = session_packets (first_seq_of (cfg_chunk_size cfg) body h) mime (body_pieces (max (cfg_chunk_size cfg) 1) body)"
    using all assms(2) unfolding link_inv_def Let_def by blast
  moreover have "session_ok (cfg_window cfg) s" by (rule server_ok_lookup [OF conjunct1 [OF all] assms(2)])
  ultimately have "debt s \<le> length body" using debt_le_body [OF assms(13-15)] by blast
  then have "taken (Running st) + debt s \<le> mb" using assms(6) by simp
  from recovery_rounds_finish [OF assms(13-15,10-12,7) assms(1,2) u assms(4,5) this assms(8,9)] show ?thesis .
qed

section \<open>A transfer that loses everything at first\<close>

text \<open>The datagrams of the opened window are lost; one tick, delivered, is enough.\<close>

lemma demo_wf: "wf_client_datagram (Req ''guppy://h/'')"
  by (simp add: ascii_valid_utf8 ascii_def trim_visible_all ascii_ws_def between_def parse_uint_def is_digit_def)

lemma demo_parse:
  "guppy_parse_request (\<lambda>_. Some demo_url) id ''guppy://h/'' (0::nat) =
    Some \<lparr>r_url = demo_url, r_path = ''/'', r_input = None, r_peer = 0\<rparr>"
  by (simp add: guppy_parse_request_def)

lemma demo_link:
  "guppy_link default_server_config (\<lambda>_. Some demo_url) id demo_handler 0 100 ''guppy://h/'' reliable
     [(0, demo_session 2 {6, 7})] [] [demo_first, demo_eof]"
proof -
  have start: "guppy_link default_server_config (\<lambda>_. Some demo_url) id demo_handler (0::nat) 100 ''guppy://h/'' reliable [] [] []"
    by (rule link_start) (simp_all add: server_ok_def)
  have "parse_client_datagram (encode_request ''guppy://h/'') = Inr (Req ''guppy://h/'')"
    using client_datagram.dec_enc [OF demo_wf] by simp
  then have step: "serve_step default_server_config (\<lambda>_. Some demo_url) id demo_handler reliable 0 0
      (Recv 0 (encode_request ''guppy://h/'')) [] = Some ([(0, demo_session 2 {6, 7})], [(0, demo_first), (0, demo_eof)])"
    using demo_request by (simp add: serve_step_def serve_datagram_def MAX_REQUEST_BYTES_def encode_request_def)
  have "guppy_link default_server_config (\<lambda>_. Some demo_url) id demo_handler 0 100 ''guppy://h/'' reliable
      [(0, demo_session 2 {6, 7})] [] ([] @ wires_to (0::nat) [(0, demo_first), (0, demo_eof)])"
    by (rule link_server [OF start step]) (simp_all add: transact_def)
  then show ?thesis by (simp add: wires_to_def)
qed

lemma guppy_recovers_witness:
  "\<exists>ss' evs'. recovery_rounds default_server_config (\<lambda>_. Some demo_url) id demo_handler 0 100 ''guppy://h/'' reliable
      [500, 1000] ([(0, demo_session 2 {6, 7})], []) = Some (ss', evs') \<and>
    snd (transact 100 (encode_request ''guppy://h/'') reliable evs') = Stopped (Done (GSuccess ''text/plain'' ''hi''))"
  using guppy_recovers [OF demo_link, of "demo_session 2 {6, 7}" None "''hi''" "[500, 1000]", OF _ _ _ _ _ _ _ _ demo_wf demo_parse]
    demo_fits demo_mime
  by (simp add: transact_def loop_head_def taken_def default_server_config_def remaining_def)

text \<open>A transfer to its end: the last acknowledgement marks the session done.\<close>

lemma demo_acks:
  "transact 100 (encode_request ''guppy://h/'') reliable (arrivals [demo_first, demo_eof]) =
     ([encode_request ''guppy://h/'', encode_ack 6, encode_ack 7], Stopped (Done (GSuccess ''text/plain'' ''hi'')))"
proof -
  have "parse_packet demo_first = Inr (PFirst 6 ''text/plain'' ''hi'')" "parse_packet demo_eof = Inr (PContinuation 7 [])"
    using parse_first [of 6 "''text/plain''" "''hi''"] parse_continuation [of 7 "[]"] demo_mime
    by (simp_all add: guppy_eval)
  then show ?thesis
    by (simp add: transact_def loop_head_def on_input_def on_packet_def sending_def on_first_def on_continuation_def
        complete_def checked_add_def into_response_def)
qed

lemma guppy_done_witness:
  "\<exists>ss s dn. guppy_link default_server_config (\<lambda>_. Some demo_url) id demo_handler 0 100 ''guppy://h/'' reliable ss
      (arrivals [demo_first, demo_eof]) dn \<and> map_of ss 0 = Some s \<and> done_at s \<noteq> None \<and>
    snd (transact 100 (encode_request ''guppy://h/'') reliable (arrivals [demo_first, demo_eof])) =
      Stopped (Done (GSuccess ''text/plain'' ''hi''))"
proof -
  let ?s = "demo_session 2 {6, 7}" and ?evs = "arrivals [demo_first, demo_eof]"
  have link: "guppy_link default_server_config (\<lambda>_. Some demo_url) id demo_handler 0 100 ''guppy://h/'' reliable
      [(0, ?s)] ?evs [demo_first, demo_eof]"
    using link_arrivals [OF demo_link, of "[demo_first, demo_eof]"] by simp
  obtain ss out dn where run: "serve_loop default_server_config (\<lambda>_. Some demo_url) id demo_handler
        (from_peer 0 0 (map encode_ack [6, 7])) [(0, ?s)] = Some (ss, out)"
    and fin_link: "guppy_link default_server_config (\<lambda>_. Some demo_url) id demo_handler 0 100 ''guppy://h/'' reliable ss ?evs dn"
    using serve_loop_live [OF link, of "map encode_ack [6, 7]" 0, unfolded demo_acks] by force
  define t where "t = acknowledge_all default_server_config 0 [6, 7] ?s"
  have t: "map_of ss 0 = Some t"
    using serve_loop_acks [of "[(0::nat, ?s)]" 0 ?s "[6, 7]" default_server_config "\<lambda>_. Some demo_url" id demo_handler 0] run
    by (simp add: t_def del: serve_loop.simps acknowledge_all.simps)
  have "done_at t \<noteq> None"
    by (simp add: t_def default_server_config_def acknowledge_def open_window_def send_window.simps insert_Diff_if)
  then show ?thesis
    using guppy_done_agreement [OF fin_link t _ demo_wf demo_parse] fin_link t demo_fits demo_mime
    by (auto simp: default_server_config_def)
qed

end
