(* ===== verification/Rust_Bytes.thy ===== *)
theory Rust_Bytes
  imports Rust_Str
begin

text \<open>
  Big-endian encoding of \<open>u16\<close>, 24-bit and \<open>u32\<close> fields over buffers of bytes
  (\<open>to_be_bytes\<close> and \<open>from_be_bytes\<close> of the Rust integers), with both round trips, and the
  conversion between the two representations of a byte used by the model: \<open>u8\<close> for the
  binary formats and \<open>char\<close> for the text ones.
\<close>

unbundle bit_operations_syntax

named_theorems be_simps \<open>big-endian round trips\<close>

definition be16 :: "u16 \<Rightarrow> u8 list" where
  "be16 w = [ucast (drop_bit 8 w), ucast w]"

definition un_be16 :: "u8 \<Rightarrow> u8 \<Rightarrow> u16" where
  "un_be16 a b = push_bit 8 (ucast a) OR ucast b"

definition be32 :: "u32 \<Rightarrow> u8 list" where
  "be32 w = [ucast (drop_bit 24 w), ucast (drop_bit 16 w), ucast (drop_bit 8 w), ucast w]"

definition un_be32 :: "u8 \<Rightarrow> u8 \<Rightarrow> u8 \<Rightarrow> u8 \<Rightarrow> u32" where
  "un_be32 a b c d =
     push_bit 24 (ucast a) OR push_bit 16 (ucast b) OR push_bit 8 (ucast c) OR ucast d"

lemma length_be [simp]: "length (be16 w) = 2" "length (be32 v) = 4"
  by (simp_all add: be16_def be32_def)

lemma un_be16_be16 [be_simps]: "un_be16 (ucast (drop_bit 8 w)) (ucast w) = w"
  by (rule bit_word_eqI) (auto simp: un_be16_def bit_simps)

lemma be16_un_be16 [be_simps]: "be16 (un_be16 a b) = [a, b]"
proof -
  have "ucast (drop_bit 8 (un_be16 a b)) = a"
    by (rule bit_word_eqI) (auto simp: un_be16_def bit_simps dest: bit_imp_le_length)
  moreover have "ucast (un_be16 a b) = b"
    by (rule bit_word_eqI) (auto simp: un_be16_def bit_simps dest: bit_imp_le_length)
  ultimately show ?thesis by (simp add: be16_def)
qed

lemma un_be32_be32 [be_simps]:
  "un_be32 (ucast (drop_bit 24 w)) (ucast (drop_bit 16 w)) (ucast (drop_bit 8 w)) (ucast w) = w"
proof (rule bit_word_eqI)
  fix n assume "n < LENGTH(32)"
  then consider "n < 8" | "8 \<le> n" "n < 16" | "16 \<le> n" "n < 24" | "24 \<le> n" "n < 32"
    by fastforce
  then show "bit (un_be32 (ucast (drop_bit 24 w)) (ucast (drop_bit 16 w)) (ucast (drop_bit 8 w)) (ucast w)) n
      = bit w n"
    by cases (auto simp: un_be32_def bit_simps)
qed

lemma be32_un_be32 [be_simps]: "be32 (un_be32 a b c d) = [a, b, c, d]"
proof -
  have "ucast (drop_bit 24 (un_be32 a b c d)) = a" "ucast (drop_bit 16 (un_be32 a b c d)) = b"
    "ucast (drop_bit 8 (un_be32 a b c d)) = c" "ucast (un_be32 a b c d) = d"
    by ((rule bit_word_eqI, auto simp: un_be32_def bit_simps dest: bit_imp_le_length)[1])+
  then show ?thesis by (simp add: be32_def)
qed

text \<open>The three-byte length field: the low bytes of a \<open>u32\<close> below \<open>2 ^ 24\<close>.\<close>

lemma be24_roundtrip:
  assumes "w < 0x1000000"
  shows "un_be32 0 (ucast (drop_bit 16 w)) (ucast (drop_bit 8 w)) (ucast w) = w"
proof -
  have "take_bit 24 w = w"
    using assms by (simp add: word_eq_iff_unsigned [where ?'a = nat] unsigned_take_bit_eq take_bit_nat_eq_self word_less_nat_alt)
  then have "drop_bit 24 w = 0"
    using drop_bit_take_bit [of 24 24 w] by simp
  then have "ucast (drop_bit 24 w) = (0 :: u8)" by simp
  then show ?thesis
    by (metis un_be32_be32)
qed

lemma un_be32_0_less: "un_be32 0 b c d < 0x1000000"
proof -
  have "take_bit 24 (un_be32 0 b c d) = un_be32 0 b c d"
    by (rule bit_word_eqI) (auto simp: un_be32_def bit_simps dest: bit_imp_le_length)
  then have "unat (un_be32 0 b c d) < 2 ^ 24"
    by (metis take_bit_nat_less_exp unsigned_take_bit_eq)
  then show ?thesis by (simp add: word_less_nat_alt)
qed

lemma unat_un_be32_0_le: "unat (un_be32 0 b c d) \<le> 0xFFFFFF"
  using un_be32_0_less [of b c d] by (simp add: word_less_nat_alt)

lemma unat_of_nat_le: "n < 2 ^ LENGTH('a::len) \<Longrightarrow> unat (of_nat n :: 'a word) = n"
  by (simp add: unat_of_nat take_bit_nat_eq_self)

section \<open>Bytes as characters\<close>

definition byte_char :: "u8 \<Rightarrow> char" where
  "byte_char w = char_of (unat w)"

definition char_byte :: "char \<Rightarrow> u8" where
  "char_byte c = of_nat (bval c)"

lemma char_byte_char [simp]: "char_byte (byte_char w) = w"
proof -
  have "unat w < 256"
    using unsigned_less [of w, where 'a = nat] by simp
  then show ?thesis by (simp add: char_byte_def byte_char_def)
qed

lemma byte_char_byte [simp]: "byte_char (char_byte c) = c"
  by (simp add: char_byte_def byte_char_def unat_of_nat_le)

lemma byte_char_inject [simp]: "byte_char a = byte_char b \<longleftrightarrow> a = b"
  by (metis char_byte_char)

lemma map_char_byte_char [simp]: "map char_byte (map byte_char ws) = ws"
  by (simp add: comp_def)

end
