(* ===== verification/Fsp_Wire.thy ===== *)
theory Fsp_Wire
  imports Rust_Bytes Codec
begin

text \<open>
  FSP packets (\<open>crates/fsp-protocol/src/wire.rs\<close>): command codes, the 12-byte header, the
  checksum that differs by direction, encoding and decoding, and directory blocks.
\<close>

section \<open>Commands\<close>

datatype command =
    CcVersion | CcErr | CcGetDir | CcGetFile | CcUpLoad | CcInstall | CcDelFile | CcDelDir
  | CcGetPro | CcSetPro | CcMakeDir | CcBye | CcGrabFile | CcGrabDone | CcStat | CcRename | CcChPassw

fun command_code :: "command \<Rightarrow> u8" where
  "command_code CcVersion = 0x10"
| "command_code CcErr = 0x40"
| "command_code CcGetDir = 0x41"
| "command_code CcGetFile = 0x42"
| "command_code CcUpLoad = 0x43"
| "command_code CcInstall = 0x44"
| "command_code CcDelFile = 0x45"
| "command_code CcDelDir = 0x46"
| "command_code CcGetPro = 0x47"
| "command_code CcSetPro = 0x48"
| "command_code CcMakeDir = 0x49"
| "command_code CcBye = 0x4A"
| "command_code CcGrabFile = 0x4B"
| "command_code CcGrabDone = 0x4C"
| "command_code CcStat = 0x4D"
| "command_code CcRename = 0x4E"
| "command_code CcChPassw = 0x4F"

definition command_from_code :: "u8 \<Rightarrow> command option" where
  "command_from_code c =
     (if c = 0x10 then Some CcVersion else if c = 0x40 then Some CcErr
      else if c = 0x41 then Some CcGetDir else if c = 0x42 then Some CcGetFile
      else if c = 0x43 then Some CcUpLoad else if c = 0x44 then Some CcInstall
      else if c = 0x45 then Some CcDelFile else if c = 0x46 then Some CcDelDir
      else if c = 0x47 then Some CcGetPro else if c = 0x48 then Some CcSetPro
      else if c = 0x49 then Some CcMakeDir else if c = 0x4A then Some CcBye
      else if c = 0x4B then Some CcGrabFile else if c = 0x4C then Some CcGrabDone
      else if c = 0x4D then Some CcStat else if c = 0x4E then Some CcRename
      else if c = 0x4F then Some CcChPassw else None)"

lemma command_from_code [simp]: "command_from_code (command_code c) = Some c"
  by (cases c) (simp_all add: command_from_code_def)

lemma command_from_code_SomeD: "command_from_code w = Some c \<Longrightarrow> command_code c = w"
  by (auto simp: command_from_code_def split: if_splits)

section \<open>Packets\<close>

datatype direction = ServerToClient | ClientToServer

record fsp_header =
  fh_command :: u8
  fh_key :: u16
  fh_sequence :: u16
  fh_data_length :: u16
  fh_file_position :: u32

record fsp_packet =
  fp_header :: fsp_header
  fp_data :: "u8 list"
  fp_extra :: "u8 list"

datatype decode_error = TooShort | LengthOverrun nat nat | BadChecksum u8 u8

definition HEADER_LEN :: nat where "HEADER_LEN = 12"
definition MAX_PAYLOAD :: nat where "MAX_PAYLOAD = 1024"

text \<open>The summation loop: position 1, the checksum itself, counts as zero.\<close>

fun sum_bytes :: "nat \<Rightarrow> u8 list \<Rightarrow> u32 \<Rightarrow> u32" where
  "sum_bytes i [] s = s"
| "sum_bytes i (b # bs) s = sum_bytes (Suc i) bs (if i \<noteq> 1 then s + ucast b else s)"

definition checksum :: "u8 list \<Rightarrow> direction \<Rightarrow> u8" where
  "checksum pkt dir =
     (let s = sum_bytes 0 pkt (case dir of ServerToClient \<Rightarrow> 0 | ClientToServer \<Rightarrow> of_nat (length pkt))
      in ucast (s + drop_bit 8 s))"

definition fsp_encode :: "fsp_packet \<Rightarrow> direction \<Rightarrow> u8 list" where
  "fsp_encode p dir =
     (let h = fp_header p;
          out = [fh_command h, 0] @ be16 (fh_key h) @ be16 (fh_sequence h) @ be16 (fh_data_length h)
                @ be32 (fh_file_position h) @ fp_data p @ fp_extra p
      in out[1 := checksum out dir])"

definition fsp_decode :: "u8 list \<Rightarrow> direction \<Rightarrow> decode_error + fsp_packet" where
  "fsp_decode bs dir =
     (if length bs < HEADER_LEN then Inl TooShort
      else let found = bs ! 1; expected = checksum bs dir in
      if found \<noteq> expected then Inl (BadChecksum expected found)
      else
        let h = \<lparr>fh_command = bs ! 0, fh_key = un_be16 (bs ! 2) (bs ! 3),
                 fh_sequence = un_be16 (bs ! 4) (bs ! 5), fh_data_length = un_be16 (bs ! 6) (bs ! 7),
                 fh_file_position = un_be32 (bs ! 8) (bs ! 9) (bs ! 10) (bs ! 11)\<rparr>;
            n = unat (fh_data_length h); available = length bs - HEADER_LEN
        in if available < n then Inl (LengthOverrun n available)
           else Inr \<lparr>fp_header = h, fp_data = take n (drop HEADER_LEN bs),
                     fp_extra = drop (HEADER_LEN + n) bs\<rparr>)"

section \<open>Checksum\<close>

lemma sum_bytes_skip1: "sum_bytes 0 (a # x # bs) s = sum_bytes 0 (a # y # bs) s"
  by simp

lemma checksum_field: "checksum (a # x # bs) dir = checksum (a # y # bs) dir"
  by (cases dir) (simp_all add: checksum_def)

text \<open>
  The sum of a datagram (at most 65535 bytes) stays far below \<open>2 ^ 32\<close>, so neither the wrapping
  additions wrap nor the last, checked addition overflows.
\<close>

fun sum_nat :: "nat \<Rightarrow> u8 list \<Rightarrow> nat" where
  "sum_nat i [] = 0"
| "sum_nat i (b # bs) = (if i \<noteq> 1 then unat b else 0) + sum_nat (Suc i) bs"

lemma unat_u8_le: "unat (b :: u8) \<le> 255"
  using unsigned_less [of b, where 'a = nat] by simp

lemma unat_ucast_u8 [simp]: "unat (ucast (b :: u8) :: u32) = unat b"
  using unat_u8_le [of b] by (simp add: unsigned_ucast_eq take_bit_nat_eq_self)

lemma sum_nat_le: "sum_nat i bs \<le> 255 * length bs"
proof (induction i bs rule: sum_nat.induct)
  case (2 i b bs)
  with unat_u8_le [of b] show ?case by auto
qed simp

lemma unat_add_small: "unat a + unat b < 2 ^ 32 \<Longrightarrow> unat (a + b :: u32) = unat a + unat b"
  by (simp add: unat_word_ariths)

lemma unat_sum_bytes:
  "unat s + 255 * length bs < 2 ^ 32 \<Longrightarrow> unat (sum_bytes i bs s) = unat s + sum_nat i bs"
proof (induction i bs s rule: sum_bytes.induct)
  case (2 i b bs s)
  have s: "unat (s + ucast b) = unat s + unat b"
    using unat_u8_le [of b] "2.prems" by (subst unat_add_small) auto
  show ?case
    using 2 s unat_u8_le [of b] by (cases "i = 1") auto
qed simp

lemma checksum_nat:
  assumes "length bs \<le> 65535"
  shows "unat (checksum bs dir) =
    (let t = (case dir of ServerToClient \<Rightarrow> 0 | ClientToServer \<Rightarrow> length bs) + sum_nat 0 bs
     in (t + t div 256) mod 256)"
proof -
  define s0 :: u32 where "s0 = (case dir of ServerToClient \<Rightarrow> 0 | ClientToServer \<Rightarrow> of_nat (length bs))"
  define s where "s = sum_bytes 0 bs s0"
  have s0: "unat s0 = (case dir of ServerToClient \<Rightarrow> 0 | ClientToServer \<Rightarrow> length bs)"
    using assms by (cases dir) (simp_all add: s0_def unat_of_nat_le)
  then have "unat s0 \<le> 65535"
    using assms by (cases dir) auto
  then have s: "unat s = unat s0 + sum_nat 0 bs"
    unfolding s_def using assms by (intro unat_sum_bytes) simp
  have le: "unat s \<le> 16777215"
    using s \<open>unat s0 \<le> 65535\<close> sum_nat_le [of 0 bs] assms by linarith
  have d: "unat (drop_bit 8 s) = unat s div 256"
    by (simp add: drop_bit_eq_div unat_div)
  have "unat s div 256 \<le> unat s" by simp
  then have "unat (s + drop_bit 8 s) = unat s + unat s div 256"
    using le d by (subst unat_add_small) auto
  then have "unat (ucast (s + drop_bit 8 s) :: u8) = (unat s + unat s div 256) mod 256"
    by (simp add: unsigned_ucast_eq take_bit_eq_mod)
  then show ?thesis
    by (simp add: checksum_def Let_def s_def [symmetric] s0_def [symmetric] s s0)
qed

lemma sum_nat_update:
  "j < length bs \<Longrightarrow> i + j \<noteq> 1 \<Longrightarrow> sum_nat i (bs[j := b]) + unat (bs ! j) = sum_nat i bs + unat b"
proof (induction bs arbitrary: i j)
  case (Cons c bs)
  then show ?case by (cases j) auto
qed simp

text \<open>Changing the sum by less than 255 changes the folded sum.\<close>

lemma mod_shift:
  fixes a e :: nat
  assumes "0 < e" "e < 256"
  shows "(a + e) mod 256 \<noteq> a mod 256"
proof
  assume "(a + e) mod 256 = a mod 256"
  then have "256 dvd a + e - a" by (subst mod_eq_dvd_iff_nat [symmetric]) simp_all
  with assms show False by (auto dest: dvd_imp_le)
qed

lemma fold_sum_less:
  fixes t d :: nat
  assumes "0 < d" "d < 255"
  shows "(t + d + (t + d) div 256) mod 256 \<noteq> (t + t div 256) mod 256"
proof -
  define q r where "q = t div 256" and "r = t mod 256"
  have t: "t = 256 * q + r" "r < 256" by (simp_all add: q_def r_def)
  have shape: "(256 * q' + r' + (256 * q' + r') div 256) mod 256 = (r' + q') mod 256" if "r' < 256" for q' r' :: nat
  proof -
    have "256 * q' + r' + (256 * q' + r') div 256 = r' + q' + q' * 256"
      using that by simp
    then show ?thesis by (simp only: mod_mult_self1)
  qed
  have base: "(t + t div 256) mod 256 = (r + q) mod 256"
    using shape [OF t(2), of q] unfolding t(1) [symmetric] .
  show ?thesis
  proof (cases "r + d < 256")
    case True
    have "(t + d + (t + d) div 256) mod 256 = (r + d + q) mod 256"
      using shape [OF True, of q] t(1) by (simp add: add.assoc)
    with mod_shift [of d "r + q"] assms base show ?thesis
      by (simp add: ac_simps)
  next
    case False
    then have "t + d = 256 * (q + 1) + (r + d - 256)" "r + d - 256 < 256"
      using t assms by auto
    then have "(t + d + (t + d) div 256) mod 256 = (r + d - 256 + (q + 1)) mod 256"
      using shape [of "r + d - 256" "q + 1"] by metis
    also have "\<dots> = (r + d - 256 + (q + 1) + 256) mod 256" by (simp only: mod_add_self2)
    also have "r + d - 256 + (q + 1) + 256 = r + q + (d + 1)" using False by linarith
    finally show ?thesis
      using mod_shift [of "d + 1" "r + q"] assms base by simp
  qed
qed

lemma fold_sum_neq:
  fixes t u x y :: nat
  assumes "t + x = u + y" "x \<noteq> y" "x \<le> 255" "y \<le> 255" "{x, y} \<noteq> {0, 255}"
  shows "(t + t div 256) mod 256 \<noteq> (u + u div 256) mod 256"
proof (cases "x < y")
  case True
  have "t = u + (y - x)" "0 < y - x" "y - x < 255"
    using assms True by auto
  then show ?thesis using fold_sum_less [of "y - x" u] by simp
next
  case False
  have "u = t + (x - y)" "0 < x - y" "x - y < 255"
    using assms False by auto
  then show ?thesis using fold_sum_less [of "x - y" t] by metis
qed

lemma checksum_detects:
  assumes "length bs \<le> 65535" "j < length bs" "j \<noteq> 1" "b \<noteq> bs ! j" "{b, bs ! j} \<noteq> {0, 255}"
  shows "checksum (bs[j := b]) dir \<noteq> checksum bs dir"
proof -
  define k where "k = (case dir of ServerToClient \<Rightarrow> 0 | ClientToServer \<Rightarrow> length bs)"
  have eq: "(k + sum_nat 0 (bs[j := b])) + unat (bs ! j) = (k + sum_nat 0 bs) + unat b"
    using sum_nat_update [of j bs 0 b] assms by simp
  have "{unat (bs ! j), unat b} \<noteq> {0, 255}"
  proof
    assume "{unat (bs ! j), unat b} = {0, 255}"
    then have "unat (bs ! j) = 0 \<and> unat b = 255 \<or> unat (bs ! j) = 255 \<and> unat b = 0"
      by (auto simp: doubleton_eq_iff)
    then have "bs ! j = 0 \<and> b = 255 \<or> bs ! j = 255 \<and> b = 0"
      by (auto simp: word_eq_iff_unsigned [where ?'a = nat])
    with assms(5) show False by auto
  qed
  then have "(let t = k + sum_nat 0 (bs[j := b]) in (t + t div 256) mod 256)
      \<noteq> (let t = k + sum_nat 0 bs in (t + t div 256) mod 256)"
    unfolding Let_def using eq assms(4) unat_u8_le
    by (intro fold_sum_neq [OF eq]) (auto simp: word_eq_iff_unsigned [where ?'a = nat])
  then show ?thesis
    using checksum_nat [of bs dir] checksum_nat [of "bs[j := b]" dir] assms(1)
    by (auto simp: k_def split: direction.splits)
qed

section \<open>Encoding and decoding\<close>

lemma drop_header: "drop (HEADER_LEN + n) xs = drop n (drop HEADER_LEN xs)"
  by (simp add: add.commute)

definition packet_ok :: "fsp_packet \<Rightarrow> bool" where
  "packet_ok p \<longleftrightarrow> unat (fh_data_length (fp_header p)) = length (fp_data p)"

definition packet_bytes :: "fsp_packet \<Rightarrow> u8 \<Rightarrow> u8 list" where
  "packet_bytes p x = (let h = fp_header p in
     fh_command h # x # be16 (fh_key h) @ be16 (fh_sequence h) @ be16 (fh_data_length h)
     @ be32 (fh_file_position h) @ fp_data p @ fp_extra p)"

lemma fsp_encode_bytes: "fsp_encode p dir = packet_bytes p (checksum (packet_bytes p 0) dir)"
  by (simp add: fsp_encode_def packet_bytes_def Let_def)

lemma checksum_packet_bytes: "checksum (packet_bytes p x) dir = checksum (packet_bytes p y) dir"
  unfolding packet_bytes_def Let_def by (rule checksum_field)

lemma fsp_decode_encode:
  assumes "packet_ok p"
  shows "fsp_decode (fsp_encode p dir) dir = Inr p"
proof -
  define x where "x = checksum (packet_bytes p 0) dir"
  have x: "checksum (packet_bytes p x) dir = x"
    unfolding x_def by (rule checksum_packet_bytes)
  have b: "packet_bytes p x = [fh_command (fp_header p), x,
      ucast (drop_bit 8 (fh_key (fp_header p))), ucast (fh_key (fp_header p)),
      ucast (drop_bit 8 (fh_sequence (fp_header p))), ucast (fh_sequence (fp_header p)),
      ucast (drop_bit 8 (fh_data_length (fp_header p))), ucast (fh_data_length (fp_header p)),
      ucast (drop_bit 24 (fh_file_position (fp_header p))), ucast (drop_bit 16 (fh_file_position (fp_header p))),
      ucast (drop_bit 8 (fh_file_position (fp_header p))), ucast (fh_file_position (fp_header p))]
      @ fp_data p @ fp_extra p"
    by (simp add: packet_bytes_def be16_def be32_def Let_def)
  show ?thesis
    unfolding fsp_encode_bytes x_def [symmetric]
    using assms by (simp add: fsp_decode_def Let_def x drop_header del: drop_drop) (simp add: b be_simps HEADER_LEN_def packet_ok_def del: drop_drop)
qed

lemma twelve_bytes:
  assumes "HEADER_LEN \<le> length bs"
  obtains b0 b1 b2 b3 b4 b5 b6 b7 b8 b9 b10 b11 rest where
    "bs = [b0, b1, b2, b3, b4, b5, b6, b7, b8, b9, b10, b11] @ rest"
  using assms unfolding HEADER_LEN_def numeral_eq_Suc pred_numeral_simps Suc_le_length_iff
  by (simp add: numeral_eq_Suc Suc_le_length_iff) blast

lemma fsp_encode_decode:
  assumes "fsp_decode bs dir = Inr p"
  shows "packet_ok p \<and> fsp_encode p dir = bs"
proof -
  have len: "HEADER_LEN \<le> length bs" and c: "bs ! 1 = checksum bs dir"
    using assms by (auto simp: fsp_decode_def Let_def split: if_splits)
  then obtain b0 b1 b2 b3 b4 b5 b6 b7 b8 b9 b10 b11 rest where
    bs: "bs = [b0, b1, b2, b3, b4, b5, b6, b7, b8, b9, b10, b11] @ rest"
    by (elim twelve_bytes)
  let ?n = "unat (un_be16 b6 b7)"
  have n: "?n \<le> length rest" and p: "p = \<lparr>fp_header = \<lparr>fh_command = b0, fh_key = un_be16 b2 b3,
      fh_sequence = un_be16 b4 b5, fh_data_length = un_be16 b6 b7, fh_file_position = un_be32 b8 b9 b10 b11\<rparr>,
      fp_data = take ?n rest, fp_extra = drop ?n rest\<rparr>"
    using assms len c unfolding fsp_decode_def Let_def drop_header
    by (auto simp: bs HEADER_LEN_def simp del: drop_drop split: if_splits)
  have b: "packet_bytes p x = [b0, x, b2, b3, b4, b5, b6, b7, b8, b9, b10, b11] @ rest" for x
    by (simp add: p packet_bytes_def be_simps)
  have "checksum (packet_bytes p 0) dir = b1"
    using c checksum_packet_bytes [of p 0 dir b1] by (simp add: b bs)
  then show ?thesis
    using n by (simp add: fsp_encode_bytes b bs) (simp add: p packet_ok_def)
qed

interpretation fsp: wire_codec packet_ok "\<lambda>p. fsp_encode p dir" "\<lambda>bs. fsp_decode bs dir" for dir
  by unfold_locales (rule fsp_decode_encode)

text \<open>
  (C27) The wire format is exact in each direction: a datagram decodes to a packet if and only if it
  is that packet's encoding for the same direction and the declared length is the payload's.
\<close>

theorem fsp_wire_exact:
  "fsp_decode bs dir = Inr p \<longleftrightarrow> packet_ok p \<and> fsp_encode p dir = bs"
  using fsp_encode_decode fsp_decode_encode by blast

text \<open>
  The checksum notices every change of a single byte of a datagram, in any position and in
  either direction, except the two changes that its end-around carry cannot see: 0x00 into 0xFF
  and back.
\<close>

theorem fsp_single_byte_detected:
  assumes "fsp_decode bs dir = Inr p" "length bs \<le> 65535"
    and "j < length bs" "b \<noteq> bs ! j" "j = 1 \<or> {b, bs ! j} \<noteq> {0, 255}"
  shows "fsp_decode (bs[j := b]) dir = Inl (BadChecksum (checksum (bs[j := b]) dir) (bs[j := b] ! 1))"
proof -
  have len: "HEADER_LEN \<le> length bs" and c: "bs ! 1 = checksum bs dir"
    using assms(1) by (auto simp: fsp_decode_def Let_def split: if_splits)
  have "bs[j := b] ! 1 \<noteq> checksum (bs[j := b]) dir"
  proof (cases "j = 1")
    case True
    obtain b0 b1 rest where "bs = b0 # b1 # rest"
      using len by (cases bs; cases "tl bs") (auto simp: HEADER_LEN_def)
    with True c assms(4) checksum_field [of b0 b rest dir b1] show ?thesis by simp
  next
    case False
    with assms checksum_detects [of bs j b dir] c show ?thesis by simp
  qed
  with len show ?thesis by (simp add: fsp_decode_def Let_def)
qed

end
