(* ===== verification/Fsp_Directory.thy ===== *)
theory Fsp_Directory
  imports Fsp_Wire
begin

text \<open>
  FSP directory blocks (\<open>parse_directory\<close> in \<open>crates/fsp-protocol/src/wire.rs\<close>), and the
  specification of the block that a server writes for a list of entries: the parser returns
  exactly those entries.
\<close>

definition RDTYPE_END :: u8 where "RDTYPE_END = 0x00"
definition RDTYPE_FILE :: u8 where "RDTYPE_FILE = 0x01"
definition RDTYPE_DIR :: u8 where "RDTYPE_DIR = 0x02"
definition RDTYPE_SKIP :: u8 where "RDTYPE_SKIP = 0x2A"

lemmas rdtype_defs = RDTYPE_END_def RDTYPE_FILE_def RDTYPE_DIR_def RDTYPE_SKIP_def

datatype entry_kind = EntryFile | EntryDirectory

record dir_entry =
  de_time :: u32
  de_size :: u32
  de_kind :: entry_kind
  de_name :: string

text \<open>\<open>position\<close> of the first NUL.\<close>

fun position_nul :: "u8 list \<Rightarrow> nat option" where
  "position_nul [] = None"
| "position_nul (b # bs) = (if b = 0 then Some 0 else map_option Suc (position_nul bs))"

definition div_ceil :: "nat \<Rightarrow> nat \<Rightarrow> nat" where
  "div_ceil a b = (a + b - 1) div b"

lemma div_ceil_4: "n \<le> div_ceil n 4 * 4"
  by (simp add: div_ceil_def)

text \<open>The walk from offset \<open>at\<close>, with the entries found so far.\<close>

function walk :: "u8 list \<Rightarrow> nat \<Rightarrow> dir_entry list \<Rightarrow> dir_entry list" where
  "walk block at entries =
     (if at + 9 \<le> length block then
        let time = un_be32 (block ! at) (block ! (at + 1)) (block ! (at + 2)) (block ! (at + 3));
            sz = un_be32 (block ! (at + 4)) (block ! (at + 5)) (block ! (at + 6)) (block ! (at + 7));
            kind_byte = block ! (at + 8) in
        if kind_byte = RDTYPE_END then entries
        else if kind_byte = RDTYPE_SKIP then entries
        else (case position_nul (drop (at + 9) block) of
                None \<Rightarrow> entries
              | Some nul \<Rightarrow>
                  let name = from_utf8_lossy (map byte_char (take nul (drop (at + 9) block)));
                      entries' =
                        (case (if kind_byte = RDTYPE_FILE then Some EntryFile
                               else if kind_byte = RDTYPE_DIR then Some EntryDirectory else None) of
                           Some k \<Rightarrow> entries @ [\<lparr>de_time = time, de_size = sz, de_kind = k, de_name = name\<rparr>]
                         | None \<Rightarrow> entries)
                  in walk block (div_ceil (at + 9 + nul + 1) 4 * 4) entries')
      else entries)"
  by pat_completeness auto

termination
proof (relation "measure (\<lambda>(block, at, _). length block - at)", goal_cases)
  case (2 block at entries time sz kind_byte nul name entries')
  then show ?case
    using div_ceil_4 [of "at + 9 + nul + 1"] by simp
qed simp

declare walk.simps [simp del]

definition parse_directory :: "u8 list \<Rightarrow> dir_entry list" where
  "parse_directory block = walk block 0 []"

section \<open>The block a server writes\<close>

fun kind_byte :: "entry_kind \<Rightarrow> u8" where
  "kind_byte EntryFile = RDTYPE_FILE"
| "kind_byte EntryDirectory = RDTYPE_DIR"

definition entry_bytes :: "dir_entry \<Rightarrow> u8 list" where
  "entry_bytes e =
     (let raw = be32 (de_time e) @ be32 (de_size e) @ [kind_byte (de_kind e)]
                @ map char_byte (de_name e) @ [0]
      in raw @ replicate (div_ceil (length raw) 4 * 4 - length raw) 0)"

definition entry_ok :: "dir_entry \<Rightarrow> bool" where
  "entry_ok e \<longleftrightarrow> valid_utf8 (de_name e) \<and> CHR 0x00 \<notin> set (de_name e)"

text \<open>What may follow the entries: nothing readable, an end or a padding record.\<close>

definition ends_block :: "u8 list \<Rightarrow> bool" where
  "ends_block t \<longleftrightarrow> length t < 9 \<or> t ! 8 = RDTYPE_END \<or> t ! 8 = RDTYPE_SKIP"

lemma position_nul_append: "0 \<notin> set xs \<Longrightarrow> position_nul (xs @ 0 # ys) = Some (length xs)"
  by (induction xs) auto

lemma char_byte_0: "char_byte c = 0 \<longleftrightarrow> c = CHR 0x00"
proof
  assume "char_byte c = 0"
  then have "byte_char (char_byte c) = byte_char 0" by (rule arg_cong)
  then have "c = byte_char 0" unfolding byte_char_byte .
  then show "c = CHR 0x00" by (simp add: byte_char_def char_of_def)
qed (simp add: char_byte_def)

lemma nul_free_name: "entry_ok e \<Longrightarrow> 0 \<notin> set (map char_byte (de_name e))"
  by (auto simp: entry_ok_def char_byte_0 dest: sym)

lemma map_byte_char_byte: "map (byte_char \<circ> char_byte) s = s"
  by (simp add: comp_def)

lemma div_ceil_4_dvd: "4 dvd div_ceil n 4 * 4" by simp

lemma div_ceil_4_add: "4 dvd m \<Longrightarrow> div_ceil (m + n) 4 * 4 = m + div_ceil n 4 * 4"
proof (elim dvdE)
  fix k assume "m = 4 * k"
  then have "m + n + 4 - 1 = n + 3 + k * 4" "n + 4 - 1 = n + 3" by simp_all
  then show ?thesis
    using \<open>m = 4 * k\<close> unfolding div_ceil_def by (simp only: div_mult_self1) simp
qed

lemma length_entry_bytes:
  "length (entry_bytes e) = div_ceil (10 + length (de_name e)) 4 * 4"
  using div_ceil_4 [of "10 + length (de_name e)"] by (simp add: entry_bytes_def Let_def)

lemma entry_bytes_shape:
  obtains pad where "entry_bytes e = [ucast (drop_bit 24 (de_time e)), ucast (drop_bit 16 (de_time e)),
      ucast (drop_bit 8 (de_time e)), ucast (de_time e), ucast (drop_bit 24 (de_size e)),
      ucast (drop_bit 16 (de_size e)), ucast (drop_bit 8 (de_size e)), ucast (de_size e),
      kind_byte (de_kind e)] @ map char_byte (de_name e) @ 0 # pad"
  by (simp add: entry_bytes_def Let_def be32_def)

lemma walk_entry:
  assumes e: "entry_ok e" and pre: "4 dvd length pre"
  shows "walk (pre @ entry_bytes e @ rest) (length pre) acc
       = walk (pre @ entry_bytes e @ rest) (length (pre @ entry_bytes e)) (acc @ [e])"
proof -
  obtain pad where sh: "entry_bytes e = [ucast (drop_bit 24 (de_time e)), ucast (drop_bit 16 (de_time e)),
      ucast (drop_bit 8 (de_time e)), ucast (de_time e), ucast (drop_bit 24 (de_size e)),
      ucast (drop_bit 16 (de_size e)), ucast (drop_bit 8 (de_size e)), ucast (de_size e),
      kind_byte (de_kind e)] @ map char_byte (de_name e) @ 0 # pad"
    by (rule entry_bytes_shape)
  let ?b = "pre @ entry_bytes e @ rest"
  have nul: "position_nul (drop (length pre + 9) ?b) = Some (length (de_name e))"
    using position_nul_append [OF nul_free_name [OF e], of "pad @ rest"] by (simp add: sh)
  have name: "from_utf8_lossy (map byte_char (take (length (de_name e)) (drop (length pre + 9) ?b))) = de_name e"
    using e by (simp add: sh entry_ok_def from_utf8_lossy_valid map_byte_char_byte)
  have next_at: "div_ceil (length pre + 9 + length (de_name e) + 1) 4 * 4 = length (pre @ entry_bytes e)"
    using div_ceil_4_add [OF pre, of "10 + length (de_name e)"] by (simp add: length_entry_bytes ac_simps)
  have fields: "length pre + 9 \<le> length ?b"
    "un_be32 (?b ! length pre) (?b ! (length pre + 1)) (?b ! (length pre + 2)) (?b ! (length pre + 3)) = de_time e"
    "un_be32 (?b ! (length pre + 4)) (?b ! (length pre + 5)) (?b ! (length pre + 6)) (?b ! (length pre + 7)) = de_size e"
    "?b ! (length pre + 8) = kind_byte (de_kind e)"
    by (simp_all add: sh nth_append be_simps)
  show ?thesis
    by (subst walk.simps, unfold Let_def fields nul option.case name next_at)
      (use fields(1) in \<open>cases e; cases "de_kind e"; simp add: rdtype_defs\<close>)
qed

lemma walk_end:
  assumes "ends_block t"
  shows "walk (pre @ t) (length pre) acc = acc"
proof (cases "length t < 9")
  case False
  then have "(pre @ t) ! (length pre + 8) = t ! 8" by (simp add: nth_append)
  with assms False show ?thesis
    by (subst walk.simps) (auto simp: ends_block_def)
qed (subst walk.simps, simp)

lemma walk_entries:
  "list_all entry_ok es \<Longrightarrow> 4 dvd length pre \<Longrightarrow> ends_block t \<Longrightarrow>
     walk (pre @ concat (map entry_bytes es) @ t) (length pre) acc = acc @ es"
proof (induction es arbitrary: pre acc)
  case Nil
  then show ?case by (simp add: walk_end)
next
  case (Cons e es)
  have "4 dvd length (pre @ entry_bytes e)"
    using Cons.prems(2) by (simp add: length_entry_bytes)
  then have "walk ((pre @ entry_bytes e) @ concat (map entry_bytes es) @ t) (length (pre @ entry_bytes e)) (acc @ [e])
      = (acc @ [e]) @ es"
    using Cons.prems by (intro Cons.IH) auto
  then show ?case
    using Cons.prems walk_entry [of e pre "concat (map entry_bytes es) @ t" acc] by simp
qed

text \<open>
  \<open>parse_directory\<close> returns exactly the entries of the block: for every list of entries
  with UTF-8 names without NUL, the block a server writes for them (each entry padded to four
  bytes), followed by an end record, a padding record or too little for another record, parses to
  that list, in order, with every time, size, kind and name.
\<close>

theorem fsp_directory_roundtrip:
  assumes "list_all entry_ok es" "ends_block t"
  shows "parse_directory (concat (map entry_bytes es) @ t) = es"
  using walk_entries [OF assms(1) _ assms(2), of "[]" "[]"] by (simp add: parse_directory_def)

definition demo_entry :: dir_entry where
  "demo_entry = \<lparr>de_time = 1, de_size = 2, de_kind = EntryFile, de_name = ''a.txt''\<rparr>"

lemma fsp_directory_witness:
  "parse_directory ([0, 0, 0, 1, 0, 0, 0, 2, 1, 97, 46, 116, 120, 116, 0, 0] @ [0, 0, 0, 0, 0, 0, 0, 0, 0, 0])
     = [demo_entry]"
proof -
  have "entry_ok demo_entry"
    by (simp add: entry_ok_def demo_entry_def ascii_valid_utf8 ascii_def)
  moreover have "concat (map entry_bytes [demo_entry]) = [0, 0, 0, 1, 0, 0, 0, 2, 1, 97, 46, 116, 120, 116, 0, 0]"
    by (simp add: entry_bytes_def demo_entry_def be32_def Let_def div_ceil_def char_byte_def rdtype_defs)
  ultimately show ?thesis
    using fsp_directory_roundtrip [of "[demo_entry]" "[0, 0, 0, 0, 0, 0, 0, 0, 0, 0]"]
    by (simp add: ends_block_def rdtype_defs)
qed

end
