(* ===== verification/Fsp_Client.thy ===== *)
theory Fsp_Client
  imports Fsp_Directory
begin

text \<open>
  The FSP client (\<open>crates/fsp-protocol/src/client.rs\<close>): one request with its
  retransmissions, the filtering of stale and corrupt replies, whole files and directories. The
  socket is a function from the datagrams sent so far and the one being sent to what happens
  until the deadline of \<open>await_reply\<close>: whether the send succeeded, and the datagrams received
  (\<open>RecvError\<close> for a failing receive). The code's loops over a server that never stops have a
  fuel argument; \<open>fsp_get_file_correct\<close> shows how much is enough.
\<close>

datatype rx = Datagram "u8 list" | RecvError

type_synonym net = "u8 list list \<Rightarrow> u8 list \<Rightarrow> bool \<times> rx list"

text \<open>\<open>FcOverflow\<close> is the arithmetic panic of a checked build, in \<open>list\<close>.\<close>

datatype fsp_client_error =
  FcConnect | FcIo | FcProtocol decode_error | FcRefused string | FcTimedOut | FcOverflow

text \<open>The \<open>Session\<close>; \<open>fs_sent\<close> stands for the socket.\<close>

record fsp_session =
  fs_sent :: "u8 list list"
  fs_key :: u16
  fs_sequence :: u16
  fs_attempts :: nat

definition session_new :: fsp_session where
  "session_new = \<lparr>fs_sent = [], fs_key = 0, fs_sequence = 1, fs_attempts = 3\<rparr>"

definition FSP_PORT :: nat where "FSP_PORT = 21"

text \<open>Whether the socket can be bound, and connected to the host's port, is the environment's choice.\<close>

definition session_connect ::
    "bool \<Rightarrow> (string \<Rightarrow> nat \<Rightarrow> bool) \<Rightarrow> string \<Rightarrow> nat option \<Rightarrow> fsp_client_error + fsp_session" where
  "session_connect binds reaches host port =
     (let port = (case port of Some p \<Rightarrow> p | None \<Rightarrow> FSP_PORT) in
      if \<not> binds then Inl FcConnect
      else if \<not> reaches host port then Inl FcConnect
      else Inr session_new)"

lemma session_connect_InrD: "session_connect binds reaches host port = Inr s \<Longrightarrow> s = session_new"
  by (simp add: session_connect_def split: if_splits)

definition nul_terminated :: "string \<Rightarrow> u8 list" where
  "nul_terminated path = map char_byte path @ [0]"

definition trim_nul :: "u8 list \<Rightarrow> string" where
  "trim_nul bs = rev (dropWhile (\<lambda>c. c = CHR 0x00) (rev (from_utf8_lossy (map byte_char bs))))"

definition RECV_BUFFER :: nat where "RECV_BUFFER = HEADER_LEN + MAX_PAYLOAD * 2"

fun await_reply :: "u16 \<Rightarrow> rx list \<Rightarrow> fsp_client_error + fsp_packet option" where
  "await_reply sequence [] = Inr None"
| "await_reply sequence (RecvError # evs) = Inl FcIo"
| "await_reply sequence (Datagram d # evs) =
     (case fsp_decode (take RECV_BUFFER d) ServerToClient of
        Inr p \<Rightarrow> if fh_sequence (fp_header p) = sequence then Inr (Some p) else await_reply sequence evs
      | Inl _ \<Rightarrow> await_reply sequence evs)"

fun attempt_loop :: "net \<Rightarrow> u16 \<Rightarrow> u8 list \<Rightarrow> nat \<Rightarrow> fsp_session \<Rightarrow> (fsp_client_error + fsp_packet) \<times> fsp_session" where
  "attempt_loop net sequence bs 0 s = (Inl FcTimedOut, s)"
| "attempt_loop net sequence bs (Suc n) s =
     (case net (fs_sent s) bs of (sent, evs) \<Rightarrow>
        if \<not> sent then (Inl FcIo, s)
        else let s = s\<lparr>fs_sent := fs_sent s @ [bs]\<rparr> in
        (case await_reply sequence evs of
           Inl e \<Rightarrow> (Inl e, s)
         | Inr None \<Rightarrow> attempt_loop net sequence bs n s
         | Inr (Some reply) \<Rightarrow>
             let s = s\<lparr>fs_key := fh_key (fp_header reply)\<rparr> in
             if fh_command (fp_header reply) = command_code CcErr
             then (Inl (FcRefused (trim_nul (fp_data reply))), s)
             else (Inr reply, s)))"

definition outgoing :: "command \<Rightarrow> u8 list \<Rightarrow> u32 \<Rightarrow> fsp_session \<Rightarrow> fsp_packet" where
  "outgoing cmd data pos s =
     \<lparr>fp_header = \<lparr>fh_command = command_code cmd, fh_key = fs_key s, fh_sequence = fs_sequence s,
                   fh_data_length = of_nat (length data), fh_file_position = pos\<rparr>,
      fp_data = data, fp_extra = []\<rparr>"

definition fsp_request ::
    "net \<Rightarrow> command \<Rightarrow> u8 list \<Rightarrow> u32 \<Rightarrow> fsp_session \<Rightarrow> (fsp_client_error + fsp_packet) \<times> fsp_session" where
  "fsp_request net cmd data pos s0 =
     (let s = s0\<lparr>fs_sequence := fs_sequence s0 + 1\<rparr> in
      attempt_loop net (fs_sequence s) (fsp_encode (outgoing cmd data pos s) ClientToServer) (fs_attempts s) s)"

definition session_version :: "net \<Rightarrow> fsp_session \<Rightarrow> (fsp_client_error + string) \<times> fsp_session" where
  "session_version net s =
     (case fsp_request net CcVersion [] 0 s of
        (Inl e, s) \<Rightarrow> (Inl e, s) | (Inr reply, s) \<Rightarrow> (Inr (trim_nul (fp_data reply)), s))"

definition session_bye :: "net \<Rightarrow> fsp_session \<Rightarrow> fsp_client_error + unit" where
  "session_bye net s =
     (case fst (fsp_request net CcBye [] 0 s) of Inl e \<Rightarrow> Inl e | Inr _ \<Rightarrow> Inr ())"

definition get_file_block ::
    "net \<Rightarrow> string \<Rightarrow> u32 \<Rightarrow> fsp_session \<Rightarrow> (fsp_client_error + u8 list) \<times> fsp_session" where
  "get_file_block net path offset s =
     (case fsp_request net CcGetFile (nul_terminated path) offset s of
        (Inl e, s) \<Rightarrow> (Inl e, s) | (Inr reply, s) \<Rightarrow> (Inr (fp_data reply), s))"

fun get_file_loop ::
    "nat \<Rightarrow> net \<Rightarrow> string \<Rightarrow> u8 list \<Rightarrow> fsp_session \<Rightarrow> ((fsp_client_error + u8 list) \<times> fsp_session) option" where
  "get_file_loop 0 net path body s = None"
| "get_file_loop (Suc fuel) net path body s =
     (case get_file_block net path (of_nat (length body)) s of
        (Inl e, s) \<Rightarrow> Some (Inl e, s)
      | (Inr block, s) \<Rightarrow>
          if block = [] then Some (Inr body, s)
          else if length block < MAX_PAYLOAD then Some (Inr (body @ block), s)
          else get_file_loop fuel net path (body @ block) s)"

definition get_file :: "nat \<Rightarrow> net \<Rightarrow> string \<Rightarrow> fsp_session \<Rightarrow> ((fsp_client_error + u8 list) \<times> fsp_session) option" where
  "get_file fuel net path s = get_file_loop fuel net path [] s"

fun list_loop ::
    "nat \<Rightarrow> net \<Rightarrow> string \<Rightarrow> dir_entry list \<Rightarrow> u32 \<Rightarrow> fsp_session \<Rightarrow> ((fsp_client_error + dir_entry list) \<times> fsp_session) option" where
  "list_loop 0 net path entries offset s = None"
| "list_loop (Suc fuel) net path entries offset s =
     (case fsp_request net CcGetDir (nul_terminated path) offset s of
        (Inl e, s) \<Rightarrow> Some (Inl e, s)
      | (Inr reply, s) \<Rightarrow>
          if fp_data reply = [] then Some (Inr entries, s)
          else let block = parse_directory (fp_data reply) in
               if block = [] then Some (Inr (entries @ block), s)
               else if u32_max < unat offset + length (fp_data reply) then Some (Inl FcOverflow, s)
               else list_loop fuel net path (entries @ block) (offset + of_nat (length (fp_data reply))) s)"

definition session_list :: "nat \<Rightarrow> net \<Rightarrow> string \<Rightarrow> fsp_session \<Rightarrow> ((fsp_client_error + dir_entry list) \<times> fsp_session) option" where
  "session_list fuel net path s = list_loop fuel net path [] 0 s"

section \<open>The network\<close>

text \<open>
  A datagram that decodes on arrival is the server's answer to something this session has sent:
  earlier datagrams may be answered late, again and in any order, and anything may be lost or
  damaged beyond the checksum's recognition.
\<close>

definition decoded :: "u8 list \<Rightarrow> fsp_packet option" where
  "decoded d = (case fsp_decode (take RECV_BUFFER d) ServerToClient of Inr p \<Rightarrow> Some p | Inl _ \<Rightarrow> None)"

definition faithful :: "net \<Rightarrow> (fsp_packet \<Rightarrow> fsp_packet) \<Rightarrow> bool" where
  "faithful net srv \<longleftrightarrow> (\<forall>h b d p. Datagram d \<in> set (snd (net h b)) \<and> decoded d = Some p \<longrightarrow>
     (\<exists>q \<in> insert b (set h). \<exists>r. fsp_decode q ClientToServer = Inr r \<and> p = srv r))"

lemma faithfulD:
  assumes "faithful net srv" "Datagram d \<in> set (snd (net h b))" "decoded d = Some p"
  shows "\<exists>q \<in> insert b (set h). \<exists>r. fsp_decode q ClientToServer = Inr r \<and> p = srv r"
  by (rule assms(1) [unfolded faithful_def, rule_format, OF conjI [OF assms(2,3)]])

text \<open>Every request is answered before the deadline, among whatever else arrives.\<close>

definition responsive :: "net \<Rightarrow> (fsp_packet \<Rightarrow> fsp_packet) \<Rightarrow> bool" where
  "responsive net srv \<longleftrightarrow> (\<forall>h b r. fsp_decode b ClientToServer = Inr r \<longrightarrow>
     fst (net h b) \<and> RecvError \<notin> set (snd (net h b)) \<and>
     (\<exists>d. Datagram d \<in> set (snd (net h b)) \<and> decoded d = Some (srv r)))"

definition echoes :: "(fsp_packet \<Rightarrow> fsp_packet) \<Rightarrow> bool" where
  "echoes srv \<longleftrightarrow> (\<forall>r. fh_sequence (fp_header (srv r)) = fh_sequence (fp_header r))"

definition serves_file :: "nat \<Rightarrow> (fsp_packet \<Rightarrow> fsp_packet) \<Rightarrow> string \<Rightarrow> u8 list \<Rightarrow> bool" where
  "serves_file n srv path content \<longleftrightarrow> (\<forall>r.
     fh_command (fp_header r) = command_code CcGetFile \<and> fp_data r = nul_terminated path \<longrightarrow>
     fh_command (fp_header (srv r)) \<noteq> command_code CcErr \<and>
     fp_data (srv r) = take n (drop (unat (fh_file_position (fp_header r))) content))"

section \<open>One request\<close>

lemma await_reply_SomeD:
  "await_reply sq evs = Inr (Some p) \<Longrightarrow>
     fh_sequence (fp_header p) = sq \<and> (\<exists>d. Datagram d \<in> set evs \<and> decoded d = Some p)"
proof (induction sq evs rule: await_reply.induct)
  case (3 sq d evs)
  then show ?case
    by (cases "fsp_decode (take RECV_BUFFER d) ServerToClient")
      (auto simp: decoded_def split: if_splits)
qed auto

lemma await_reply_InlD: "await_reply sq evs = Inl e \<Longrightarrow> e = FcIo \<and> RecvError \<in> set evs"
  by (induction sq evs rule: await_reply.induct) (auto split: sum.splits if_splits)

lemma await_reply_NoneD:
  "await_reply sq evs = Inr None \<Longrightarrow> Datagram d \<in> set evs \<Longrightarrow> decoded d = Some p \<Longrightarrow>
     fh_sequence (fp_header p) \<noteq> sq"
  by (induction sq evs rule: await_reply.induct) (auto simp: decoded_def split: sum.splits if_splits)

text \<open>What a request is answered with, or that it is not answered.\<close>

definition answer :: "fsp_packet \<Rightarrow> fsp_client_error + fsp_packet" where
  "answer p = (if fh_command (fp_header p) = command_code CcErr
               then Inl (FcRefused (trim_nul (fp_data p))) else Inr p)"

text \<open>What an attempt returns was received after a send of this session's datagrams.\<close>

lemma attempt_loop_result:
  assumes "attempt_loop net sq bs n s = (res, s')"
  shows "set (fs_sent s') \<subseteq> insert bs (set (fs_sent s)) \<and> fs_sequence s' = fs_sequence s \<and>
    fs_attempts s' = fs_attempts s \<and>
    (res \<in> {Inl FcIo, Inl FcTimedOut} \<or>
     (\<exists>p h d. set h \<subseteq> insert bs (set (fs_sent s)) \<and> Datagram d \<in> set (snd (net h bs)) \<and>
        decoded d = Some p \<and> fh_sequence (fp_header p) = sq \<and> res = answer p))"
  using assms
proof (induction n arbitrary: s)
  case (Suc n)
  obtain ok evs where net: "net (fs_sent s) bs = (ok, evs)" by fastforce
  show ?case
  proof (cases "ok \<and> await_reply sq evs = Inr None")
    case True
    with Suc.prems net have "attempt_loop net sq bs n (s\<lparr>fs_sent := fs_sent s @ [bs]\<rparr>) = (res, s')"
      by simp
    from Suc.IH [OF this] show ?thesis by simp
  next
    case False
    show ?thesis
    proof (cases "ok \<and> (\<exists>p. await_reply sq evs = Inr (Some p))")
      case True
      then obtain p d where p: "await_reply sq evs = Inr (Some p)" "fh_sequence (fp_header p) = sq"
          "Datagram d \<in> set evs" "decoded d = Some p"
        using await_reply_SomeD by blast
      have "set (fs_sent s) \<subseteq> insert bs (set (fs_sent s)) \<and> Datagram d \<in> set (snd (net (fs_sent s) bs)) \<and>
          decoded d = Some p \<and> fh_sequence (fp_header p) = sq \<and>
          res = answer p"
        using Suc.prems net True p by (auto simp: Let_def answer_def split: if_splits)
      moreover have "set (fs_sent s') \<subseteq> insert bs (set (fs_sent s)) \<and> fs_sequence s' = fs_sequence s \<and>
          fs_attempts s' = fs_attempts s"
        using Suc.prems net True p by (auto simp: Let_def split: if_splits)
      ultimately show ?thesis by blast
    next
      case no: False
      show ?thesis
      proof (cases ok)
        case True
        with no \<open>\<not> (ok \<and> await_reply sq evs = Inr None)\<close> obtain e where e: "await_reply sq evs = Inl e"
          by (cases "await_reply sq evs"; cases "projr (await_reply sq evs)") auto
        with Suc.prems net True await_reply_InlD [OF e] show ?thesis by (auto simp: Let_def)
      qed (use Suc.prems net in auto)
    qed
  qed
qed auto

section \<open>Sequence numbers tell replies apart\<close>

text \<open>
  After \<open>n\<close> requests of a session the counter is \<open>n + 1\<close> and every datagram sent so far carries
  one of the sequence numbers 2 to \<open>n + 1\<close>.
\<close>

definition session_inv :: "nat \<Rightarrow> fsp_session \<Rightarrow> bool" where
  "session_inv n s \<longleftrightarrow> fs_sequence s = of_nat (1 + n) \<and>
     (\<forall>q \<in> set (fs_sent s). \<forall>r. fsp_decode q ClientToServer = Inr r \<longrightarrow>
        (\<exists>i \<in> {1..n}. fh_sequence (fp_header r) = of_nat (1 + i)))"

lemma session_inv_new: "session_inv 0 session_new"
  by (simp add: session_inv_def session_new_def)

lemma session_invD:
  "session_inv n s \<Longrightarrow> q \<in> set (fs_sent s) \<Longrightarrow> fsp_decode q ClientToServer = Inr r \<Longrightarrow>
     \<exists>i. 1 \<le> i \<and> i \<le> n \<and> fh_sequence (fp_header r) = of_nat (1 + i)"
  unfolding session_inv_def by fastforce

lemma of_nat_u16_inject: "i < 65536 \<Longrightarrow> j < 65536 \<Longrightarrow> (of_nat i :: u16) = of_nat j \<longleftrightarrow> i = j"
  by (simp add: word_of_nat_eq_iff take_bit_nat_eq_self)

lemma outgoing_ok: "length data \<le> u16_max \<Longrightarrow> packet_ok (outgoing cmd data pos s)"
  by (simp add: packet_ok_def outgoing_def unat_of_nat_le)

text \<open>
  The request that is under way carries a number of its own: what else the session has sent, and so
  every answer to it, carries a smaller one.
\<close>

lemma sent_inv_next:
  assumes "session_inv n s" "fsp_decode bs ClientToServer = Inr r0" "fh_sequence (fp_header r0) = of_nat (2 + n)"
    and "set (fs_sent s') \<subseteq> insert bs (set (fs_sent s))" "fs_sequence s' = of_nat (2 + n)"
  shows "session_inv (Suc n) s'"
proof -
  have "\<exists>i \<in> {1..Suc n}. fh_sequence (fp_header r) = of_nat (1 + i)"
    if "q \<in> insert bs (set (fs_sent s))" "fsp_decode q ClientToServer = Inr r" for q r
  proof (cases "q = bs")
    case True
    with assms(2,3) that(2) show ?thesis by (intro bexI [of _ "Suc n"]) auto
  next
    case False
    with that assms(1) obtain i where "1 \<le> i" "i \<le> n" "fh_sequence (fp_header r) = of_nat (1 + i)"
      using session_invD by blast
    then show ?thesis by (intro bexI [of _ i]) auto
  qed
  with assms(4,5) show ?thesis unfolding session_inv_def by (auto dest!: subsetD)
qed

lemma own_datagram:
  assumes "session_inv n s" "n < 65534" "q \<in> insert bs (set (fs_sent s))"
    and "fsp_decode q ClientToServer = Inr r" "fh_sequence (fp_header r) = of_nat (2 + n)"
  shows "q = bs"
proof (rule ccontr)
  assume "q \<noteq> bs"
  with assms(1,3,4) obtain i where "i \<le> n" "fh_sequence (fp_header r) = of_nat (1 + i)"
    using session_invD by blast
  with assms(2,5) of_nat_u16_inject [of "2 + n" "1 + i"] show False by simp
qed

lemma fsp_request_step:
  assumes "session_inv n s" "n < 65534" "length data \<le> u16_max" "faithful net srv" "echoes srv"
    and "fsp_request net cmd data pos s = (res, s')"
  shows "session_inv (Suc n) s' \<and> fs_attempts s' = fs_attempts s \<and>
    (res \<in> {Inl FcIo, Inl FcTimedOut} \<or>
     res = answer (srv (outgoing cmd data pos (s\<lparr>fs_sequence := fs_sequence s + 1\<rparr>))))"
proof -
  define s1 where "s1 = s\<lparr>fs_sequence := fs_sequence s + 1\<rparr>"
  define r0 where "r0 = outgoing cmd data pos s1"
  define bs where "bs = fsp_encode r0 ClientToServer"
  have run: "attempt_loop net (fs_sequence s1) bs (fs_attempts s1) s1 = (res, s')"
    using assms(6) by (simp add: fsp_request_def Let_def s1_def r0_def bs_def)
  have dec: "fsp_decode bs ClientToServer = Inr r0"
    unfolding bs_def by (rule fsp_decode_encode) (simp add: r0_def outgoing_ok assms(3))
  have sq: "fs_sequence s1 = of_nat (2 + n)" "fh_sequence (fp_header r0) = of_nat (2 + n)"
    and sent: "fs_sent s1 = fs_sent s" "fs_attempts s1 = fs_attempts s"
    using assms(1) by (simp_all add: s1_def r0_def outgoing_def session_inv_def)
  note R = attempt_loop_result [OF run, unfolded sq(1) sent]
  have inv: "session_inv (Suc n) s'"
    using sent_inv_next [OF assms(1) dec sq(2)] R by blast
  have "res \<in> {Inl FcIo, Inl FcTimedOut} \<or> res = answer (srv r0)"
  proof (rule disjE [OF R [THEN conjunct2, THEN conjunct2, THEN conjunct2]])
    assume "\<exists>p h d. set h \<subseteq> insert bs (set (fs_sent s)) \<and> Datagram d \<in> set (snd (net h bs)) \<and>
        decoded d = Some p \<and> fh_sequence (fp_header p) = of_nat (2 + n) \<and> res = answer p"
    then obtain p h d where p: "set h \<subseteq> insert bs (set (fs_sent s))" "Datagram d \<in> set (snd (net h bs))"
        "decoded d = Some p" "fh_sequence (fp_header p) = of_nat (2 + n)" "res = answer p"
      by (elim exE conjE)
    obtain q r where q: "q \<in> insert bs (set h)" "fsp_decode q ClientToServer = Inr r" "p = srv r"
      using faithfulD [OF assms(4) p(2,3)] by blast
    then have "q = bs"
      using own_datagram [OF assms(1,2) _ q(2)] p(1,4) assms(5) by (auto simp: echoes_def)
    with q dec p(5) show ?thesis by simp
  qed simp
  with inv R show ?thesis by (simp add: s1_def r0_def)
qed

lemma fsp_request_responsive:
  assumes "length data \<le> u16_max" "echoes srv" "responsive net srv" "0 < fs_attempts s"
  shows "fst (fsp_request net cmd data pos s) \<notin> {Inl FcIo, Inl FcTimedOut}"
proof -
  define s1 where "s1 = s\<lparr>fs_sequence := fs_sequence s + 1\<rparr>"
  define r0 where "r0 = outgoing cmd data pos s1"
  define bs where "bs = fsp_encode r0 ClientToServer"
  have dec: "fsp_decode bs ClientToServer = Inr r0"
    unfolding bs_def by (rule fsp_decode_encode) (simp add: r0_def outgoing_ok assms(1))
  obtain ok evs where net: "net (fs_sent s1) bs = (ok, evs)" by fastforce
  obtain d where d: "ok" "RecvError \<notin> set evs" "Datagram d \<in> set evs" "decoded d = Some (srv r0)"
    using assms(3) dec net unfolding responsive_def by (metis fst_conv snd_conv)
  have "fh_sequence (fp_header (srv r0)) = fs_sequence s1"
    using assms(2) by (simp add: echoes_def r0_def outgoing_def)
  then obtain p where p: "await_reply (fs_sequence s1) evs = Inr (Some p)"
    using await_reply_InlD [of "fs_sequence s1" evs] await_reply_NoneD [OF _ d(3,4), of "fs_sequence s1"] d(2)
    by (cases "await_reply (fs_sequence s1) evs"; cases "projr (await_reply (fs_sequence s1) evs)") auto
  obtain m where m: "fs_attempts s1 = Suc m"
    using assms(4) by (cases "fs_attempts s") (simp_all add: s1_def)
  have "fst (attempt_loop net (fs_sequence s1) bs (fs_attempts s1) s1) \<notin> {Inl FcIo, Inl FcTimedOut}"
    unfolding m using net d(1) p by (simp add: Let_def)
  then show ?thesis
    by (simp add: fsp_request_def Let_def s1_def r0_def bs_def)
qed

section \<open>Whole files\<close>

lemma get_file_block_step:
  assumes "session_inv n s" "n < 65534" "length path < u16_max" "faithful net srv" "echoes srv"
    and "serves_file bsz srv path content"
    and "get_file_block net path offset s = (res, s')"
  shows "session_inv (Suc n) s' \<and> fs_attempts s' = fs_attempts s \<and>
    (res \<in> {Inl FcIo, Inl FcTimedOut} \<or> res = Inr (take bsz (drop (unat offset) content)))
    \<and> (responsive net srv \<and> 0 < fs_attempts s \<longrightarrow> res \<notin> {Inl FcIo, Inl FcTimedOut})"
proof -
  have len: "length (nul_terminated path) \<le> u16_max"
    using assms(3) by (simp add: nul_terminated_def)
  let ?r0 = "outgoing CcGetFile (nul_terminated path) offset (s\<lparr>fs_sequence := fs_sequence s + 1\<rparr>)"
  obtain r where r: "fsp_request net CcGetFile (nul_terminated path) offset s = (r, s')"
    and res: "res = (case r of Inl e \<Rightarrow> Inl e | Inr p \<Rightarrow> Inr (fp_data p))"
    using assms(7) by (auto simp: get_file_block_def split: prod.splits sum.splits)
  have a: "answer (srv ?r0) = Inr (srv ?r0)" "fp_data (srv ?r0) = take bsz (drop (unat offset) content)"
    using assms(6) by (simp_all add: serves_file_def answer_def outgoing_def)
  show ?thesis
    using fsp_request_step [OF assms(1,2) len assms(4,5) r] a res
      fsp_request_responsive [OF len assms(5), of net s CcGetFile offset] r
    by auto
qed

text \<open>A block short of 1024 bytes ends the file; after a full one there is less than a block fewer to get.\<close>

lemma last_block:
  assumes "body = take (length body) content" "MAX_PAYLOAD \<le> bsz"
    and "length (take bsz (drop (length body) content)) < MAX_PAYLOAD"
  shows "body @ take bsz (drop (length body) content) = content"
proof -
  have "length content \<le> length body + bsz"
    using assms(2,3) by (simp add: MAX_PAYLOAD_def min_def split: if_splits)
  then show ?thesis using assms(1) by (metis take_add take_all)
qed

lemma full_block:
  assumes "body = take (length body) content" "blk = take bsz (drop (length body) content)" "\<not> length blk < MAX_PAYLOAD"
  shows "blk \<noteq> []" "body @ blk = take (length (body @ blk)) content"
    "(length content - length (body @ blk)) div 1024 + 1 \<le> (length content - length body) div 1024"
proof -
  have app: "body @ blk = take (length body + bsz) content"
    using assms(1,2) by (metis take_add)
  then show "body @ blk = take (length (body @ blk)) content"
    by (cases "length body + bsz \<le> length content") auto
  show "blk \<noteq> []" using assms(3) by (auto simp: MAX_PAYLOAD_def)
  define k where "k = length content - length (body @ blk)"
  have "1024 \<le> length blk" "length (body @ blk) \<le> length content"
    using assms(3) app by (auto simp: MAX_PAYLOAD_def)
  then have "k + 1024 \<le> length content - length body"
    unfolding k_def length_append by linarith
  then have "(k + 1024) div 1024 \<le> (length content - length body) div 1024"
    by (rule div_le_mono)
  then show "(length content - length (body @ blk)) div 1024 + 1 \<le> (length content - length body) div 1024"
    unfolding k_def [symmetric] by simp
qed

lemma get_file_loop_correct:
  assumes "faithful net srv" "echoes srv" "serves_file bsz srv path content" "MAX_PAYLOAD \<le> bsz"
    and "length path < u16_max" "length content \<le> u32_max"
  shows "session_inv n s \<Longrightarrow> body = take (length body) content \<Longrightarrow>
    n + (length content - length body) div 1024 < 65534 \<Longrightarrow>
    (length content - length body) div 1024 < fuel \<Longrightarrow>
    \<exists>res s'. get_file_loop fuel net path body s = Some (res, s') \<and>
      res \<in> {Inr content, Inl FcIo, Inl FcTimedOut} \<and>
      (responsive net srv \<and> 0 < fs_attempts s \<longrightarrow> res = Inr content)"
proof (induction fuel arbitrary: n body s)
  case (Suc fuel)
  obtain res s' where b: "get_file_block net path (of_nat (length body)) s = (res, s')" by fastforce
  have "length body \<le> length content"
    using Suc.prems(2) by (metis length_take min.cobounded1)
  then have off: "unat (of_nat (length body) :: u32) = length body"
    using assms(6) by (simp add: unat_of_nat_le)
  note step = get_file_block_step [OF Suc.prems(1) _ assms(5,1,2,3) b, unfolded off]
  define blk where "blk = take bsz (drop (length body) content)"
  consider (failed) "res \<noteq> Inr blk" | (final) "res = Inr blk" "length blk < MAX_PAYLOAD"
    | (full) "res = Inr blk" "\<not> length blk < MAX_PAYLOAD" by blast
  then show ?case
  proof cases
    case failed
    then show ?thesis using step Suc.prems(3) b by (auto simp: blk_def)
  next
    case final
    then have "body @ blk = content"
      using last_block [OF Suc.prems(2) assms(4)] by (simp add: blk_def)
    then show ?thesis using b final by (cases "blk = []") auto
  next
    case full
    note F = full_block [OF Suc.prems(2) blk_def full(2)]
    have "session_inv (Suc n) s'" using step Suc.prems(3) by simp
    from Suc.IH [OF this F(2)] F(3) Suc.prems(3,4)
    have "\<exists>res s''. get_file_loop fuel net path (body @ blk) s' = Some (res, s'') \<and>
          res \<in> {Inr content, Inl FcIo, Inl FcTimedOut} \<and>
          (responsive net srv \<and> 0 < fs_attempts s' \<longrightarrow> res = Inr content)" by simp
    then show ?thesis using b full F(1) step Suc.prems(3) by auto
  qed
qed simp

text \<open>
  (C9) Fetching a file over an unreliable network is correct. The network may lose, repeat, reorder,
  delay and damage datagrams, including answers to earlier requests of the session; as long as
  what decodes is an answer of the server to something that was sent, \<open>get_file\<close> on a session
  just connected ends (one round per block is enough fuel) with exactly the file's content, or reports
  that the socket failed or that no answer came within the attempts. If the server's answers do
  arrive, it ends with the content. For files of up to 65534 blocks, the number of requests that
  the sequence numbers of a session distinguish, and servers that fill their blocks.
\<close>

theorem fsp_get_file_correct:
  assumes "faithful net srv" "echoes srv" "serves_file bsz srv path content" "MAX_PAYLOAD \<le> bsz"
    and "length path < u16_max" "length content < 65534 * 1024" "length content div 1024 < fuel"
    and "session_connect binds reaches host port = Inr s0"
  shows "\<exists>res s. get_file fuel net path s0 = Some (res, s) \<and>
      res \<in> {Inr content, Inl FcIo, Inl FcTimedOut} \<and>
      (responsive net srv \<longrightarrow> res = Inr content)"
proof -
  have "length content div 1024 < 65534"
    using assms(6) by (simp add: less_mult_imp_div_less)
  then have "\<exists>res s'. get_file_loop fuel net path [] session_new = Some (res, s') \<and>
      res \<in> {Inr content, Inl FcIo, Inl FcTimedOut} \<and>
      (responsive net srv \<and> 0 < fs_attempts session_new \<longrightarrow> res = Inr content)"
    using assms by (intro get_file_loop_correct [of net srv bsz path content, OF _ _ _ _ _ _ session_inv_new]) auto
  then show ?thesis
    by (simp add: get_file_def session_connect_InrD [OF assms(8)] session_new_def)
qed

section \<open>Small blocks\<close>

text \<open>
  \<open>get_file\<close> takes a block shorter than 1024 bytes for the last one, although an empty
  block is the documented end of file. From a server that answers in smaller blocks it therefore
  returns the first block alone, without an error.
\<close>

theorem fsp_small_blocks_truncate:
  assumes "faithful net srv" "echoes srv" "responsive net srv" "serves_file bsz srv path content"
    and "bsz < MAX_PAYLOAD" "length path < u16_max"
  shows "map_option fst (get_file (Suc fuel) net path session_new) = Some (Inr (take bsz content))"
proof -
  obtain res s' where b: "get_file_block net path (of_nat (length ([] :: u8 list))) session_new = (res, s')"
    by fastforce
  have "res = Inr (take bsz (drop (unat (of_nat (length ([] :: u8 list)) :: u32)) content))"
    using get_file_block_step [OF session_inv_new _ assms(6,1,2,4) b] assms(3)
    by (auto simp: session_new_def)
  then have res: "res = Inr (take bsz content)"
    by simp
  have "length (take bsz content) < MAX_PAYLOAD"
    using assms(5) by auto
  then show ?thesis
    using b unfolding res get_file_def by (cases "take bsz content = []") (simp_all add: min_def)
qed

section \<open>A server and a network to try it on\<close>

definition file_server :: "nat \<Rightarrow> u8 list \<Rightarrow> fsp_packet \<Rightarrow> fsp_packet" where
  "file_server bsz content r =
     (let blk = take bsz (drop (unat (fh_file_position (fp_header r))) content) in
      \<lparr>fp_header = (fp_header r)\<lparr>fh_command := command_code CcGetFile, fh_data_length := of_nat (length blk)\<rparr>,
       fp_data = blk, fp_extra = []\<rparr>)"

text \<open>Every request is answered once, after a datagram that is no packet.\<close>

definition direct_net :: "(fsp_packet \<Rightarrow> fsp_packet) \<Rightarrow> net" where
  "direct_net srv h b =
     (True, Datagram [] # (case fsp_decode b ClientToServer of
        Inl _ \<Rightarrow> [] | Inr r \<Rightarrow> [Datagram (fsp_encode (srv r) ServerToClient)]))"

lemma file_server_properties:
  assumes "bsz \<le> 2048"
  shows "echoes (file_server bsz content)" "serves_file bsz (file_server bsz content) path content"
    "packet_ok (file_server bsz content r)"
    "decoded (fsp_encode (file_server bsz content r) ServerToClient) = Some (file_server bsz content r)"
proof -
  show "echoes (file_server bsz content)"
    by (simp add: echoes_def file_server_def Let_def)
  show "serves_file bsz (file_server bsz content) path content"
    by (simp add: serves_file_def file_server_def Let_def)
  show ok: "packet_ok (file_server bsz content r)"
    using assms by (simp add: packet_ok_def file_server_def Let_def unat_of_nat_le)
  have "length (fsp_encode (file_server bsz content r) ServerToClient) \<le> RECV_BUFFER"
    using assms by (simp add: fsp_encode_def Let_def file_server_def RECV_BUFFER_def HEADER_LEN_def MAX_PAYLOAD_def)
  then show "decoded (fsp_encode (file_server bsz content r) ServerToClient) = Some (file_server bsz content r)"
    by (simp add: decoded_def fsp_decode_encode [OF ok])
qed

lemma decoded_Nil [simp]: "decoded [] = None"
  by (simp add: decoded_def fsp_decode_def HEADER_LEN_def)

lemma direct_net_properties:
  assumes "bsz \<le> 2048"
  shows "faithful (direct_net (file_server bsz content)) (file_server bsz content)"
    "responsive (direct_net (file_server bsz content)) (file_server bsz content)"
proof -
  note P = file_server_properties [OF assms]
  show "faithful (direct_net (file_server bsz content)) (file_server bsz content)"
    unfolding faithful_def direct_net_def
    by (auto split: sum.splits simp: P(4)) metis
  show "responsive (direct_net (file_server bsz content)) (file_server bsz content)"
    unfolding responsive_def direct_net_def by (auto simp: P(4))
qed

lemma fsp_get_file_witness:
  "\<exists>s. get_file 1 (direct_net (file_server 1024 [1, 2, 3])) ''f'' session_new = Some (Inr [1, 2, 3], s)"
  using fsp_get_file_correct [of "direct_net (file_server 1024 [1, 2, 3])" "file_server 1024 [1, 2, 3]" 1024 "''f''" "[1, 2, 3]" 1
      True "\<lambda>_ _. True" "''h''" None session_new]
    direct_net_properties [of 1024 "[1, 2, 3]"] file_server_properties(1,2) [of 1024 "[1, 2, 3]"]
  by (auto simp: MAX_PAYLOAD_def session_connect_def)

lemma fsp_small_blocks_witness:
  "map_option fst (get_file (Suc 5) (direct_net (file_server 2 [1, 2, 3])) ''f'' session_new) = Some (Inr [1, 2])"
  using fsp_small_blocks_truncate [of "direct_net (file_server 2 [1, 2, 3])" "file_server 2 [1, 2, 3]" 2 "''f''" "[1, 2, 3]" 5]
    direct_net_properties [of 2 "[1, 2, 3]"] file_server_properties(1,2) [of 2 "[1, 2, 3]"]
  by (simp add: MAX_PAYLOAD_def)

lemma fsp_single_byte_witness:
  "fsp_decode ((fsp_encode (file_server 2 [1, 2] (outgoing CcBye [] 0 session_new)) ServerToClient)[1 := 7]) ServerToClient
     = Inl (BadChecksum (checksum ((fsp_encode (file_server 2 [1, 2] (outgoing CcBye [] 0 session_new)) ServerToClient)[1 := 7]) ServerToClient) 7)"
proof -
  let ?p = "file_server 2 [1, 2] (outgoing CcBye [] 0 session_new)"
  let ?bs = "fsp_encode ?p ServerToClient"
  have len: "length ?bs = 14"
    by (simp add: fsp_encode_def Let_def file_server_def outgoing_def)
  have "?bs ! 1 = 0x48"
    by (simp add: fsp_encode_def Let_def file_server_def outgoing_def session_new_def checksum_def
        be16_def be32_def)
  then have "7 \<noteq> ?bs ! 1" by simp
  from fsp_single_byte_detected [OF fsp_decode_encode [OF file_server_properties(3)] _ _ this] len
  show ?thesis by simp
qed

end
