(* ===== verification/Fsp_Listing.thy ===== *)
theory Fsp_Listing
  imports Fsp_Client
begin

text \<open>
  Directory listings of the FSP client over an unreliable network: \<open>session_list\<close> composed with
  the format of the blocks (\<open>Fsp_Directory\<close>), the packets (\<open>Fsp_Wire\<close>) and a server that keeps a
  directory as a sequence of blocks.
\<close>

section \<open>A server's directory\<close>

text \<open>
  A block holds entries and then filling that ends it. The server keeps the directory as such
  blocks and a last one without entries, possibly empty, and answers a request for the position
  where a block starts with that block.
\<close>

definition block_data :: "dir_entry list \<times> u8 list \<Rightarrow> u8 list" where
  "block_data = (\<lambda>(es, t). concat (map entry_bytes es) @ t)"

definition block_fine :: "dir_entry list \<times> u8 list \<Rightarrow> bool" where
  "block_fine = (\<lambda>(es, t). es \<noteq> [] \<and> list_all entry_ok es \<and> ends_block t)"

definition serves_directory :: "(fsp_packet \<Rightarrow> fsp_packet) \<Rightarrow> string \<Rightarrow> u8 list list \<Rightarrow> u8 list \<Rightarrow> bool" where
  "serves_directory srv path blocks fin \<longleftrightarrow> (\<forall>r.
     fh_command (fp_header r) = command_code CcGetDir \<and> fp_data r = nul_terminated path \<longrightarrow>
     fh_command (fp_header (srv r)) \<noteq> command_code CcErr \<and>
     (\<forall>k \<le> length blocks. unat (fh_file_position (fp_header r)) = length (concat (take k blocks)) \<longrightarrow>
        fp_data (srv r) = (blocks @ [fin]) ! k))"

lemma parse_block_data: "block_fine b \<Longrightarrow> parse_directory (block_data b) = fst b"
  by (cases b) (simp add: block_fine_def block_data_def fsp_directory_roundtrip)

lemma parse_final: "ends_block t \<Longrightarrow> parse_directory t = []"
  using fsp_directory_roundtrip [of "[]" t] by simp

lemma block_fine_nonempty: "block_fine b \<Longrightarrow> fst b \<noteq> [] \<and> block_data b \<noteq> []"
  by (cases b) (auto simp: block_fine_def block_data_def entry_bytes_def Let_def neq_Nil_conv)

section \<open>One block\<close>

lemma list_request_step:
  assumes "session_inv n s" "n < 65534" "length path < u16_max" "faithful net srv" "echoes srv"
    and "serves_directory srv path blocks fin" "k \<le> length blocks"
    and "unat offset = length (concat (take k blocks))"
    and "fsp_request net CcGetDir (nul_terminated path) offset s = (res, s')"
  shows "session_inv (Suc n) s' \<and> fs_attempts s' = fs_attempts s \<and>
    (res \<in> {Inl FcIo, Inl FcTimedOut} \<or> (\<exists>p. res = Inr p \<and> fp_data p = (blocks @ [fin]) ! k)) \<and>
    (responsive net srv \<and> 0 < fs_attempts s \<longrightarrow> res \<notin> {Inl FcIo, Inl FcTimedOut})"
proof -
  have len: "length (nul_terminated path) \<le> u16_max"
    using assms(3) by (simp add: nul_terminated_def)
  let ?r0 = "outgoing CcGetDir (nul_terminated path) offset (s\<lparr>fs_sequence := fs_sequence s + 1\<rparr>)"
  have "fh_command (fp_header (srv ?r0)) \<noteq> command_code CcErr \<and> fp_data (srv ?r0) = (blocks @ [fin]) ! k"
    using assms(6) [unfolded serves_directory_def, rule_format, of ?r0] assms(7,8) by (simp add: outgoing_def)
  then have "answer (srv ?r0) = Inr (srv ?r0)" "fp_data (srv ?r0) = (blocks @ [fin]) ! k"
    by (simp_all add: answer_def)
  then show ?thesis
    using fsp_request_step [OF assms(1,2) len assms(4,5,9)]
      fsp_request_responsive [OF len assms(5), of net s CcGetDir offset] assms(9)
    by auto
qed

section \<open>The whole listing\<close>

text \<open>A block of entries takes the loop on to the next block.\<close>

lemma list_loop_block:
  fixes bs :: "(dir_entry list \<times> u8 list) list"
  defines "at \<equiv> \<lambda>j. length (concat (map block_data (take j bs)))"
  assumes "k < length bs" "block_fine (bs ! k)" "at (Suc k) \<le> u32_max" "fp_data p = block_data (bs ! k)"
    and "fsp_request net CcGetDir (nul_terminated path) (of_nat (at k)) s = (Inr p, s')"
  shows "list_loop (Suc fuel) net path (concat (map fst (take k bs))) (of_nat (at k)) s =
    list_loop fuel net path (concat (map fst (take (Suc k) bs))) (of_nat (at (Suc k))) s'"
proof -
  have next_at: "at k + length (fp_data p) = at (Suc k)"
    using assms(2,5) by (simp add: at_def take_Suc_conv_app_nth)
  have "(of_nat (at k) :: u32) + of_nat (length (fp_data p)) = of_nat (at (Suc k))"
    unfolding next_at [symmetric] by simp
  moreover have "concat (map fst (take k bs)) @ fst (bs ! k) = concat (map fst (take (Suc k) bs))"
    using assms(2) by (simp add: take_Suc_conv_app_nth)
  moreover have "\<not> u32_max < unat (of_nat (at k) :: u32) + length (fp_data p)"
    using assms(4) next_at by (simp add: unat_of_nat_le)
  ultimately show ?thesis
    using assms(3,5,6) block_fine_nonempty [OF assms(3)] parse_block_data [OF assms(3)] by (simp add: Let_def)
qed

lemma list_loop_correct:
  assumes "faithful net srv" "echoes srv" "serves_directory srv path (map block_data bs) fin"
    and "list_all block_fine bs" "ends_block fin" "length path < u16_max"
    and "length (concat (map block_data bs)) \<le> u32_max"
  shows "session_inv n s \<Longrightarrow> k \<le> length bs \<Longrightarrow> n + (length bs - k) < 65534 \<Longrightarrow> length bs - k < fuel \<Longrightarrow>
    \<exists>res s'. list_loop fuel net path (concat (map fst (take k bs)))
        (of_nat (length (concat (map block_data (take k bs))))) s = Some (res, s') \<and>
      res \<in> {Inr (concat (map fst bs)), Inl FcIo, Inl FcTimedOut} \<and>
      (responsive net srv \<and> 0 < fs_attempts s \<longrightarrow> res = Inr (concat (map fst bs)))"
proof (induction fuel arbitrary: n k s)
  case (Suc fuel)
  let ?at = "\<lambda>j. length (concat (map block_data (take j bs)))"
  have whole: "length (concat (map block_data bs)) = ?at j + length (concat (map block_data (drop j bs)))" for j
    by (metis append_take_drop_id concat_append length_append map_append)
  have at: "?at j \<le> u32_max" for j
    using whole [of j] assms(7) by linarith
  obtain res s' where b: "fsp_request net CcGetDir (nul_terminated path) (of_nat (?at k)) s = (res, s')"
    by fastforce
  have step: "session_inv (Suc n) s' \<and> fs_attempts s' = fs_attempts s \<and>
    (res \<in> {Inl FcIo, Inl FcTimedOut} \<or> (\<exists>p. res = Inr p \<and> fp_data p = (map block_data bs @ [fin]) ! k)) \<and>
    (responsive net srv \<and> 0 < fs_attempts s \<longrightarrow> res \<notin> {Inl FcIo, Inl FcTimedOut})"
    using Suc.prems at [of k]
    by (intro list_request_step [OF Suc.prems(1) _ assms(6,1,2,3) _ _ b]) (simp_all add: take_map unat_of_nat_le)
  show ?case
  proof (cases "\<exists>p. res = Inr p \<and> fp_data p = (map block_data bs @ [fin]) ! k")
    case False
    with step b show ?thesis by auto
  next
    case True
    then obtain p where p: "res = Inr p" "fp_data p = (map block_data bs @ [fin]) ! k" by blast
    show ?thesis
    proof (cases "k < length bs")
      case False
      with Suc.prems(2) have "k = length bs" by simp
      with b p parse_final [OF assms(5)] show ?thesis by (auto simp: nth_append)
    next
      case k: True
      then have "list_loop (Suc fuel) net path (concat (map fst (take k bs))) (of_nat (?at k)) s
          = list_loop fuel net path (concat (map fst (take (Suc k) bs))) (of_nat (?at (Suc k))) s'"
        using p b at [of "Suc k"] assms(4) by (intro list_loop_block [where p = p]) (simp_all add: list_all_length nth_append)
      moreover have "\<exists>res s''. list_loop fuel net path (concat (map fst (take (Suc k) bs))) (of_nat (?at (Suc k))) s' = Some (res, s'') \<and>
          res \<in> {Inr (concat (map fst bs)), Inl FcIo, Inl FcTimedOut} \<and>
          (responsive net srv \<and> 0 < fs_attempts s' \<longrightarrow> res = Inr (concat (map fst bs)))"
        using step k Suc.prems(3,4) by (intro Suc.IH [of "Suc n"]) auto
      ultimately show ?thesis using step by simp
    qed
  qed
qed simp

text \<open>
  (C37) Listing a directory over an unreliable network is correct. Under the network of
  \<open>fsp_get_file_correct\<close> and from a server that keeps the directory as blocks of entries, however
  they are filled up and whether or not an end marker follows them, \<open>list\<close> on a session just connected ends
  (one round per block and one more are enough fuel) with exactly the entries of all blocks in
  order, or reports a failing socket or a timeout; with the entries if the answers do arrive. For
  directories of up to 65533 blocks and \<open>2^32 - 1\<close> bytes.
\<close>

theorem fsp_list_correct:
  assumes "faithful net srv" "echoes srv" "serves_directory srv path (map block_data bs) fin"
    and "list_all block_fine bs" "ends_block fin" "length path < u16_max"
    and "length (concat (map block_data bs)) \<le> u32_max" "length bs < 65534" "length bs < fuel"
    and "session_connect binds reaches host port = Inr s0"
  shows "\<exists>res s. session_list fuel net path s0 = Some (res, s) \<and>
      res \<in> {Inr (concat (map fst bs)), Inl FcIo, Inl FcTimedOut} \<and>
      (responsive net srv \<longrightarrow> res = Inr (concat (map fst bs)))"
  using list_loop_correct [OF assms(1-7) session_inv_new, of 0 fuel] assms(8,9)
  by (simp add: session_list_def session_connect_InrD [OF assms(10)] session_new_def)

section \<open>A directory to list\<close>

text \<open>A directory of one block with a file and a subdirectory, then nothing.\<close>

definition demo_listing :: "dir_entry list \<times> u8 list" where
  "demo_listing = ([demo_entry, demo_entry\<lparr>de_kind := EntryDirectory\<rparr>], [])"

definition directory_server :: "u8 list \<Rightarrow> fsp_packet \<Rightarrow> fsp_packet" where
  "directory_server block = file_server (length block) block"

lemma demo_listing_fine: "block_fine demo_listing"
  by (simp add: block_fine_def demo_listing_def demo_entry_def entry_ok_def ends_block_def
      ascii_valid_utf8 ascii_def)

lemma demo_listing_length: "length (block_data demo_listing) = 32"
  by (simp add: block_data_def demo_listing_def length_entry_bytes demo_entry_def div_ceil_def)

lemma directory_server_serves:
  "block \<noteq> [] \<Longrightarrow> serves_directory (directory_server block) path [block] []"
  by (auto simp: serves_directory_def directory_server_def file_server_def Let_def le_Suc_eq)

lemma fsp_list_witness:
  "\<exists>s. session_list 2 (direct_net (directory_server (block_data demo_listing))) ''d'' session_new
     = Some (Inr (fst demo_listing), s)"
proof -
  let ?b = "block_data demo_listing"
  have "serves_directory (directory_server ?b) ''d'' [?b] []"
    using demo_listing_length by (intro directory_server_serves) auto
  then show ?thesis
    using fsp_list_correct [of "direct_net (directory_server ?b)" "directory_server ?b" "''d''" "[demo_listing]" "[]" 2
        True "\<lambda>_ _. True" "''h''" None session_new]
      direct_net_properties [of 32 ?b] file_server_properties(1) [of 32 ?b] demo_listing_fine demo_listing_length
    by (auto simp: directory_server_def ends_block_def session_connect_def)
qed

end
