(* ===== verification/Rust_Ascii.thy ===== *)
theory Rust_Ascii
  imports Rust_Str
begin

text \<open>
  ASCII classification and case (\<open>is_ascii_alphabetic\<close>, \<open>to_ascii_lowercase\<close>,
  \<open>eq_ignore_ascii_case\<close>), prefix and suffix tests, substring search and \<open>lines\<close>.
\<close>

definition is_ascii_upper :: "char \<Rightarrow> bool" where
  "is_ascii_upper c \<longleftrightarrow> between 65 90 c"

definition is_ascii_lower :: "char \<Rightarrow> bool" where
  "is_ascii_lower c \<longleftrightarrow> between 97 122 c"

definition is_ascii_alpha :: "char \<Rightarrow> bool" where
  "is_ascii_alpha c \<longleftrightarrow> is_ascii_upper c \<or> is_ascii_lower c"

definition is_ascii_alnum :: "char \<Rightarrow> bool" where
  "is_ascii_alnum c \<longleftrightarrow> is_ascii_alpha c \<or> is_digit c"

definition is_ascii_control :: "char \<Rightarrow> bool" where
  "is_ascii_control c \<longleftrightarrow> bval c < 32 \<or> bval c = 127"

definition lower_char :: "char \<Rightarrow> char" where
  "lower_char c = (if is_ascii_upper c then char_of (bval c + 32) else c)"

definition upper_char :: "char \<Rightarrow> char" where
  "upper_char c = (if is_ascii_lower c then char_of (bval c - 32) else c)"

definition to_lower :: "string \<Rightarrow> string" where
  "to_lower s = map lower_char s"

definition to_upper :: "string \<Rightarrow> string" where
  "to_upper s = map upper_char s"

definition eq_ignore_case :: "string \<Rightarrow> string \<Rightarrow> bool" where
  "eq_ignore_case a b \<longleftrightarrow> to_lower a = to_lower b"

definition starts_with :: "string \<Rightarrow> string \<Rightarrow> bool" where
  "starts_with p s \<longleftrightarrow> take (length p) s = p"

definition ends_with :: "string \<Rightarrow> string \<Rightarrow> bool" where
  "ends_with p s \<longleftrightarrow> length p \<le> length s \<and> drop (length s - length p) s = p"

fun contains_str :: "string \<Rightarrow> string \<Rightarrow> bool" where
  "contains_str p [] = (p = [])"
| "contains_str p (c # s) = (starts_with p (c # s) \<or> contains_str p s)"

text \<open>
  \<open>str::lines\<close>: pieces between LFs, each without one trailing CR; no last empty piece.
\<close>

definition strip_cr :: "string \<Rightarrow> string" where
  "strip_cr l = (case strip_suffix [CR] l of Some l' \<Rightarrow> l' | None \<Rightarrow> l)"

definition drop_last_empty :: "string list \<Rightarrow> string list" where
  "drop_last_empty ps = (if ps \<noteq> [] \<and> last ps = [] then butlast ps else ps)"

text \<open>A CR is dropped only before an LF, so an unterminated last piece keeps it.\<close>

definition str_lines :: "string \<Rightarrow> string list" where
  "str_lines s =
     (let ps = split_all LF s in map strip_cr (butlast ps) @ drop_last_empty [last ps])"

lemma starts_with_append [simp]: "starts_with p (p @ s)"
  by (simp add: starts_with_def)

lemma starts_with_iff: "starts_with p s \<longleftrightarrow> (\<exists>t. s = p @ t)"
  by (auto simp: starts_with_def) (metis append_take_drop_id)

lemma ends_with_iff: "ends_with p s \<longleftrightarrow> (\<exists>t. s = t @ p)"
  by (auto simp: ends_with_def) (metis append_take_drop_id)

lemma lower_char_idem [simp]: "lower_char (lower_char c) = lower_char c"
  by (simp add: lower_char_def is_ascii_upper_def between_def)

lemma to_lower_idem [simp]: "to_lower (to_lower s) = to_lower s"
  by (simp add: to_lower_def)

lemma length_to_lower [simp]: "length (to_lower s) = length s"
  by (simp add: to_lower_def)

lemma eq_ignore_case_refl [simp]: "eq_ignore_case a a"
  by (simp add: eq_ignore_case_def)

lemma eq_ignore_case_sym: "eq_ignore_case a b \<longleftrightarrow> eq_ignore_case b a"
  by (auto simp: eq_ignore_case_def)

lemma strip_cr_snoc [simp]: "strip_cr (l @ [CR]) = l"
  using strip_suffix_append [of "[CR]" l] by (simp add: strip_cr_def)

lemma strip_cr_id: "l = [] \<or> last l \<noteq> CR \<Longrightarrow> strip_cr l = l"
  by (auto simp: strip_cr_def split: option.splits dest!: strip_suffix_SomeD)

lemma str_lines_Nil [simp]: "str_lines [] = []"
  by (simp add: str_lines_def drop_last_empty_def)

lemma str_lines_lf: "LF \<notin> set l \<Longrightarrow> str_lines (l @ LF # s) = strip_cr l # str_lines s"
  by (simp add: str_lines_def Let_def)

lemma str_lines_crlf: "LF \<notin> set l \<Longrightarrow> str_lines (l @ CR # LF # s) = l # str_lines s"
  using str_lines_lf [of "l @ [CR]" s] by simp

lemma str_lines_single: "LF \<notin> set l \<Longrightarrow> l \<noteq> [] \<Longrightarrow> str_lines l = [l]"
  by (simp add: str_lines_def drop_last_empty_def)

lemma strip_cr_subset: "set (strip_cr l) \<subseteq> set l"
  by (auto simp: strip_cr_def split: option.splits dest!: strip_suffix_SomeD)

lemma str_lines_no_lf:
  assumes "l \<in> set (str_lines s)"
  shows "LF \<notin> set l"
proof -
  have "last (split_all LF s) \<in> set (split_all LF s)" by simp
  then have "LF \<notin> set (last (split_all LF s))" by (rule split_all_no_delim)
  moreover have "LF \<notin> set p" if "p \<in> set (butlast (split_all LF s))" for p
    using that by (blast dest: in_set_butlastD split_all_no_delim)
  ultimately show ?thesis
    using assms strip_cr_subset by (auto simp: str_lines_def Let_def drop_last_empty_def split: if_splits)
qed

section \<open>White space inside a string\<close>

text \<open>
  \<open>find(char::is_whitespace)\<close>. The lead byte of a white-space character is no continuation
  byte, so stepping byte by byte finds the character boundary the code finds.
\<close>

fun find_ws :: "string \<Rightarrow> nat option" where
  "find_ws [] = None"
| "find_ws (c # s) = (if ws_head (c # s) \<noteq> 0 then Some 0 else map_option Suc (find_ws s))"

text \<open>\<open>split_whitespace\<close>.\<close>

function split_whitespace :: "string \<Rightarrow> string list" where
  "split_whitespace s =
     (let t = trim_start s in
      if t = [] then []
      else case find_ws t of None \<Rightarrow> [t]
           | Some n \<Rightarrow> if n = 0 then [] else take n t # split_whitespace (drop n t))"
  by pat_completeness auto
termination
proof (relation "measure length", goal_cases)
  case (2 s t n)
  then show ?case
    using length_trim_start [of s] by (cases "trim_start s") auto
qed simp

declare split_whitespace.simps [simp del]

fun rfind :: "char \<Rightarrow> string \<Rightarrow> nat option" where
  "rfind c [] = None"
| "rfind c (x # xs) =
     (case rfind c xs of Some n \<Rightarrow> Some (Suc n) | None \<Rightarrow> if x = c then Some 0 else None)"

text \<open>\<open>split_once(char::is_whitespace)\<close>.\<close>

definition split_ws :: "string \<Rightarrow> (string \<times> string) option" where
  "split_ws s =
     (case find_ws s of None \<Rightarrow> None
      | Some n \<Rightarrow> Some (take n s, drop (n + ws_head (drop n s)) s))"

text \<open>Visible ASCII text: what URLs, tokens and numbers consist of.\<close>

definition visible :: "string \<Rightarrow> bool" where
  "visible s \<longleftrightarrow> (\<forall>c \<in> set s. ascii c \<and> \<not> ascii_ws c)"

lemma visible_Nil [simp]: "visible []"
  by (simp add: visible_def)

lemma visible_Cons [simp]: "visible (c # s) \<longleftrightarrow> ascii c \<and> \<not> ascii_ws c \<and> visible s"
  by (auto simp: visible_def)

lemma visible_append [simp]: "visible (s @ t) \<longleftrightarrow> visible s \<and> visible t"
  by (auto simp: visible_def)

lemma ascii_ws_chars [simp]: "ascii_ws (CHR '' '')" "ascii_ws LF" "ascii_ws CR" "ascii_ws (CHR 0x09)"
  by (simp_all add: ascii_ws_def between_def)

lemma visible_notin: "visible s \<Longrightarrow> ascii_ws c \<Longrightarrow> c \<notin> set s"
  by (auto simp: visible_def)

lemma visible_not_sp [simp]: "visible s \<Longrightarrow> CHR '' '' \<notin> set s" "visible s \<Longrightarrow> LF \<notin> set s"
  "visible s \<Longrightarrow> CR \<notin> set s" "visible s \<Longrightarrow> CHR 0x09 \<notin> set s"
  using visible_notin ascii_ws_chars by blast+

lemma visible_trim: "visible s \<Longrightarrow> trim s = s"
  by (rule trim_visible_all) (simp add: visible_def)

lemma visible_valid_utf8: "visible s \<Longrightarrow> valid_utf8 s"
  by (rule ascii_valid_utf8) (simp add: visible_def)

lemma visible_show_nat [simp]: "visible (show_nat n)"
  using show_nat_digits by (auto simp: visible_def dest: is_digit_visible)

lemma find_ws_visible: "visible s \<Longrightarrow> find_ws s = None"
  by (induction s) (auto simp: ws_head_ascii)

lemma ws_head_ws: "ascii_ws c \<Longrightarrow> ws_head (c # s) = 1"
  by (simp add: ws_head_def byte_at_def)

lemma find_ws_append: "visible s \<Longrightarrow> ascii_ws c \<Longrightarrow> find_ws (s @ c # t) = Some (length s)"
  by (induction s) (auto simp: ws_head_ascii ws_head_ws)

lemma split_ws_visible [simp]: "visible s \<Longrightarrow> split_ws s = None"
  by (simp add: split_ws_def find_ws_visible)

lemma split_ws_append [simp]: "visible s \<Longrightarrow> ascii_ws c \<Longrightarrow> split_ws (s @ c # t) = Some (s, t)"
  by (simp add: split_ws_def find_ws_append ws_head_ws)

lemma trim_start_visible: "visible s \<Longrightarrow> s \<noteq> [] \<Longrightarrow> trim_start (s @ t) = s @ t"
  by (cases s) (auto intro: trim_start_id ws_head_ascii)

text \<open>Trimming the end stops at a visible ASCII character.\<close>

lemma ws_last_le_tail: "ascii c \<Longrightarrow> \<not> ascii_ws c \<Longrightarrow> ws_last (c # t) \<le> length t"
proof (cases t rule: rev_cases)
  case Nil
  assume "ascii c" "\<not> ascii_ws c"
  with Nil show ?thesis using ws_last_ascii [of c "[]"] by simp
next
  case (snoc xs x)
  assume c: "ascii c" "\<not> ascii_ws c"
  show ?thesis
  proof (cases xs rule: rev_cases)
    case Nil
    with snoc c show ?thesis
      by (auto simp: ws_last_def byte_at_def ws2_def ws3_def ascii_def Let_def)
  next
    case (snoc ys y)
    show ?thesis
    proof (cases ys)
      case Nil
      with snoc \<open>t = xs @ [x]\<close> c show ?thesis
        by (auto simp: ws_last_def byte_at_def ws2_def ws3_def ascii_def Let_def)
    next
      case (Cons z zs)
      have "ws_last (c # t) \<le> 3" by (simp add: ws_last_def Let_def)
      with Cons snoc \<open>t = xs @ [x]\<close> show ?thesis by simp
    qed
  qed
qed

lemma trim_end_visible_head: "ascii c \<Longrightarrow> \<not> ascii_ws c \<Longrightarrow> trim_end (c # t) \<noteq> []"
proof (induction "length t" arbitrary: t rule: less_induct)
  case less
  show ?case
  proof (cases "ws_last (c # t) = 0")
    case False
    then obtain k where k: "length (c # t) - ws_last (c # t) = Suc k" "k < length t"
      using ws_last_le_tail [OF less.prems, of t] by (cases "length (c # t) - ws_last (c # t)") auto
    have "trim_end (c # t) = trim_end (c # take k t)"
      using False k(1) by (subst trim_end.simps) simp
    with less.hyps [of "take k t"] k(2) less.prems show ?thesis by simp
  qed (simp add: trim_end_id)
qed

lemma trim_visible_head: "ascii c \<Longrightarrow> \<not> ascii_ws c \<Longrightarrow> trim (c # t) \<noteq> []"
  by (simp add: trim_def trim_start_id ws_head_ascii trim_end_visible_head)

end
