(* ===== verification/Gemini_Gemtext.thy ===== *)
theory Gemini_Gemtext
  imports Rust_Ascii
begin

text \<open>
  Gemtext (\<open>crates/gemini-protocol/src/gemtext.rs\<close>): the line grammar, whose only state is the
  preformatted block. Besides the parser, the rendering of parsed lines is defined, and
  parsing a rendered document gives back its lines.
\<close>

datatype gem_line =
    GHeading nat string | GText string | GLink (link_url: string) (link_label: string)
  | GItem string | GQuote string | GPre (pre_alt: "string option") (pre_text: string) | GBlank

type_synonym pre_state = "(string option \<times> string) option"

definition trimmed_or_none :: "string \<Rightarrow> string option" where
  "trimmed_or_none v = (let t = trim v in if t \<noteq> [] then Some t else None)"

definition gem_parse_link :: "string \<Rightarrow> gem_line option" where
  "gem_parse_link rest0 =
     (let rest = trim_start rest0 in
      if rest = [] then None
      else case find_ws rest of
        Some idx \<Rightarrow> Some (GLink (take idx rest) (trim (drop idx rest)))
      | None \<Rightarrow> Some (GLink rest []))"

definition FENCE :: string where "FENCE = ''```''"

text \<open>One line outside a fence: the state and the lines it adds.\<close>

definition gem_classify :: "string \<Rightarrow> gem_line list \<times> pre_state" where
  "gem_classify line =
     (case strip_prefix FENCE line of Some rest \<Rightarrow> ([], Some (trimmed_or_none rest, []))
      | None \<Rightarrow>
     (case strip_prefix ''### '' line of Some t \<Rightarrow> ([GHeading 3 (trim t)], None)
      | None \<Rightarrow>
     (case strip_prefix ''## '' line of Some t \<Rightarrow> ([GHeading 2 (trim t)], None)
      | None \<Rightarrow>
     (case strip_prefix ''# '' line of Some t \<Rightarrow> ([GHeading 1 (trim t)], None)
      | None \<Rightarrow>
     (case strip_prefix ''=>'' line of
        Some rest \<Rightarrow> (case gem_parse_link rest of Some l \<Rightarrow> [l] | None \<Rightarrow> [], None)
      | None \<Rightarrow>
     (case strip_prefix ''* '' line of Some t \<Rightarrow> ([GItem (trim t)], None)
      | None \<Rightarrow>
     (case strip_prefix ''> '' line of Some t \<Rightarrow> ([GQuote (trim t)], None)
      | None \<Rightarrow> if line = [] then ([GBlank], None) else ([GText line], None))))))))"

fun gem_step :: "gem_line list \<times> pre_state \<Rightarrow> string \<Rightarrow> gem_line list \<times> pre_state" where
  "gem_step (out, Some (alt, tx)) line =
     (if starts_with FENCE line then (out @ [GPre alt tx], None)
      else (out, Some (alt, tx @ line @ [LF])))"
| "gem_step (out, None) line = (case gem_classify line of (ls, pre) \<Rightarrow> (out @ ls, pre))"

definition parse_gemtext :: "string \<Rightarrow> gem_line list" where
  "parse_gemtext body =
     (case foldl gem_step ([], None) (str_lines body) of
        (out, Some (alt, tx)) \<Rightarrow> out @ [GPre alt tx]
      | (out, None) \<Rightarrow> out)"

section \<open>Rendering\<close>

fun render_gem :: "gem_line \<Rightarrow> string list" where
  "render_gem (GHeading n t) = [replicate n (CHR ''#'') @ CHR '' '' # t]"
| "render_gem (GText t) = [t]"
| "render_gem (GLink u l) = [''=> '' @ u @ (if l = [] then [] else CHR '' '' # l)]"
| "render_gem (GItem t) = [''* '' @ t]"
| "render_gem (GQuote t) = [''> '' @ t]"
| "render_gem (GPre alt tx) =
     (FENCE @ (case alt of Some a \<Rightarrow> a | None \<Rightarrow> [])) # str_lines tx @ [FENCE]"
| "render_gem GBlank = [[]]"

definition render_gemtext :: "gem_line list \<Rightarrow> string" where
  "render_gemtext ls = concat (map (\<lambda>l. l @ [LF]) (concat (map render_gem ls)))"

text \<open>The lines a document can hold.\<close>

definition one_line :: "string \<Rightarrow> bool" where
  "one_line t \<longleftrightarrow> LF \<notin> set t \<and> (t = [] \<or> last t \<noteq> CR)"

definition no_prefix :: "string \<Rightarrow> bool" where
  "no_prefix t \<longleftrightarrow> (\<forall>p \<in> set [FENCE, ''### '', ''## '', ''# '', ''=>'', ''* '', ''> '']. strip_prefix p t = None)"

fun gem_ok :: "gem_line \<Rightarrow> bool" where
  "gem_ok (GHeading n t) \<longleftrightarrow> n \<in> {1, 2, 3} \<and> trim t = t \<and> one_line t"
| "gem_ok (GText t) \<longleftrightarrow> t \<noteq> [] \<and> no_prefix t \<and> one_line t"
| "gem_ok (GLink u l) \<longleftrightarrow> u \<noteq> [] \<and> visible u \<and> trim l = l \<and> one_line l"
| "gem_ok (GItem t) \<longleftrightarrow> trim t = t \<and> one_line t"
| "gem_ok (GQuote t) \<longleftrightarrow> trim t = t \<and> one_line t"
| "gem_ok (GPre alt tx) \<longleftrightarrow>
     (case alt of Some a \<Rightarrow> a \<noteq> [] \<and> trim a = a \<and> one_line a | None \<Rightarrow> True) \<and>
     (\<exists>ls. tx = concat (map (\<lambda>l. l @ [LF]) ls) \<and> (\<forall>l \<in> set ls. one_line l \<and> \<not> starts_with FENCE l))"
| "gem_ok GBlank \<longleftrightarrow> True"

lemma str_lines_concat:
  "\<forall>l \<in> set ls. one_line l \<Longrightarrow> str_lines (concat (map (\<lambda>l. l @ [LF]) ls)) = ls"
  by (induction ls) (auto simp: one_line_def str_lines_lf strip_cr_id)

lemma foldl_pre:
  "\<forall>l \<in> set ls. \<not> starts_with FENCE l \<Longrightarrow>
     foldl gem_step (out, Some (alt, tx)) ls = (out, Some (alt, tx @ concat (map (\<lambda>l. l @ [LF]) ls)))"
  by (induction ls arbitrary: tx) auto

lemma starts_with_FENCE [simp]: "starts_with FENCE FENCE"
  by (simp add: starts_with_def)

lemma one_line_visible: "visible u \<Longrightarrow> one_line u"
proof (cases "u = []")
  case False
  moreover assume "visible u"
  ultimately show ?thesis
    unfolding one_line_def by (metis last_in_set visible_not_sp(2,3))
qed (simp add: one_line_def)

lemma one_line_append: "one_line t \<Longrightarrow> LF \<notin> set p \<Longrightarrow> p = [] \<or> last p \<noteq> CR \<Longrightarrow> one_line (p @ t)"
  by (cases "t = []") (auto simp: one_line_def)

lemma render_gem_one_line: "gem_ok g \<Longrightarrow> l \<in> set (render_gem g) \<Longrightarrow> one_line l"
proof (cases g)
  case (GHeading n t)
  moreover assume "gem_ok g" "l \<in> set (render_gem g)"
  ultimately show ?thesis
    using one_line_append [of t "replicate n (CHR ''#'') @ '' ''"] by auto
next
  case (GPre alt tx)
  assume g: "gem_ok g" "l \<in> set (render_gem g)"
  with GPre obtain ls where ls: "tx = concat (map (\<lambda>l. l @ [LF]) ls)" "\<forall>l \<in> set ls. one_line l"
    by auto
  then have "str_lines tx = ls" by (simp add: str_lines_concat)
  moreover have "one_line (FENCE @ a)" if "alt = Some a" for a
    using g(1) GPre that by (intro one_line_append) (auto simp: FENCE_def)
  moreover have "one_line FENCE" by (simp add: one_line_def FENCE_def)
  ultimately show ?thesis
    using g(2) GPre ls(2) by (auto split: option.splits)
next
  case (GLink u lb)
  assume g: "gem_ok g" "l \<in> set (render_gem g)"
  have "one_line (u @ (if lb = [] then [] else CHR '' '' # lb))"
    using g(1) GLink one_line_visible [of u] by (auto simp: one_line_def)
  then show ?thesis
    using g GLink one_line_append [of "u @ (if lb = [] then [] else CHR '' '' # lb)" "''=> ''"]
    by (auto split: if_splits)
qed (auto simp: one_line_def)

lemma classify_heading:
  "n \<in> {1, 2, 3} \<Longrightarrow> trim t = t \<Longrightarrow>
     gem_classify (replicate n (CHR ''#'') @ CHR '' '' # t) = ([GHeading n t], None)"
  by (auto simp: gem_classify_def FENCE_def numeral_2_eq_2 numeral_3_eq_3)

lemma gem_parse_link_render:
  assumes "u \<noteq> []" "visible u" "trim l = l"
  shows "gem_parse_link (CHR '' '' # u @ (if l = [] then [] else CHR '' '' # l)) = Some (GLink u l)"
proof -
  have t: "trim_start (CHR '' '' # u @ x) = u @ x" for x
    using assms by (simp add: trim_start_ws trim_start_visible)
  show ?thesis
    using assms t [of "[]"] t [of "CHR '' '' # l"]
    by (auto simp: gem_parse_link_def Let_def find_ws_visible find_ws_append trim_ws_Cons)
qed

lemma step_render:
  assumes "gem_ok g"
  shows "foldl gem_step (out, None) (render_gem g) = (out @ [g], None)"
proof (cases g)
  case (GHeading n t)
  with assms show ?thesis by (auto simp: classify_heading simp del: replicate.simps)
next
  case (GText t)
  with assms show ?thesis by (simp add: gem_classify_def no_prefix_def)
next
  case (GLink u l)
  have "strip_prefix ''=>'' (''=> '' @ u @ x) = Some (CHR '' '' # u @ x)" for x by simp
  with GLink assms gem_parse_link_render [of u l] show ?thesis
    by (simp add: gem_classify_def FENCE_def)
next
  case (GPre alt tx)
  then obtain ls where ls: "tx = concat (map (\<lambda>l. l @ [LF]) ls)" "\<forall>l \<in> set ls. one_line l"
      "\<forall>l \<in> set ls. \<not> starts_with FENCE l"
    using assms by auto
  have "trimmed_or_none (case alt of Some a \<Rightarrow> a | None \<Rightarrow> []) = alt"
    using assms GPre by (auto simp: trimmed_or_none_def split: option.splits)
  then have "gem_classify (FENCE @ (case alt of Some a \<Rightarrow> a | None \<Rightarrow> [])) = ([], Some (alt, []))"
    by (simp add: gem_classify_def)
  then show ?thesis
    using GPre ls by (simp add: str_lines_concat foldl_pre)
qed (use assms in \<open>simp_all add: gem_classify_def FENCE_def\<close>)

lemma foldl_render:
  "list_all gem_ok gs \<Longrightarrow> foldl gem_step (out, None) (concat (map render_gem gs)) = (out @ gs, None)"
  by (induction gs arbitrary: out) (auto simp: step_render)

text \<open>
  (C28) Gemtext parsing inverts rendering: for every list of well-formed lines (headings of level 1
  to 3, links whose URL has no white space, items, quotes, plain lines that start with none of
  the markers, blank lines, and preformatted blocks with arbitrary lines but a closing fence
  inside), the parser returns the same lines in the same order. In particular markers inside a
  preformatted block stay literal, and nothing is merged or dropped.
\<close>

theorem gemtext_roundtrip:
  assumes "list_all gem_ok gs"
  shows "parse_gemtext (render_gemtext gs) = gs"
proof -
  have "\<forall>l \<in> set (concat (map render_gem gs)). one_line l"
    using assms render_gem_one_line by (auto simp: list_all_iff)
  then show ?thesis
    using foldl_render [OF assms, of "[]"] by (simp add: parse_gemtext_def render_gemtext_def str_lines_concat)
qed

definition demo_gemtext :: "gem_line list" where
  "demo_gemtext = [GHeading 2 ''Hi'', GPre (Some ''c'') (''=> x'' @ [LF]), GLink ''/a'' ''b c'', GBlank, GText ''#x'']"

lemma gemtext_witness: "parse_gemtext (render_gemtext demo_gemtext) = demo_gemtext"
proof (rule gemtext_roundtrip)
  have t: "trim ''Hi'' = ''Hi''" "trim ''c'' = ''c''" "trim ''b c'' = ''b c''"
    by (rule trim_visible; simp add: ascii_def ascii_ws_def between_def)+
  have "\<exists>ls. ''=> x'' @ [LF] = concat (map (\<lambda>l. l @ [LF]) ls) \<and> (\<forall>l \<in> set ls. one_line l \<and> \<not> starts_with FENCE l)"
    by (rule exI [of _ "[''=> x'']"]) (simp add: one_line_def starts_with_def FENCE_def)
  then show "list_all gem_ok demo_gemtext"
    using t by (simp add: demo_gemtext_def one_line_def no_prefix_def FENCE_def ascii_def ascii_ws_def between_def)
qed

text \<open>Whatever is parsed, headings have a level from 1 to 3 and plain lines carry no marker.\<close>

lemma gem_classify_shape:
  "gem_classify line = (ls, pre) \<Longrightarrow> GHeading n t \<in> set ls \<Longrightarrow> n \<in> {1, 2, 3}"
  by (auto simp: gem_classify_def gem_parse_link_def Let_def split: option.splits if_splits)

end
