(* ===== verification/Rust_Io.thy ===== *)
theory Rust_Io
  imports Rust_Str
begin

text \<open>
  Byte streams as the protocol code sees them (\<open>AsyncRead\<close>/\<open>AsyncWrite\<close>): what remains to be
  read and how the stream ends, clean end of file or an I/O error. What a peer has sent is the
  list of bytes of the stream, however the transport cuts it into reads. A write either
  succeeds and extends the output or fails; where the code returns at the first failed write the
  model carries the outcome as a parameter.
\<close>

datatype stream_end = Eof | Broken

text \<open>Failures of the readers below, before a protocol wraps them into its own error type.\<close>

datatype read_failure = UnexpectedEof | ReadError | LineTooLong | NotUtf8

section \<open>Reading one line byte by byte\<close>

text \<open>
  The loop shared by the line readers: stop at LF, at end of file (an error on an empty line),
  and refuse a line that would grow beyond \<open>lim\<close> bytes. Returns the rest of the stream.
\<close>

fun line_loop :: "nat \<Rightarrow> string \<Rightarrow> string \<Rightarrow> stream_end \<Rightarrow> (read_failure + string) \<times> string" where
  "line_loop lim line [] e =
     (case e of Broken \<Rightarrow> (Inl ReadError, [])
      | Eof \<Rightarrow> (if line = [] then Inl UnexpectedEof else Inr line, []))"
| "line_loop lim line (c # cs) e =
     (if c = LF then (Inr line, cs)
      else if lim \<le> length line then (Inl LineTooLong, cs)
      else line_loop lim (line @ [c]) cs e)"

definition pop_cr :: "string \<Rightarrow> string" where
  "pop_cr line = (if line \<noteq> [] \<and> last line = CR then butlast line else line)"

lemma line_loop_append:
  "LF \<notin> set l \<Longrightarrow> length acc + length l \<le> lim \<Longrightarrow>
     line_loop lim acc (l @ LF # rest) e = (Inr (acc @ l), rest)"
  by (induction l arbitrary: acc) auto

lemma pop_cr_snoc [simp]: "pop_cr (l @ [CR]) = l"
  by (simp add: pop_cr_def)

lemma line_loop_crlf:
  "LF \<notin> set l \<Longrightarrow> length l < lim \<Longrightarrow>
     line_loop lim [] (l @ CRLF @ rest) e = (Inr (l @ [CR]), rest)"
  using line_loop_append [of "l @ [CR]" "[]" lim rest e] by simp

text \<open>A line that is returned is within the limit.\<close>

lemma line_loop_bound:
  "fst (line_loop lim acc s e) = Inr l \<Longrightarrow> length acc \<le> lim \<Longrightarrow> length l \<le> lim"
  by (induction lim acc s e rule: line_loop.induct)
    (auto split: if_splits stream_end.splits)

section \<open>Reading bodies\<close>

text \<open>\<open>read_exact\<close> into a buffer of \<open>n\<close> bytes.\<close>

definition read_exact :: "nat \<Rightarrow> string \<Rightarrow> stream_end \<Rightarrow> (read_failure + string) \<times> string" where
  "read_exact n s e =
     (if n \<le> length s then (Inr (take n s), drop n s)
      else (Inl (case e of Eof \<Rightarrow> UnexpectedEof | Broken \<Rightarrow> ReadError), []))"

text \<open>
  \<open>take(n).read_to_end\<close>: at most \<open>n\<close> bytes; the end of the stream is looked at only when fewer
  than \<open>n\<close> bytes arrived.
\<close>

definition read_capped :: "nat \<Rightarrow> string \<Rightarrow> stream_end \<Rightarrow> read_failure + string" where
  "read_capped n s e =
     (if n \<le> length s then Inr (take n s)
      else case e of Eof \<Rightarrow> Inr s | Broken \<Rightarrow> Inl ReadError)"

lemma read_exact_append [simp]: "length b = n \<Longrightarrow> read_exact n (b @ rest) e = (Inr b, rest)"
  by (auto simp: read_exact_def)

lemma read_exact_all [simp]: "length b = n \<Longrightarrow> read_exact n b e = (Inr b, [])"
  by (auto simp: read_exact_def)

lemma read_capped_all [simp]: "length b \<le> n \<Longrightarrow> read_capped n b Eof = Inr b"
  by (auto simp: read_capped_def)

end
