(* ===== verification/Rust_Int.thy ===== *)
theory Rust_Int
  imports Rust_Ascii Rust_Io
begin

text \<open>
  Signed integers as text (\<open>i64\<close>), \<open>splitn\<close>, \<open>trim_end_matches\<close> of the line-ending characters
  and the other byte-wise line reader: the length is checked after the byte is stored and the
  end of the stream ends the line.
\<close>

section \<open>Signed integers\<close>

abbreviation i64_max :: int where "i64_max \<equiv> 9223372036854775807"
abbreviation i64_min :: int where "i64_min \<equiv> -9223372036854775808"

definition show_int :: "int \<Rightarrow> string" where
  "show_int i = (if i < 0 then CHR ''-'' # show_nat (nat (- i)) else show_nat (nat i))"

definition digits_of :: "string \<Rightarrow> nat option" where
  "digits_of ds = (if ds = [] \<or> \<not> list_all is_digit ds then None else Some (nat_of_digits ds))"

definition parse_i64 :: "string \<Rightarrow> int option" where
  "parse_i64 s =
     (case s of [] \<Rightarrow> None
      | c # r \<Rightarrow>
          (case (if c = CHR ''-'' then map_option (\<lambda>n. - int n) (digits_of r)
                 else if c = CHR ''+'' then map_option int (digits_of r)
                 else map_option int (digits_of s)) of
             None \<Rightarrow> None
           | Some i \<Rightarrow> if i64_min \<le> i \<and> i \<le> i64_max then Some i else None))"

lemma digits_of_show_nat [simp]: "digits_of (show_nat n) = Some n"
  using show_nat_digits by (simp add: digits_of_def list_all_iff)

lemma parse_show_int [simp]: "i64_min \<le> i \<Longrightarrow> i \<le> i64_max \<Longrightarrow> parse_i64 (show_int i) = Some i"
proof (cases "i < 0")
  case False
  assume i: "i64_min \<le> i" "i \<le> i64_max"
  obtain c r where s: "show_nat (nat i) = c # r"
    by (cases "show_nat (nat i)") auto
  have "c \<noteq> CHR ''-''" "c \<noteq> CHR ''+''"
    using show_nat_notin(1,5) [of "nat i"] by (auto simp: s simp del: show_nat_notin)
  moreover have "digits_of (c # r) = Some (nat i)"
    using digits_of_show_nat [of "nat i"] by (simp add: s)
  ultimately show ?thesis
    using False i by (simp add: show_int_def s parse_i64_def)
qed (simp add: show_int_def parse_i64_def)

lemma visible_show_int [simp]: "visible (show_int i)"
  by (simp add: show_int_def ascii_def ascii_ws_def between_def)

lemma show_int_not_Nil [simp]: "show_int i \<noteq> []"
  by (simp add: show_int_def)

section \<open>Splitting into at most n pieces\<close>

fun splitn :: "nat \<Rightarrow> char \<Rightarrow> string \<Rightarrow> string list" where
  "splitn 0 c s = []"
| "splitn (Suc 0) c s = [s]"
| "splitn (Suc (Suc n)) c s =
     (case split_once c s of None \<Rightarrow> [s] | Some (a, b) \<Rightarrow> a # splitn (Suc n) c b)"

section \<open>Two-digit codes\<close>

lemma two_digits:
  assumes "10 \<le> n" "n < 100"
  shows "show_nat n = [digit_char (n div 10), digit_char (n mod 10)]"
    "is_digit (digit_char (n div 10))" "is_digit (digit_char (n mod 10))"
    "digit_val (digit_char (n div 10)) * 10 + digit_val (digit_char (n mod 10)) = n"
proof -
  have d: "n div 10 < 10" "n mod 10 < 10" using assms by auto
  then show "is_digit (digit_char (n div 10))" "is_digit (digit_char (n mod 10))"
    "digit_val (digit_char (n div 10)) * 10 + digit_val (digit_char (n mod 10)) = n"
    by simp_all
  show "show_nat n = [digit_char (n div 10), digit_char (n mod 10)]"
    using assms by (subst show_nat.simps, subst show_nat.simps) auto
qed

section \<open>Line endings\<close>

text \<open>\<open>trim_end_matches(['\r', '\n'])\<close>.\<close>

definition trim_newlines :: "string \<Rightarrow> string" where
  "trim_newlines s = rev (dropWhile (\<lambda>c. c = CR \<or> c = LF) (rev s))"

lemma trim_newlines_crlf [simp]: "trim_newlines (l @ CRLF) = trim_newlines l"
  by (simp add: trim_newlines_def)

lemma trim_newlines_cr [simp]: "trim_newlines (l @ [CR]) = trim_newlines l"
  by (simp add: trim_newlines_def)

lemma trim_newlines_id: "l = [] \<or> last l \<noteq> CR \<and> last l \<noteq> LF \<Longrightarrow> trim_newlines l = l"
  by (cases l rule: rev_cases) (auto simp: trim_newlines_def)

datatype pushed = Pushed string | PushOverlong | PushFailed

fun push_line :: "nat \<Rightarrow> string \<Rightarrow> string \<Rightarrow> stream_end \<Rightarrow> pushed \<times> string" where
  "push_line limit line [] e = (case e of Eof \<Rightarrow> Pushed line | Broken \<Rightarrow> PushFailed, [])"
| "push_line limit line (c # cs) e =
     (if c = LF then (Pushed line, cs)
      else if limit < length (line @ [c]) then (PushOverlong, cs)
      else push_line limit (line @ [c]) cs e)"

lemma push_line_append:
  "LF \<notin> set l \<Longrightarrow> length acc + length l \<le> limit \<Longrightarrow>
     push_line limit acc (l @ LF # rest) e = (Pushed (acc @ l), rest)"
  by (induction l arbitrary: acc) auto

lemma push_line_crlf:
  "LF \<notin> set l \<Longrightarrow> length l < limit \<Longrightarrow> push_line limit [] (l @ CR # LF # rest) e = (Pushed (l @ [CR]), rest)"
  using push_line_append [of "l @ [CR]" "[]" limit rest e] by simp

lemma push_line_overlong:
  "LF \<notin> set l \<Longrightarrow> limit < length acc + length l \<Longrightarrow> length acc \<le> limit \<Longrightarrow>
     fst (push_line limit acc (l @ rest) e) = PushOverlong"
  by (induction l arbitrary: acc) auto

end
