(* ===== verification/Gemini_Net.thy ===== *)
theory Gemini_Net
  imports Rust_Int Url_Iface
begin

text \<open>
  The Gemini exchange, both halves (\<open>crates/gemini-protocol/src/client.rs\<close>, \<open>server.rs\<close>) and
  the Titan upload (\<open>titan.rs\<close>). A connection is a byte stream; the third-party URL parser is
  the parameter \<open>up\<close>, its error texts \<open>why\<close>, and a client URL is given by its text (what
  \<open>{url}\<close> displays). Certificates are modelled in \<open>Gemini_Tofu\<close>.
\<close>

section \<open>Responses\<close>

datatype gemini_status =
  GInput | GSuccess | GRedirect | GTemporaryFailure | GPermanentFailure | GCertificateRequired

definition gemini_from_code :: "nat \<Rightarrow> gemini_status option" where
  "gemini_from_code code =
     (let d = code div 10 in
      if d = 1 then Some GInput else if d = 2 then Some GSuccess else if d = 3 then Some GRedirect
      else if d = 4 then Some GTemporaryFailure else if d = 5 then Some GPermanentFailure
      else if d = 6 then Some GCertificateRequired else None)"

record gemini_response =
  ge_status :: gemini_status
  ge_code :: nat
  ge_meta :: string
  ge_body :: string

definition gemini_mime :: "gemini_response \<Rightarrow> string option" where
  "gemini_mime r =
     (if ge_status r \<noteq> GSuccess then None
      else let m = trim (hd (split_all (CHR '';'') (ge_meta r))) in
           if m \<noteq> [] then Some m else None)"

text \<open>The errors; each reason of \<open>Protocol\<close> is a constructor.\<close>

datatype gemini_error =
    GemBadUrl | GemConnect | GemIo
  | GemNoCrlf | GemHeaderNotUtf8 | GemBadStatus string | GemUnknownClass nat | GemRequestTooLong
  | GemCertificateChanged string string string

definition gemini_parse_response :: "string \<Rightarrow> gemini_error + gemini_response" where
  "gemini_parse_response raw =
     (case split_crlf raw of None \<Rightarrow> Inl GemNoCrlf
      | Some (hb, body) \<Rightarrow>
        (case from_utf8 hb of None \<Rightarrow> Inl GemHeaderNotUtf8
         | Some hdr \<Rightarrow>
           (case hdr of
              d0 # d1 # rest \<Rightarrow>
                if \<not> is_digit d0 \<or> \<not> is_digit d1 then Inl (GemBadStatus hdr)
                else let code = digit_val d0 * 10 + digit_val d1; meta = trim_start rest in
                (case gemini_from_code code of None \<Rightarrow> Inl (GemUnknownClass code)
                 | Some st \<Rightarrow> Inr \<lparr>ge_status = st, ge_code = code, ge_meta = meta,
                                   ge_body = if st = GSuccess then body else []\<rparr>)
            | _ \<Rightarrow> Inl (GemBadStatus hdr))))"

definition GEMINI_MAX_REQUEST :: nat where "GEMINI_MAX_REQUEST = 1024"
definition GEMINI_DEFAULT_PORT :: nat where "GEMINI_DEFAULT_PORT = 1965"

text \<open>\<open>exchange\<close> with a peer that answers \<open>answer w\<close> to the bytes \<open>w\<close>, over a stream read to its end.\<close>

definition gemini_exchange ::
    "(string \<Rightarrow> string \<times> stream_end) \<Rightarrow> string \<Rightarrow> gemini_error + gemini_response" where
  "gemini_exchange answer u =
     (let request = u @ CRLF in
      if GEMINI_MAX_REQUEST < length request then Inl GemRequestTooLong
      else case answer request of
             (raw, Eof) \<Rightarrow> gemini_parse_response raw
           | (_, Broken) \<Rightarrow> Inl GemIo)"

section \<open>The server\<close>

record gemini_request =
  gq_url :: url
  gq_peer :: string

definition request_path :: "gemini_request \<Rightarrow> string" where
  "request_path r = url_path (gq_url r)"

definition request_query :: "gemini_request \<Rightarrow> string option" where
  "request_query r = url_query (gq_url r)"

record gemini_reply =
  gr_code :: nat
  gr_meta :: string
  gr_body :: string

definition gemini_header :: "nat \<Rightarrow> string \<Rightarrow> gemini_reply" where
  "gemini_header code meta = \<lparr>gr_code = code, gr_meta = meta, gr_body = []\<rparr>"

definition gemini_success :: "string \<Rightarrow> string \<Rightarrow> gemini_reply" where
  "gemini_success mime body = \<lparr>gr_code = 20, gr_meta = mime, gr_body = body\<rparr>"

definition gemini_gemtext :: "string \<Rightarrow> gemini_reply" where
  "gemini_gemtext body = gemini_success ''text/gemini'' body"

definition gemini_input :: "string \<Rightarrow> gemini_reply" where
  "gemini_input prompt = gemini_header 10 prompt"

definition gemini_redirect :: "string \<Rightarrow> gemini_reply" where
  "gemini_redirect target = gemini_header 30 target"

definition gemini_not_found :: "string \<Rightarrow> gemini_reply" where
  "gemini_not_found reason = gemini_header 51 reason"

definition reply_status :: "gemini_reply \<Rightarrow> gemini_status option" where
  "reply_status r = gemini_from_code (gr_code r)"

definition reply_header_line :: "gemini_reply \<Rightarrow> string" where
  "reply_header_line r = show_nat (gr_code r) @ '' '' @ gr_meta r @ CRLF"

definition gemini_write_reply :: "gemini_reply \<Rightarrow> string" where
  "gemini_write_reply r =
     reply_header_line r @ (if reply_status r = Some GSuccess then gr_body r else [])"

record gemini_config =
  gc_max_request_line :: nat

definition default_gemini_config :: gemini_config where
  "default_gemini_config = \<lparr>gc_max_request_line = 1024\<rparr>"

definition trim_eol :: "string \<Rightarrow> string" where
  "trim_eol s = rev (dropWhile (\<lambda>c. c = CR \<or> c = LF) (rev s))"

definition gemini_parse_request ::
    "url_parser \<Rightarrow> (string \<Rightarrow> string) \<Rightarrow> string \<Rightarrow> string + url" where
  "gemini_parse_request up why line =
     (case from_utf8 line of None \<Rightarrow> Inl ''request is not UTF-8''
      | Some t0 \<Rightarrow>
        let t = trim_eol t0 in
        (case up t of None \<Rightarrow> Inl (why t)
         | Some u \<Rightarrow>
             if url_scheme u \<noteq> ''gemini'' then Inl (''scheme '' @ url_scheme u @ '' is not gemini'')
             else if url_host u = None then Inl ''request has no host''
             else if url_fragment u \<noteq> None then Inl ''request carries a fragment''
             else Inr u))"

datatype line_read = LineRead string | LineOverlong | LineFailed

text \<open>The server's read loop: end of file ends the line, the length is checked after the push.\<close>

fun gemini_read_line :: "nat \<Rightarrow> string \<Rightarrow> string \<Rightarrow> stream_end \<Rightarrow> line_read" where
  "gemini_read_line limit line [] e = (case e of Eof \<Rightarrow> LineRead line | Broken \<Rightarrow> LineFailed)"
| "gemini_read_line limit line (c # cs) e =
     (if c = LF then LineRead line
      else if limit < length (line @ [c]) then LineOverlong
      else gemini_read_line limit (line @ [c]) cs e)"

text \<open>The bytes written, or \<open>None\<close> when the connection failed before an answer.\<close>

definition gemini_handle_connection ::
    "url_parser \<Rightarrow> (string \<Rightarrow> string) \<Rightarrow> (gemini_request \<Rightarrow> gemini_reply) \<Rightarrow> gemini_config \<Rightarrow> string \<Rightarrow>
     string \<Rightarrow> stream_end \<Rightarrow> string option" where
  "gemini_handle_connection up why handler cfg peer input e =
     (case gemini_read_line (gc_max_request_line cfg) [] input e of
        LineFailed \<Rightarrow> None
      | LineOverlong \<Rightarrow> Some (gemini_write_reply (gemini_header 59 ''request exceeds 1024 bytes''))
      | LineRead line \<Rightarrow>
          Some (gemini_write_reply
            (case gemini_parse_request up why line of
               Inr u \<Rightarrow> handler \<lparr>gq_url = u, gq_peer = peer\<rparr>
             | Inl reason \<Rightarrow> gemini_header 59 reason)))"

section \<open>Titan\<close>

definition titan_request_line :: "string \<Rightarrow> nat \<Rightarrow> string \<Rightarrow> string option \<Rightarrow> string" where
  "titan_request_line u n mime token =
     u @ '';size='' @ show_nat n
     @ (if mime \<noteq> [] then '';mime='' @ mime else [])
     @ (case token of Some t \<Rightarrow> '';token='' @ t | None \<Rightarrow> [])
     @ CRLF"

definition titan_upload ::
    "(string \<Rightarrow> string \<times> stream_end) \<Rightarrow> string \<Rightarrow> string \<Rightarrow> string \<Rightarrow> string option \<Rightarrow> gemini_error + gemini_response" where
  "titan_upload answer u body mime token =
     (case answer (titan_request_line u (length body) mime token @ (if body \<noteq> [] then body else [])) of
        (raw, Eof) \<Rightarrow> gemini_parse_response raw
      | (_, Broken) \<Rightarrow> Inl GemIo)"

definition titan_fetch :: "(string \<Rightarrow> string \<times> stream_end) \<Rightarrow> string \<Rightarrow> gemini_error + gemini_response" where
  "titan_fetch answer u = titan_upload answer u [] [] None"

section \<open>The exchange\<close>

text \<open>Replies that a header line can carry.\<close>

definition gemini_reply_ok :: "gemini_reply \<Rightarrow> bool" where
  "gemini_reply_ok r \<longleftrightarrow> 10 \<le> gr_code r \<and> gr_code r < 70 \<and>
     CR \<notin> set (gr_meta r) \<and> valid_utf8 (gr_meta r) \<and> ws_head (gr_meta r) = 0"

definition gemini_view :: "gemini_reply \<Rightarrow> gemini_response" where
  "gemini_view r = \<lparr>ge_status = the (reply_status r), ge_code = gr_code r, ge_meta = gr_meta r,
     ge_body = if reply_status r = Some GSuccess then gr_body r else []\<rparr>"

lemma gemini_from_code_Some: "10 \<le> c \<Longrightarrow> c < 70 \<Longrightarrow> gemini_from_code c \<noteq> None"
proof -
  assume "10 \<le> c" "c < 70"
  then have "1 \<le> c div 10" "c div 10 < 7" by auto
  then have "c div 10 \<in> {1, 2, 3, 4, 5, 6}" by auto
  then show ?thesis by (auto simp: gemini_from_code_def)
qed

lemma gemini_parse_write:
  assumes "gemini_reply_ok r"
  shows "gemini_parse_response (gemini_write_reply r) = Inr (gemini_view r)"
proof -
  let ?c = "gr_code r"
  let ?h = "digit_char (?c div 10) # digit_char (?c mod 10) # CHR '' '' # gr_meta r"
  have c: "10 \<le> ?c" "?c < 70" and m: "CR \<notin> set (gr_meta r)" "valid_utf8 (gr_meta r)" "ws_head (gr_meta r) = 0"
    using assms by (auto simp: gemini_reply_ok_def)
  have d: "?c div 10 < 10" "?c mod 10 < 10" using c by auto
  have dig: "is_digit (digit_char (?c div 10))" "is_digit (digit_char (?c mod 10))"
    using d by simp_all
  have "CR \<notin> set ?h"
    using m(1) digit_neq(2) [OF dig(1)] digit_neq(2) [OF dig(2)] by auto
  then have split: "split_crlf (gemini_write_reply r)
      = Some (?h, if reply_status r = Some GSuccess then gr_body r else [])"
    using split_crlf_append [OF split_crlf_no_CR, of ?h] c
    by (simp add: gemini_write_reply_def reply_header_line_def two_digits(1))
  have utf8: "from_utf8 ?h = Some ?h"
    using dig m(2) by (auto dest: is_digit_visible simp: ascii_def)
  obtain st where st: "gemini_from_code ?c = Some st"
    using gemini_from_code_Some [OF c] by auto
  have "digit_val (digit_char (?c div 10)) * 10 + digit_val (digit_char (?c mod 10)) = ?c"
    using d by simp
  then show ?thesis
    using dig st m(3)
    by (simp add: gemini_parse_response_def split utf8 gemini_view_def reply_status_def trim_start_ws
        trim_start_id ascii_ws_def)
qed

lemma gemini_read_line_append:
  "LF \<notin> set l \<Longrightarrow> length acc + length l \<le> limit \<Longrightarrow>
     gemini_read_line limit acc (l @ LF # rest) e = LineRead (acc @ l)"
  by (induction l arbitrary: acc) auto

lemma trim_eol_cr: "visible l \<Longrightarrow> trim_eol (l @ [CR]) = l"
proof (cases l rule: rev_cases)
  case (snoc xs x)
  assume "visible l"
  then have "x \<noteq> CR \<and> x \<noteq> LF"
    using snoc by (auto simp: ascii_ws_def between_def)
  then show ?thesis by (simp add: trim_eol_def snoc)
qed (simp add: trim_eol_def)

text \<open>
  Gemini end to end: for every handler and every URL that the parser accepts as a gemini URL
  with a host and no fragment and that fits the request limit, the server calls the handler with
  that URL, and the client receives the handler's reply: status class, code and meta unchanged,
  the whole body for a success and none otherwise.
\<close>

theorem gemini_exchange_correct:
  assumes "up u = Some v" "url_scheme v = ''gemini''" "url_host v \<noteq> None" "url_fragment v = None"
    and "visible u" "length u + 2 \<le> GEMINI_MAX_REQUEST"
    and "gemini_reply_ok (handler \<lparr>gq_url = v, gq_peer = peer\<rparr>)"
  shows "gemini_exchange (\<lambda>sent. (the (gemini_handle_connection up why handler default_gemini_config peer sent e), Eof)) u
    = Inr (gemini_view (handler \<lparr>gq_url = v, gq_peer = peer\<rparr>))"
proof -
  have line: "gemini_read_line 1024 [] (u @ CRLF) e = LineRead (u @ [CR])"
    using gemini_read_line_append [of "u @ [CR]" "[]" 1024 "[]" e] assms(5,6)
    by (simp add: GEMINI_MAX_REQUEST_def)
  have "valid_utf8 (u @ [CR])"
    by (rule valid_utf8_append) (simp_all add: visible_valid_utf8 assms(5) ascii_def)
  then have "from_utf8 (u @ [CR]) = Some (u @ [CR])"
    by (rule from_utf8_valid)
  then have req: "gemini_parse_request up why (u @ [CR]) = Inr v"
    using assms(1-4) trim_eol_cr [OF assms(5)] by (simp add: gemini_parse_request_def)
  show ?thesis
    using assms(6) gemini_parse_write [OF assms(7)]
    by (simp add: gemini_exchange_def Let_def gemini_handle_connection_def default_gemini_config_def line req)
qed

definition demo_url :: url where
  "demo_url = \<lparr>url_scheme = ''gemini'', url_host = Some ''h'', url_port = None, url_path = ''/'',
     url_query = None, url_fragment = None, url_username = []\<rparr>"

lemma gemini_exchange_witness:
  "gemini_exchange (\<lambda>sent. (the (gemini_handle_connection (\<lambda>_. Some demo_url) (\<lambda>_. []) (\<lambda>_. gemini_gemtext ''# Hi'')
       default_gemini_config [] sent Eof), Eof)) ''gemini://h/''
   = Inr \<lparr>ge_status = GSuccess, ge_code = 20, ge_meta = ''text/gemini'', ge_body = ''# Hi''\<rparr>"
proof -
  have "gemini_reply_ok (gemini_gemtext ''# Hi'')"
    by (simp add: gemini_reply_ok_def gemini_gemtext_def gemini_success_def ascii_valid_utf8 ascii_def
        ws_head_ascii ascii_ws_def between_def)
  moreover have "visible ''gemini://h/''"
    by (simp add: ascii_def ascii_ws_def between_def)
  ultimately show ?thesis
    using gemini_exchange_correct [of "\<lambda>_. Some demo_url" "''gemini://h/''" demo_url "\<lambda>_. gemini_gemtext ''# Hi''" "[]" "\<lambda>_. []" Eof]
    by (simp add: demo_url_def GEMINI_MAX_REQUEST_def gemini_view_def reply_status_def gemini_from_code_def
        gemini_gemtext_def gemini_success_def)
qed

text \<open>
  A URL of exactly 1024 bytes, which the limit means to admit, is refused: the carriage return
  of the line counts against it. Whatever the handler, the answer is status 59.
\<close>

theorem gemini_full_length_url_refused:
  assumes "length u = 1024" "LF \<notin> set u"
  shows "gemini_handle_connection up why handler default_gemini_config peer (u @ CRLF) e
    = Some (''59 request exceeds 1024 bytes'' @ CRLF)"
proof -
  have "gemini_read_line lim acc (u @ CR # r) e = LineOverlong"
    if "LF \<notin> set u" "length acc + length u = lim" for lim acc u r
    using that by (induction u arbitrary: acc) auto
  then have "gemini_read_line 1024 [] (u @ CRLF) e = LineOverlong"
    using assms by simp
  then show ?thesis
    by (simp add: gemini_handle_connection_def default_gemini_config_def gemini_write_reply_def
        gemini_header_def reply_header_line_def reply_status_def gemini_from_code_def show_nat.simps)
qed

lemma gemini_full_length_witness:
  "gemini_handle_connection (\<lambda>_. Some demo_url) (\<lambda>_. []) (\<lambda>_. gemini_gemtext ''# Hi'') default_gemini_config []
     (replicate 1024 (CHR ''a'') @ CRLF) Eof = Some (''59 request exceeds 1024 bytes'' @ CRLF)"
  by (rule gemini_full_length_url_refused) simp_all

end
