(* ===== verification/Gemini_Tofu.thy ===== *)
theory Gemini_Tofu
  imports Gemini_Net
begin

text \<open>
  Trust on first use (\<open>crates/gemini-protocol/src/tofu.rs\<close>, \<open>tls.rs\<close>, \<open>tofu_connect\<close> in
  \<open>client.rs\<close>): the pin stores, the certificate verifiers and the connection procedure. The
  digest is the parameter \<open>fp\<close>. rustls is the environment: as documented for
  \<open>ServerCertVerifier\<close> it presents the leaf certificate to \<open>verify_server_cert\<close> and the peer's
  handshake signature to \<open>verify_tls12_signature\<close> or \<open>verify_tls13_signature\<close>, and the
  handshake fails when either refuses (or for reasons of its own).
\<close>

section \<open>Stores\<close>

datatype tofu_store = InMemory "string \<rightharpoonup> string" | Permissive

fun store_fingerprint :: "tofu_store \<Rightarrow> string \<Rightarrow> string option" where
  "store_fingerprint (InMemory pins) host = pins host"
| "store_fingerprint Permissive host = None"

fun store_pin :: "tofu_store \<Rightarrow> string \<Rightarrow> string \<Rightarrow> tofu_store" where
  "store_pin (InMemory pins) host f = InMemory (pins(host \<mapsto> f))"
| "store_pin Permissive host f = Permissive"

definition in_memory_new :: tofu_store where
  "in_memory_new = InMemory Map.empty"

text \<open>The process-wide store: the last one installed, or the permissive one.\<close>

definition set_trust_store :: "tofu_store \<Rightarrow> tofu_store option" where
  "set_trust_store s = Some s"

definition trust_store :: "tofu_store option \<Rightarrow> tofu_store" where
  "trust_store g = (case g of Some s \<Rightarrow> s | None \<Rightarrow> Permissive)"

definition hex_digit :: "nat \<Rightarrow> char" where
  "hex_digit d = (if d < 10 then digit_char d else char_of (87 + d))"

definition hex :: "string \<Rightarrow> string" where
  "hex bs = concat (map (\<lambda>b. [hex_digit (bval b div 16), hex_digit (bval b mod 16)]) bs)"

section \<open>The verifiers\<close>

text \<open>What answers at the other end: its leaf certificate, whether it can sign with that
  certificate's key, whether the rest of the handshake and the TCP connection succeed.\<close>

record tls_peer =
  pe_cert :: string
  pe_holds_key :: bool
  pe_tcp :: bool
  pe_completes :: bool

text \<open>\<open>PinningVerifier::verify_server_cert\<close>: what it records as seen, and its verdict.\<close>

definition verify_server_cert :: "(string \<Rightarrow> string) \<Rightarrow> string option \<Rightarrow> string \<Rightarrow> string \<times> bool" where
  "verify_server_cert fp pinned cert =
     (let f = fp cert in
      (f, case pinned of None \<Rightarrow> True | Some p \<Rightarrow> if p = f then True else False))"

text \<open>Both signature methods answer \<open>HandshakeSignatureValid::assertion()\<close> for every signature.\<close>

definition verify_tls_signature :: "bool \<Rightarrow> bool" where
  "verify_tls_signature genuine = True"

text \<open>The handshake as rustls runs it with the verifier: success, and the recorded fingerprint.\<close>

definition pinning_handshake :: "(string \<Rightarrow> string) \<Rightarrow> string option \<Rightarrow> tls_peer \<Rightarrow> bool \<times> string option" where
  "pinning_handshake fp pinned peer =
     (case verify_server_cert fp pinned (pe_cert peer) of (seen, accept) \<Rightarrow>
        (accept \<and> verify_tls_signature (pe_holds_key peer) \<and> pe_completes peer, Some seen))"

text \<open>
  \<open>tofu_connect\<close> over the \<open>TofuStore\<close> trait's two methods: the result and the store afterwards.
\<close>

definition tofu_connect ::
    "('s \<Rightarrow> string \<Rightarrow> string option) \<Rightarrow> ('s \<Rightarrow> string \<Rightarrow> string \<Rightarrow> 's) \<Rightarrow> (string \<Rightarrow> string) \<Rightarrow>
     's \<Rightarrow> string \<Rightarrow> tls_peer \<Rightarrow> (gemini_error + unit) \<times> 's" where
  "tofu_connect get pin fp store host peer =
     (let pinned = get store host in
      if \<not> pe_tcp peer then (Inl GemConnect, store)
      else case pinning_handshake fp pinned peer of (ok, seen) \<Rightarrow>
        if \<not> ok then
          (case (pinned, seen) of
             (Some p, Some s) \<Rightarrow>
               if p \<noteq> s then (Inl (GemCertificateChanged host (hex p) (hex s)), store)
               else (Inl GemConnect, store)
           | _ \<Rightarrow> (Inl GemConnect, store))
        else (Inr (),
              case (pinned, seen) of (None, Some f) \<Rightarrow> pin store host f | _ \<Rightarrow> store))"

fun tofu_run ::
    "('s \<Rightarrow> string \<Rightarrow> string option) \<Rightarrow> ('s \<Rightarrow> string \<Rightarrow> string \<Rightarrow> 's) \<Rightarrow> (string \<Rightarrow> string) \<Rightarrow>
     's \<Rightarrow> (string \<times> tls_peer) list \<Rightarrow> 's" where
  "tofu_run get pin fp store [] = store"
| "tofu_run get pin fp store ((host, peer) # visits) =
     tofu_run get pin fp (snd (tofu_connect get pin fp store host peer)) visits"

section \<open>The contract of a store\<close>

text \<open>
  What a pinning store promises; \<open>durable\<close> singles out the states that keep pins at all (the
  permissive store keeps none).
\<close>

locale pin_store =
  fixes get :: "'s \<Rightarrow> string \<Rightarrow> string option"
    and pin :: "'s \<Rightarrow> string \<Rightarrow> string \<Rightarrow> 's"
    and durable :: "'s \<Rightarrow> bool"
  assumes durable_pin: "durable s \<Longrightarrow> durable (pin s h f)"
    and get_pin: "durable s \<Longrightarrow> get (pin s h f) h' = (if h' = h then Some f else get s h')"
begin

lemma connect_durable: "durable s \<Longrightarrow> durable (snd (tofu_connect get pin fp s h p))"
  by (auto simp: tofu_connect_def Let_def durable_pin split: prod.splits option.splits)

lemma connect_keeps:
  "durable s \<Longrightarrow> get s h' = Some f \<Longrightarrow> get (snd (tofu_connect get pin fp s h p)) h' = Some f"
  by (auto simp: tofu_connect_def Let_def get_pin split: prod.splits option.splits)

lemma connect_pinned:
  "get s h = Some f \<Longrightarrow> fst (tofu_connect get pin fp s h p) = Inr () \<Longrightarrow> fp (pe_cert p) = f"
  by (auto simp: tofu_connect_def pinning_handshake_def verify_server_cert_def Let_def
      split: if_splits option.splits)

lemma connect_first:
  "durable s \<Longrightarrow> get s h = None \<Longrightarrow> fst (tofu_connect get pin fp s h p) = Inr () \<Longrightarrow>
     get (snd (tofu_connect get pin fp s h p)) h = Some (fp (pe_cert p))"
  by (auto simp: tofu_connect_def pinning_handshake_def verify_server_cert_def Let_def get_pin
      split: if_splits option.splits)

lemma run_durable: "durable s \<Longrightarrow> durable (tofu_run get pin fp s vs)"
  by (induction vs arbitrary: s) (auto simp: connect_durable)

lemma run_keeps: "durable s \<Longrightarrow> get s h = Some f \<Longrightarrow> get (tofu_run get pin fp s vs) h = Some f"
  by (induction vs arbitrary: s) (auto simp: connect_durable connect_keeps)

text \<open>After a first contact, whatever else is visited, only the same certificate is accepted.\<close>

lemma trust_on_first_use:
  assumes "durable s" "get s h = None" "fst (tofu_connect get pin fp s h p) = Inr ()"
    and "s' = tofu_run get pin fp (snd (tofu_connect get pin fp s h p)) vs"
    and "fst (tofu_connect get pin fp s' h q) = Inr ()"
  shows "fp (pe_cert q) = fp (pe_cert p)"
  using connect_pinned [OF _ assms(5)] run_keeps connect_durable connect_first assms(1-4) by metis

end

definition is_in_memory :: "tofu_store \<Rightarrow> bool" where
  "is_in_memory s \<longleftrightarrow> (\<exists>m. s = InMemory m)"

interpretation tofu: pin_store store_fingerprint store_pin is_in_memory
  by unfold_locales (auto simp: is_in_memory_def)

text \<open>
  Trust on first use: with the in-memory store, once a host has been connected to, then after
  any visits to any hosts, a connection to it succeeds only if the certificate it presents has
  the fingerprint of that first contact; any other certificate is reported as changed, with both
  fingerprints, and no byte of a request is sent.
\<close>

theorem gemini_trust_on_first_use:
  assumes "is_in_memory s" "store_fingerprint s h = None"
    and "fst (tofu_connect store_fingerprint store_pin fp s h p) = Inr ()"
    and "s' = tofu_run store_fingerprint store_pin fp
               (snd (tofu_connect store_fingerprint store_pin fp s h p)) visits"
    and "pe_tcp q"
  shows "fst (tofu_connect store_fingerprint store_pin fp s' h q) =
    (if fp (pe_cert q) \<noteq> fp (pe_cert p)
     then Inl (GemCertificateChanged h (hex (fp (pe_cert p))) (hex (fp (pe_cert q))))
     else if pe_completes q then Inr () else Inl GemConnect)"
proof -
  have "store_fingerprint s' h = Some (fp (pe_cert p))"
    using tofu.run_keeps tofu.connect_durable tofu.connect_first assms(1-4) by metis
  then show ?thesis
    using assms(5)
    by (auto simp: tofu_connect_def pinning_handshake_def verify_server_cert_def verify_tls_signature_def Let_def)
qed

text \<open>
  Pinning does not authenticate: the verifier accepts every handshake signature, so a peer
  that presents a copy of the pinned certificate, which is public, is accepted without holding
  its private key, and exactly like the host itself.
\<close>

theorem gemini_pin_without_key:
  assumes "store_fingerprint s h = Some (fp cert)"
  shows "tofu_connect store_fingerprint store_pin fp s h
      \<lparr>pe_cert = cert, pe_holds_key = False, pe_tcp = True, pe_completes = True\<rparr> = (Inr (), s)"
  using assms
  by (simp add: tofu_connect_def pinning_handshake_def verify_server_cert_def verify_tls_signature_def)

definition demo_peer :: "string \<Rightarrow> tls_peer" where
  "demo_peer c = \<lparr>pe_cert = c, pe_holds_key = True, pe_tcp = True, pe_completes = True\<rparr>"

lemma gemini_trust_on_first_use_witness:
  "fst (tofu_connect store_fingerprint store_pin (\<lambda>c. c)
      (tofu_run store_fingerprint store_pin (\<lambda>c. c)
        (snd (tofu_connect store_fingerprint store_pin (\<lambda>c. c) in_memory_new ''h'' (demo_peer ''A'')))
        [(''g'', demo_peer ''B'')]) ''h'' (demo_peer ''C''))
    = Inl (GemCertificateChanged ''h'' ''41'' ''43'')"
  using gemini_trust_on_first_use [of in_memory_new "''h''" "\<lambda>c. c" "demo_peer ''A''" _ "[(''g'', demo_peer ''B'')]" "demo_peer ''C''", OF _ _ _ refl]
  by (simp add: in_memory_new_def is_in_memory_def demo_peer_def tofu_connect_def pinning_handshake_def
      verify_server_cert_def verify_tls_signature_def hex_def hex_digit_def)

lemma gemini_pin_without_key_witness:
  "tofu_connect store_fingerprint store_pin (\<lambda>c. c) (InMemory [''h'' \<mapsto> ''A'']) ''h''
     \<lparr>pe_cert = ''A'', pe_holds_key = False, pe_tcp = True, pe_completes = True\<rparr>
   = (Inr (), InMemory [''h'' \<mapsto> ''A''])"
  by (rule gemini_pin_without_key) simp

end
