(* ===== verification/Rust_Words.thy ===== *)
theory Rust_Words
  imports Rust_Int
begin

text \<open>
  Joining strings with a separator (\<open>join\<close>) and the words of a line: \<open>split_whitespace\<close> on text made
  of visible words.
\<close>

fun join_with :: "string \<Rightarrow> string list \<Rightarrow> string" where
  "join_with sep [] = []"
| "join_with sep [p] = p"
| "join_with sep (p # q # ps) = p @ sep @ join_with sep (q # ps)"

lemma join_with_Cons: "ps \<noteq> [] \<Longrightarrow> join_with sep (p # ps) = p @ sep @ join_with sep ps"
  by (cases ps) auto

lemma join_with_append:
  "ps \<noteq> [] \<Longrightarrow> qs \<noteq> [] \<Longrightarrow> join_with sep (ps @ qs) = join_with sep ps @ sep @ join_with sep qs"
  by (induction sep ps rule: join_with.induct) (auto simp: join_with_Cons)

lemma join_visible: "\<forall>l \<in> set ls. visible l \<Longrightarrow> visible (join_with '','' ls)"
  by (induction "'',''" ls rule: join_with.induct) (auto simp: ascii_def ascii_ws_def between_def)

lemma hd_join: "ls \<noteq> [] \<Longrightarrow> hd ls \<noteq> [] \<Longrightarrow> join_with sep ls \<noteq> [] \<and> hd (join_with sep ls) = hd (hd ls)"
  by (induction sep ls rule: join_with.induct) auto

definition is_word :: "string \<Rightarrow> bool" where
  "is_word w \<longleftrightarrow> visible w \<and> w \<noteq> []"

lemma split_whitespace_Nil [simp]: "split_whitespace [] = []"
  by (subst split_whitespace.simps) (simp add: trim_start_id)

lemma split_whitespace_ws: "ascii_ws c \<Longrightarrow> split_whitespace (c # s) = split_whitespace s"
  by (subst (1 2) split_whitespace.simps) (simp add: trim_start_ws)

lemma split_whitespace_word: "is_word w \<Longrightarrow> split_whitespace w = [w]"
  using trim_start_visible [of w "[]"] by (subst split_whitespace.simps) (auto simp: is_word_def find_ws_visible)

lemma split_whitespace_append:
  assumes "is_word w" "ascii_ws c"
  shows "split_whitespace (w @ c # s) = w # split_whitespace s"
proof -
  have "split_whitespace (w @ c # s) = w # split_whitespace (c # s)"
    using assms trim_start_visible [of w "c # s"]
    by (subst split_whitespace.simps) (auto simp: is_word_def find_ws_append)
  with assms(2) show ?thesis by (simp add: split_whitespace_ws)
qed

lemma split_whitespace_join:
  "\<forall>w \<in> set ws. is_word w \<Longrightarrow> split_whitespace (join_with '' '' ws) = ws"
proof (induction ws)
  case (Cons w ws)
  then show ?case
    by (cases "ws = []") (auto simp: split_whitespace_word join_with_Cons split_whitespace_append)
qed simp

lemma set_join_with: "set (join_with sep ws) \<subseteq> set sep \<union> (\<Union>w \<in> set ws. set w)"
  by (induction sep ws rule: join_with.induct) auto

lemma join_words_no_eol:
  assumes "\<forall>w \<in> set ws. is_word w"
  shows "LF \<notin> set (join_with '' '' ws)" "CR \<notin> set (join_with '' '' ws)"
proof -
  have "LF \<notin> set w" "CR \<notin> set w" if "w \<in> set ws" for w
    using that assms visible_not_sp(2,3) by (auto simp: is_word_def)
  then show "LF \<notin> set (join_with '' '' ws)" "CR \<notin> set (join_with '' '' ws)"
    using set_join_with [of "'' ''" ws] by fastforce+
qed

section \<open>Text as lines\<close>

text \<open>A line that \<open>lines\<close> gives back as it was written.\<close>

definition line_safe :: "string \<Rightarrow> bool" where
  "line_safe l \<longleftrightarrow> LF \<notin> set l \<and> (l = [] \<or> last l \<noteq> CR)"

lemma str_lines_all:
  "\<forall>l \<in> set ls. line_safe l \<Longrightarrow> str_lines (concat (map (\<lambda>l. l @ [LF]) ls) @ s) = ls @ str_lines s"
  by (induction ls) (simp_all add: str_lines_lf strip_cr_id line_safe_def)

lemma str_lines_join:
  assumes "\<forall>l \<in> set ls. line_safe l" "ls \<noteq> [] \<Longrightarrow> last ls \<noteq> []"
  shows "str_lines (join_with [LF] ls) = ls"
proof (cases ls rule: rev_cases)
  case (snoc init l)
  have "join_with [LF] ls = concat (map (\<lambda>l. l @ [LF]) init) @ l"
    unfolding snoc by (induction init) (simp_all add: join_with_Cons)
  then show ?thesis
    using assms snoc str_lines_all [of init l] by (simp add: str_lines_single line_safe_def)
qed simp

section \<open>UTF-8 around ASCII characters\<close>

lemma utf8_step_cont:
  assumes "utf8_step s = Inr n" "1 \<le> i" "i < n"
  shows "\<not> ascii (byte_at s i)"
proof -
  have "n \<le> 4" using assms(1) utf8_step_bounds by blast
  with assms(2,3) have "i = 1 \<or> i = 2 \<or> i = 3" by auto
  then show ?thesis
    using assms(1,3)
    by (auto simp: utf8_step_def Let_def ascii_def cont_def second_ok_def between_def split: if_splits)
qed

lemma utf8_step_prefix:
  assumes "utf8_step (a @ t) = Inr n" "n \<le> length a"
  shows "utf8_step a = Inr n"
proof -
  have n: "1 \<le> n" using assms(1) utf8_step_bounds by blast
  have b: "byte_at (a @ t) i = byte_at a i" if "i < n" for i
    using that assms(2) by (intro byte_at_append) simp
  have 0: "byte_at (a @ t) 0 = byte_at a 0" using n by (intro b) simp
  show ?thesis
    using assms(1) b by (auto simp: utf8_step_def Let_def 0 split: if_splits)
qed

lemma valid_utf8_split_ascii:
  assumes "valid_utf8 (a @ c # b)" "ascii c"
  shows "valid_utf8 a \<and> valid_utf8 b"
  using assms
proof (induction "length a" arbitrary: a rule: less_induct)
  case less
  show ?case
  proof (cases "a = []")
    case True
    with less.prems show ?thesis by simp
  next
    case False
    have "valid_utf8 (a @ c # b)" by (rule less.prems(1))
    then obtain n where n: "utf8_step (a @ c # b) = Inr n" "valid_utf8 (drop n (a @ c # b))"
      using False by (subst (asm) valid_utf8.simps) (auto split: sum.splits)
    have "n \<le> length a"
    proof (rule ccontr)
      assume "\<not> n \<le> length a"
      moreover have "byte_at (a @ c # b) (length a) = c" by (simp add: byte_at_def)
      ultimately show False
        using utf8_step_cont [OF n(1), of "length a"] False less.prems(2) by (cases a) auto
    qed
    moreover have "1 \<le> n" using n(1) utf8_step_bounds by blast
    ultimately have "valid_utf8 (drop n a) \<and> valid_utf8 b"
      using less.hyps [of "drop n a"] n(2) less.prems(2) False by simp
    moreover have "utf8_step a = Inr n"
      using n(1) \<open>n \<le> length a\<close> by (rule utf8_step_prefix)
    ultimately show ?thesis
      using False by (subst valid_utf8.simps) simp
  qed
qed

end
