(* ===== verification/Scroll_Wire.thy ===== *)
theory Scroll_Wire
  imports Rust_Words Url_Iface Gemini_Tofu
begin

text \<open>
  Scroll's grammar and client (\<open>crates/scroll-protocol/src/wire.rs\<close>, \<open>client.rs\<close>): requests with
  the reader's languages and the metadata flag, the status line, the three metadata lines of a
  success, and the exchange over a stream.
\<close>

section \<open>Grammar\<close>

datatype scroll_status =
    SInput | SSuccess | SRedirect | STemporaryFailure | SPermanentFailure | SCertificateRequired

definition scroll_from_code :: "nat \<Rightarrow> scroll_status option" where
  "scroll_from_code code =
     (let d = code div 10 in
      if d = 1 then Some SInput else if d = 2 then Some SSuccess else if d = 3 then Some SRedirect
      else if d = 4 then Some STemporaryFailure else if d = 5 then Some SPermanentFailure
      else if d = 6 then Some SCertificateRequired else None)"

datatype udc_class =
    UScience | UPhilosophy | UReligion | USocialSciences | UGeneral | UMathematics
  | UAppliedScience | UArts | ULiterature | UHistory

definition udc_from_code :: "nat \<Rightarrow> udc_class option" where
  "udc_from_code code =
     (if \<not> (20 \<le> code \<and> code < 30) then None
      else let d = code mod 10 in
        Some (if d = 0 then UScience else if d = 1 then UPhilosophy else if d = 2 then UReligion
              else if d = 3 then USocialSciences else if d = 4 then UGeneral else if d = 5 then UMathematics
              else if d = 6 then UAppliedScience else if d = 7 then UArts else if d = 8 then ULiterature
              else UHistory))"

definition scroll_request_line :: "string \<Rightarrow> string list \<Rightarrow> bool \<Rightarrow> string" where
  "scroll_request_line uri languages metadata =
     uri @ '' '' @ (if metadata then ''+'' else []) @ join_with '','' languages @ CRLF"

record scroll_request =
  sq_uri :: string
  sq_languages :: "string list"
  sq_metadata :: bool

text \<open>U+FEFF in UTF-8.\<close>

definition BOM :: string where "BOM = [CHR 0xEF, CHR 0xBB, CHR 0xBF]"

definition scroll_parse_request :: "string \<Rightarrow> scroll_request option" where
  "scroll_parse_request line0 =
     (let line = trim_newlines line0 in
      if starts_with BOM line then None
      else case (case split_once (CHR '' '') line of Some p \<Rightarrow> p | None \<Rightarrow> (line, [])) of
        (uri, rest) \<Rightarrow>
          if uri = [] then None
          else (case (case strip_prefix ''+'' rest of Some l \<Rightarrow> (True, l) | None \<Rightarrow> (False, rest)) of
            (metadata, lst) \<Rightarrow>
              Some \<lparr>sq_uri = uri,
                    sq_languages = filter (\<lambda>l. l \<noteq> []) (map trim (split_all (CHR '','') lst)),
                    sq_metadata = metadata\<rparr>))"

record success_header =
  sh_code :: nat
  sh_mimetype :: string
  sh_author :: "string option"
  sh_published :: "string option"
  sh_modified :: "string option"

definition success_class :: "success_header \<Rightarrow> udc_class option" where
  "success_class h = udc_from_code (sh_code h)"

datatype scroll_header = SHSuccess success_header | SHMeta nat scroll_status string

definition parse_status_line :: "string \<Rightarrow> string + nat \<times> scroll_status \<times> string" where
  "parse_status_line line0 =
     (let line = trim_newlines line0 in
      case line of
        d0 # d1 # tail \<Rightarrow>
          if \<not> is_digit d0 \<or> \<not> is_digit d1 then Inl line
          else let code = digit_val d0 * 10 + digit_val d1 in
          (case scroll_from_code code of None \<Rightarrow> Inl line
           | Some st \<Rightarrow> Inr (code, st, trim_start tail))
      | _ \<Rightarrow> Inl line)"

definition optional_line :: "string \<Rightarrow> string option" where
  "optional_line line = (let l = trim (trim_newlines line) in if l \<noteq> [] then Some l else None)"

definition finish_success :: "nat \<Rightarrow> string \<Rightarrow> string \<Rightarrow> string \<Rightarrow> string \<Rightarrow> success_header" where
  "finish_success code mimetype author published modified =
     \<lparr>sh_code = code, sh_mimetype = mimetype, sh_author = optional_line author,
      sh_published = optional_line published, sh_modified = optional_line modified\<rparr>"

section \<open>The client\<close>

datatype scroll_error =
    ScBadUrl | ScConnect | ScIo | ScProtocol string | ScCertificateChanged string string string

text \<open>\<open>From\<close> the Gemini error; the reasons of \<open>Protocol\<close> become one message each.\<close>

fun scroll_from_gemini :: "gemini_error \<Rightarrow> scroll_error" where
  "scroll_from_gemini GemBadUrl = ScBadUrl"
| "scroll_from_gemini GemConnect = ScConnect"
| "scroll_from_gemini GemIo = ScIo"
| "scroll_from_gemini (GemCertificateChanged h p s) = ScCertificateChanged h p s"
| "scroll_from_gemini GemNoCrlf = ScProtocol ''response header has no CRLF''"
| "scroll_from_gemini GemHeaderNotUtf8 = ScProtocol ''response header is not UTF-8''"
| "scroll_from_gemini (GemBadStatus h) = ScProtocol (''bad gemini status: '' @ h)"
| "scroll_from_gemini (GemUnknownClass n) = ScProtocol (''unknown gemini status class: '' @ show_nat n)"
| "scroll_from_gemini GemRequestTooLong = ScProtocol ''request exceeds 1024 bytes''"

record scroll_response =
  sr_header :: scroll_header
  sr_body :: string

definition scroll_read_line :: "string \<Rightarrow> stream_end \<Rightarrow> (scroll_error + string) \<times> string" where
  "scroll_read_line input e =
     (case push_line 4096 [] input e of
        (PushFailed, rest) \<Rightarrow> (Inl ScIo, rest)
      | (PushOverlong, rest) \<Rightarrow> (Inl (ScProtocol ''header line is unreasonable''), rest)
      | (Pushed l, rest) \<Rightarrow>
          (case from_utf8 l of None \<Rightarrow> (Inl (ScProtocol ''header is not UTF-8''), rest)
           | Some t \<Rightarrow> (Inr t, rest)))"

definition scroll_exchange ::
    "(string \<Rightarrow> string \<times> stream_end) \<Rightarrow> string \<Rightarrow> string list \<Rightarrow> bool \<Rightarrow> scroll_error + scroll_response" where
  "scroll_exchange answer u languages metadata =
     (case answer (scroll_request_line u languages metadata) of (i0, e) \<Rightarrow>
      case scroll_read_line i0 e of (Inl x, _) \<Rightarrow> Inl x | (Inr status_line, i1) \<Rightarrow>
      case parse_status_line status_line of Inl m \<Rightarrow> Inl (ScProtocol m) | Inr (code, st, meta) \<Rightarrow>
      if st \<noteq> SSuccess then Inr \<lparr>sr_header = SHMeta code st meta, sr_body = []\<rparr>
      else
      case scroll_read_line i1 e of (Inl x, _) \<Rightarrow> Inl x | (Inr author, i2) \<Rightarrow>
      case scroll_read_line i2 e of (Inl x, _) \<Rightarrow> Inl x | (Inr published, i3) \<Rightarrow>
      case scroll_read_line i3 e of (Inl x, _) \<Rightarrow> Inl x | (Inr modified, body) \<Rightarrow>
      case e of Broken \<Rightarrow> Inl ScIo
      | Eof \<Rightarrow> Inr \<lparr>sr_header = SHSuccess (finish_success code meta author published modified), sr_body = body\<rparr>)"

definition SCROLL_PORT :: nat where "SCROLL_PORT = 5699"

text \<open>\<open>fetch\<close>: \<open>dial host port\<close> is the result of \<open>tofu_connect\<close> and the peer it reached.\<close>

definition scroll_fetch ::
    "url_parser \<Rightarrow> (string \<Rightarrow> nat \<Rightarrow> gemini_error + (string \<Rightarrow> string \<times> stream_end)) \<Rightarrow>
     string \<Rightarrow> string list \<Rightarrow> bool \<Rightarrow> scroll_error + scroll_response" where
  "scroll_fetch up dial u languages metadata =
     (case up u of None \<Rightarrow> Inl ScBadUrl
      | Some p \<Rightarrow>
          if url_scheme p \<noteq> ''scroll'' then Inl ScBadUrl
          else (case url_host p of None \<Rightarrow> Inl ScBadUrl
           | Some host \<Rightarrow>
             (case dial host (case url_port p of Some n \<Rightarrow> n | None \<Rightarrow> SCROLL_PORT) of
                Inl x \<Rightarrow> Inl (scroll_from_gemini x)
              | Inr answer \<Rightarrow> scroll_exchange answer u languages metadata)))"

section \<open>Requests\<close>

definition language_ok :: "string \<Rightarrow> bool" where
  "language_ok l \<longleftrightarrow> l \<noteq> [] \<and> visible l \<and> CHR '','' \<notin> set l \<and> hd l \<noteq> CHR ''+''"

lemma split_all_join:
  "ls \<noteq> [] \<Longrightarrow> \<forall>l \<in> set ls. CHR '','' \<notin> set l \<Longrightarrow> split_all (CHR '','') (join_with '','' ls) = ls"
  by (induction "'',''" ls rule: join_with.induct) auto

lemma last_visible': "visible s \<Longrightarrow> s \<noteq> [] \<Longrightarrow> last s \<noteq> CR \<and> last s \<noteq> LF"
  by (metis last_in_set visible_not_sp(2,3))

text \<open>
  \<open>parse_request\<close> inverts \<open>request_line\<close>: the URI, every language in its order of preference
  and the metadata flag arrive unchanged, for languages that are non-empty visible tokens without
  commas and without a leading plus.
\<close>

theorem scroll_request_roundtrip:
  assumes "uri \<noteq> []" "visible uri" "list_all language_ok ls" "ls \<noteq> [] \<or> metadata"
  shows "scroll_parse_request (scroll_request_line uri ls metadata) =
    Some \<lparr>sq_uri = uri, sq_languages = ls, sq_metadata = metadata\<rparr>"
proof -
  let ?lst = "join_with '','' ls"
  let ?plus = "if metadata then ''+'' else []"
  let ?line = "uri @ CHR '' '' # ?plus @ ?lst"
  have vis: "visible ?lst"
    using assms(3) by (intro join_visible) (auto simp: list_all_iff language_ok_def)
  have "last ?line \<noteq> CR \<and> last ?line \<noteq> LF"
    using last_visible' [OF vis] by (cases "?lst = []") auto
  then have trim: "trim_newlines (scroll_request_line uri ls metadata) = ?line"
    using trim_newlines_crlf [of ?line] by (simp add: scroll_request_line_def trim_newlines_id)
  have bom: "\<not> starts_with BOM ?line"
    using assms(1,2) by (cases uri) (auto simp: starts_with_def BOM_def ascii_def)
  have sp: "split_once (CHR '' '') ?line = Some (uri, ?plus @ ?lst)"
    using assms(2) by simp
  have langs: "filter (\<lambda>l. l \<noteq> []) (map trim (split_all (CHR '','') ?lst)) = ls"
  proof (cases "ls = []")
    case False
    have "map trim ls = ls" "filter (\<lambda>l. l \<noteq> []) ls = ls"
      using assms(3) by (auto simp: list_all_iff language_ok_def visible_trim intro: map_idI filter_True)
    moreover have "split_all (CHR '','') ?lst = ls"
      using False assms(3) by (intro split_all_join) (auto simp: list_all_iff language_ok_def)
    ultimately show ?thesis by metis
  qed simp
  have "(case strip_prefix ''+'' (?plus @ ?lst) of Some l \<Rightarrow> (True, l) | None \<Rightarrow> (False, ?plus @ ?lst)) = (metadata, ?lst)"
  proof (cases metadata)
    case False
    with assms(4) have "ls \<noteq> []" by simp
    then obtain l ls' where "ls = l # ls'" by (cases ls) auto
    then have "?lst \<noteq> []" "hd ?lst \<noteq> CHR ''+''"
      using hd_join [of ls "'',''"] assms(3) by (auto simp: language_ok_def)
    with False show ?thesis by (cases ?lst) auto
  qed simp
  then show ?thesis
    using assms(1) by (simp add: scroll_parse_request_def trim bom sp langs)
qed

section \<open>The exchange\<close>

text \<open>What a server writes: a success with its three metadata lines, or a status line.\<close>

definition opt_text :: "string option \<Rightarrow> string" where
  "opt_text x = (case x of Some t \<Rightarrow> t | None \<Rightarrow> [])"

fun scroll_write :: "scroll_header \<Rightarrow> string \<Rightarrow> string" where
  "scroll_write (SHSuccess h) body =
     show_nat (sh_code h) @ '' '' @ sh_mimetype h @ CRLF @ opt_text (sh_author h) @ CRLF
     @ opt_text (sh_published h) @ CRLF @ opt_text (sh_modified h) @ CRLF @ body"
| "scroll_write (SHMeta code st meta) body = show_nat code @ '' '' @ meta @ CRLF"

definition field_ok :: "string \<Rightarrow> bool" where
  "field_ok t \<longleftrightarrow> valid_utf8 t \<and> LF \<notin> set t \<and> (t = [] \<or> last t \<noteq> CR) \<and> ws_head t = 0 \<and> length t < 4000"

definition option_ok :: "string option \<Rightarrow> bool" where
  "option_ok x \<longleftrightarrow> (case x of Some t \<Rightarrow> field_ok t \<and> t \<noteq> [] \<and> trim t = t | None \<Rightarrow> True)"

fun sheader_ok :: "scroll_header \<Rightarrow> bool" where
  "sheader_ok (SHSuccess h) \<longleftrightarrow> 20 \<le> sh_code h \<and> sh_code h < 30 \<and> field_ok (sh_mimetype h) \<and>
     option_ok (sh_author h) \<and> option_ok (sh_published h) \<and> option_ok (sh_modified h)"
| "sheader_ok (SHMeta code st meta) \<longleftrightarrow> scroll_from_code code = Some st \<and> st \<noteq> SSuccess \<and> field_ok meta"

lemma field_read_line:
  assumes "valid_utf8 l" "LF \<notin> set l" "length l < 4096"
  shows "scroll_read_line (l @ CR # LF # rest) e = (Inr (l @ [CR]), rest)"
proof -
  have "valid_utf8 (l @ [CR])"
    using valid_utf8_append [OF assms(1), of "[CR]"] by (simp add: ascii_def)
  then show ?thesis
    using push_line_crlf [OF assms(2,3), of rest e] by (simp add: scroll_read_line_def)
qed

lemma status_line_read:
  assumes "scroll_from_code code = Some st" "field_ok meta"
  shows "\<exists>l. scroll_read_line (show_nat code @ '' '' @ meta @ CRLF @ rest) e = (Inr l, rest)
    \<and> parse_status_line l = Inr (code, st, meta)"
proof -
  have code: "10 \<le> code" "code < 100"
    using assms(1) by (auto simp: scroll_from_code_def Let_def split: if_splits)
  note digits = two_digits [OF code]
  let ?l = "show_nat code @ CHR '' '' # meta"
  have "valid_utf8 ?l" "LF \<notin> set ?l" "length ?l < 4096"
    using assms(2) valid_utf8_append [OF valid_utf8_show_nat, of "CHR '' '' # meta" code]
      digit_neq(3) [OF digits(2)] digit_neq(3) [OF digits(3)]
    by (simp_all add: field_ok_def ascii_def digits(1))
  then have read: "scroll_read_line (?l @ CR # LF # rest) e = (Inr (?l @ [CR]), rest)"
    by (rule field_read_line)
  have "last ?l \<noteq> CR \<and> last ?l \<noteq> LF"
    using assms(2) by (cases meta rule: rev_cases) (auto simp: field_ok_def)
  then have trim: "trim_newlines (?l @ [CR]) = ?l"
    unfolding trim_newlines_cr by (intro trim_newlines_id disjI2)
  have "parse_status_line (?l @ [CR]) = Inr (code, st, meta)"
    unfolding parse_status_line_def trim unfolding Let_def digits(1)
    using digits assms by (simp add: trim_start_ws trim_start_id field_ok_def)
  with read show ?thesis by auto
qed

lemma optional_line_read:
  assumes "option_ok x"
  shows "scroll_read_line (opt_text x @ CRLF @ rest) e = (Inr (opt_text x @ [CR]), rest)
    \<and> optional_line (opt_text x @ [CR]) = x"
proof (cases x)
  case None
  then show ?thesis
    using field_read_line [of "[]" rest e] by (simp add: opt_text_def optional_line_def trim_newlines_def)
next
  case (Some t)
  then have t: "valid_utf8 t" "LF \<notin> set t" "length t < 4096" "t \<noteq> []" "trim t = t" "last t \<noteq> CR" "last t \<noteq> LF"
    using assms by (auto simp: option_ok_def field_ok_def) (metis last_in_set)
  then show ?thesis
    using field_read_line [OF t(1-3), of rest e] Some by (simp add: opt_text_def optional_line_def trim_newlines_id)
qed

text \<open>
  (C29) A Scroll response is read back as it was written: a success with its code, MIME type, each of
  author, publication and modification date present or blank, and the body to the end of the
  stream; any other class with its code, description and no body.
\<close>

theorem scroll_exchange_correct:
  assumes "sheader_ok h" "answer (scroll_request_line u ls metadata) = (scroll_write h body, Eof)"
  shows "scroll_exchange answer u ls metadata =
    Inr \<lparr>sr_header = h, sr_body = (case h of SHSuccess _ \<Rightarrow> body | SHMeta _ _ _ \<Rightarrow> [])\<rparr>"
proof (cases h)
  case (SHMeta code st meta)
  with assms(1) obtain l where "scroll_read_line (show_nat code @ '' '' @ meta @ CRLF @ []) Eof = (Inr l, [])"
      "parse_status_line l = Inr (code, st, meta)"
    using status_line_read [of code st meta "[]" Eof] by auto
  with SHMeta assms show ?thesis by (simp add: scroll_exchange_def)
next
  case (SHSuccess sh)
  let ?r3 = "opt_text (sh_modified sh) @ CRLF @ body"
  let ?r2 = "opt_text (sh_published sh) @ CRLF @ ?r3"
  let ?r1 = "opt_text (sh_author sh) @ CRLF @ ?r2"
  have "scroll_from_code (sh_code sh) = Some SSuccess"
  proof -
    have "sh_code sh div 10 = 2" using assms(1) SHSuccess by auto
    then show ?thesis by (simp add: scroll_from_code_def)
  qed
  then obtain l where l: "scroll_read_line (show_nat (sh_code sh) @ '' '' @ sh_mimetype sh @ CRLF @ ?r1) Eof = (Inr l, ?r1)"
      "parse_status_line l = Inr (sh_code sh, SSuccess, sh_mimetype sh)"
    using status_line_read [of "sh_code sh" SSuccess "sh_mimetype sh" ?r1 Eof] assms(1) SHSuccess by auto
  have o: "option_ok (sh_author sh)" "option_ok (sh_published sh)" "option_ok (sh_modified sh)"
    using assms(1) SHSuccess by auto
  note lines = optional_line_read [OF o(1), of ?r2 Eof] optional_line_read [OF o(2), of ?r3 Eof]
    optional_line_read [OF o(3), of body Eof]
  show ?thesis
    using SHSuccess assms(2) l lines by (simp add: scroll_exchange_def finish_success_def)
qed

definition demo_scroll :: scroll_header where
  "demo_scroll = SHSuccess \<lparr>sh_code = 27, sh_mimetype = ''text/scroll'', sh_author = Some ''Ada'',
     sh_published = None, sh_modified = Some ''2024''\<rparr>"

lemma scroll_exchange_witness:
  "scroll_exchange (\<lambda>_. (scroll_write demo_scroll ''Hi'', Eof)) ''u'' [''en''] False =
     Inr \<lparr>sr_header = demo_scroll, sr_body = ''Hi''\<rparr>"
proof -
  have "trim ''Ada'' = ''Ada''" "trim ''2024'' = ''2024''"
    by (rule trim_visible; simp add: ascii_def ascii_ws_def between_def)+
  then have "sheader_ok demo_scroll"
    by (simp add: demo_scroll_def option_ok_def field_ok_def ascii_valid_utf8 ascii_def ws_head_ascii
        ascii_ws_def between_def)
  from scroll_exchange_correct [OF this, of "\<lambda>_. (scroll_write demo_scroll ''Hi'', Eof)" "''u''" "[''en'']" False "''Hi''"]
  show ?thesis by (simp add: demo_scroll_def)
qed

lemma scroll_request_witness:
  "scroll_parse_request (scroll_request_line ''scroll://h/'' [''en-US'', ''en''] True) =
     Some \<lparr>sq_uri = ''scroll://h/'', sq_languages = [''en-US'', ''en''], sq_metadata = True\<rparr>"
  by (rule scroll_request_roundtrip) (simp_all add: language_ok_def ascii_def ascii_ws_def between_def)

end
