(* ===== verification/Tofu_Fetch.thy ===== *)
theory Tofu_Fetch
  imports Gemini_Tofu Scroll_Wire
begin

text \<open>
  The fetches that ride \<open>tofu_connect\<close>: \<open>fetch\<close> and \<open>fetch_url\<close> of \<open>crates/gemini-protocol/src/client.rs\<close>
  and \<open>fetch\<close> of \<open>crates/scroll-protocol/src/client.rs\<close>, which share one trust store; and several
  connections at once. A connection touches the store twice, when it reads the pin before the
  handshake and when it pins after it; other connections may do so in between.
\<close>

section \<open>Fetching over a pinned connection\<close>

text \<open>What is at an address: the TLS peer, and what it writes back to a request.\<close>

type_synonym tofu_net = "string \<Rightarrow> nat \<Rightarrow> tls_peer \<times> (string \<Rightarrow> string \<times> stream_end)"

definition tofu_dial ::
    "('s \<Rightarrow> string \<Rightarrow> string option) \<Rightarrow> ('s \<Rightarrow> string \<Rightarrow> string \<Rightarrow> 's) \<Rightarrow> (string \<Rightarrow> string) \<Rightarrow> tofu_net \<Rightarrow>
     's \<Rightarrow> string \<Rightarrow> nat \<Rightarrow> (gemini_error + (string \<Rightarrow> string \<times> stream_end)) \<times> 's" where
  "tofu_dial get pin fp net store host port =
     (case net host port of (peer, answer) \<Rightarrow>
      case tofu_connect get pin fp store host peer of
        (Inl e, store') \<Rightarrow> (Inl e, store')
      | (Inr _, store') \<Rightarrow> (Inr answer, store'))"

text \<open>\<open>disp\<close> is the \<open>url\<close> crate's serialisation, which the request line carries.\<close>

definition gemini_fetch_url ::
    "('s \<Rightarrow> string \<Rightarrow> string option) \<Rightarrow> ('s \<Rightarrow> string \<Rightarrow> string \<Rightarrow> 's) \<Rightarrow> (string \<Rightarrow> string) \<Rightarrow> (url \<Rightarrow> string) \<Rightarrow>
     tofu_net \<Rightarrow> 's \<Rightarrow> url \<Rightarrow> (gemini_error + gemini_response) \<times> 's" where
  "gemini_fetch_url get pin fp disp net store u =
     (case url_host u of None \<Rightarrow> (Inl GemBadUrl, store)
      | Some host \<Rightarrow>
        (case tofu_dial get pin fp net store host
                (case url_port u of Some p \<Rightarrow> p | None \<Rightarrow> GEMINI_DEFAULT_PORT) of
           (Inl e, store') \<Rightarrow> (Inl e, store')
         | (Inr answer, store') \<Rightarrow> (gemini_exchange answer (disp u), store')))"

definition gemini_fetch ::
    "('s \<Rightarrow> string \<Rightarrow> string option) \<Rightarrow> ('s \<Rightarrow> string \<Rightarrow> string \<Rightarrow> 's) \<Rightarrow> (string \<Rightarrow> string) \<Rightarrow> url_parser \<Rightarrow>
     (url \<Rightarrow> string) \<Rightarrow> tofu_net \<Rightarrow> 's \<Rightarrow> string \<Rightarrow> (gemini_error + gemini_response) \<times> 's" where
  "gemini_fetch get pin fp up disp net store url =
     (case up url of None \<Rightarrow> (Inl GemBadUrl, store)
      | Some u \<Rightarrow> gemini_fetch_url get pin fp disp net store u)"

definition scroll_fetch_tofu ::
    "('s \<Rightarrow> string \<Rightarrow> string option) \<Rightarrow> ('s \<Rightarrow> string \<Rightarrow> string \<Rightarrow> 's) \<Rightarrow> (string \<Rightarrow> string) \<Rightarrow> url_parser \<Rightarrow>
     tofu_net \<Rightarrow> 's \<Rightarrow> string \<Rightarrow> string list \<Rightarrow> bool \<Rightarrow> (scroll_error + scroll_response) \<times> 's" where
  "scroll_fetch_tofu get pin fp up net store u languages metadata =
     (case up u of None \<Rightarrow> (Inl ScBadUrl, store)
      | Some p \<Rightarrow>
          if url_scheme p \<noteq> ''scroll'' then (Inl ScBadUrl, store)
          else (case url_host p of None \<Rightarrow> (Inl ScBadUrl, store)
           | Some host \<Rightarrow>
             (case tofu_dial get pin fp net store host (case url_port p of Some n \<Rightarrow> n | None \<Rightarrow> SCROLL_PORT) of
                (Inl e, store') \<Rightarrow> (Inl (scroll_from_gemini e), store')
              | (Inr answer, store') \<Rightarrow> (scroll_exchange answer u languages metadata, store'))))"

text \<open>The result is that of \<open>scroll_fetch\<close> over the pinned connection.\<close>

lemma scroll_fetch_tofu_result:
  "fst (scroll_fetch_tofu get pin fp up net store u languages metadata)
     = scroll_fetch up (\<lambda>host port. fst (tofu_dial get pin fp net store host port)) u languages metadata"
  by (simp add: scroll_fetch_tofu_def scroll_fetch_def split: option.splits prod.splits sum.splits)

section \<open>A connection in two steps\<close>

text \<open>What follows once the pin has been read: the handshake against it and the pinning.\<close>

definition tofu_settle ::
    "('s \<Rightarrow> string \<Rightarrow> string \<Rightarrow> 's) \<Rightarrow> (string \<Rightarrow> string) \<Rightarrow> 's \<Rightarrow> string \<Rightarrow> tls_peer \<Rightarrow> string option
     \<Rightarrow> (gemini_error + unit) \<times> 's" where
  "tofu_settle pin fp store host peer pinned =
     (if \<not> pe_tcp peer then (Inl GemConnect, store)
      else case pinning_handshake fp pinned peer of (ok, seen) \<Rightarrow>
        if \<not> ok then
          (case (pinned, seen) of
             (Some p, Some s) \<Rightarrow>
               if p \<noteq> s then (Inl (GemCertificateChanged host (hex p) (hex s)), store)
               else (Inl GemConnect, store)
           | _ \<Rightarrow> (Inl GemConnect, store))
        else (Inr (), case (pinned, seen) of (None, Some f) \<Rightarrow> pin store host f | _ \<Rightarrow> store))"

lemma tofu_connect_steps:
  "tofu_connect get pin fp store host peer = tofu_settle pin fp store host peer (get store host)"
  by (simp add: tofu_connect_def tofu_settle_def Let_def)

datatype tofu_phase = Waiting | Contacting "string option" | Settled "gemini_error + unit"

record tofu_task =
  tk_host :: string
  tk_peer :: tls_peer
  tk_phase :: tofu_phase

definition contact :: "string \<Rightarrow> tls_peer \<Rightarrow> tofu_task" where
  "contact host peer = \<lparr>tk_host = host, tk_peer = peer, tk_phase = Waiting\<rparr>"

definition tofu_turn ::
    "('s \<Rightarrow> string \<Rightarrow> string option) \<Rightarrow> ('s \<Rightarrow> string \<Rightarrow> string \<Rightarrow> 's) \<Rightarrow> (string \<Rightarrow> string) \<Rightarrow>
     's \<Rightarrow> tofu_task \<Rightarrow> 's \<times> tofu_task" where
  "tofu_turn get pin fp store t =
     (case tk_phase t of
        Waiting \<Rightarrow> (store, t\<lparr>tk_phase := Contacting (get store (tk_host t))\<rparr>)
      | Contacting pinned \<Rightarrow>
          (case tofu_settle pin fp store (tk_host t) (tk_peer t) pinned of
             (r, store') \<Rightarrow> (store', t\<lparr>tk_phase := Settled r\<rparr>))
      | Settled r \<Rightarrow> (store, t))"

text \<open>A schedule names the connection whose turn it is.\<close>

fun tofu_schedule ::
    "('s \<Rightarrow> string \<Rightarrow> string option) \<Rightarrow> ('s \<Rightarrow> string \<Rightarrow> string \<Rightarrow> 's) \<Rightarrow> (string \<Rightarrow> string) \<Rightarrow>
     nat list \<Rightarrow> 's \<times> tofu_task list \<Rightarrow> 's \<times> tofu_task list" where
  "tofu_schedule get pin fp [] sys = sys"
| "tofu_schedule get pin fp (k # ks) (store, ts) =
     tofu_schedule get pin fp ks
       (if k < length ts
        then (case tofu_turn get pin fp store (ts ! k) of (store', t) \<Rightarrow> (store', ts[k := t]))
        else (store, ts))"

text \<open>What a connection to a host pinned to \<open>f\<close> comes to.\<close>

definition pinned_outcome :: "(string \<Rightarrow> string) \<Rightarrow> string \<Rightarrow> string \<Rightarrow> tls_peer \<Rightarrow> gemini_error + unit" where
  "pinned_outcome fp host f peer =
     (if \<not> pe_tcp peer then Inl GemConnect
      else if fp (pe_cert peer) \<noteq> f then Inl (GemCertificateChanged host (hex f) (hex (fp (pe_cert peer))))
      else if pe_completes peer then Inr () else Inl GemConnect)"

lemmas handshake_defs = pinning_handshake_def verify_server_cert_def verify_tls_signature_def

lemma tofu_settle_pinned:
  "tofu_settle pin fp store host peer (Some f) = (pinned_outcome fp host f peer, store)"
  by (simp add: tofu_settle_def pinned_outcome_def handshake_defs)

lemma tofu_settle_first:
  "tofu_settle pin fp store host peer None =
     (if pe_tcp peer \<and> pe_completes peer then (Inr (), pin store host (fp (pe_cert peer))) else (Inl GemConnect, store))"
  by (simp add: tofu_settle_def handshake_defs)

section \<open>Interleaved connections\<close>

text \<open>No connection to the host has read the store before the pin was there.\<close>

definition phase_fine :: "(string \<Rightarrow> string) \<Rightarrow> string \<Rightarrow> string \<Rightarrow> tofu_task \<Rightarrow> bool" where
  "phase_fine fp h f t \<longleftrightarrow> (tk_host t = h \<longrightarrow>
     (case tk_phase t of
        Waiting \<Rightarrow> True
      | Contacting p \<Rightarrow> p = Some f
      | Settled r \<Rightarrow> r = pinned_outcome fp h f (tk_peer t)))"

context pin_store
begin

lemma turn_fine:
  assumes "durable s" "get s h = Some f" "phase_fine fp h f t" "tofu_turn get pin fp s t = (s', t')"
  shows "durable s' \<and> get s' h = Some f \<and> phase_fine fp h f t'"
proof (cases "tk_phase t")
  case (Contacting p)
  then show ?thesis
    using assms durable_pin get_pin
    by (cases p; cases "tk_host t = h")
      (auto simp: tofu_turn_def phase_fine_def tofu_settle_pinned tofu_settle_first split: if_splits)
qed (use assms in \<open>auto simp: tofu_turn_def phase_fine_def\<close>)

lemma schedule_fine:
  assumes "durable s" "get s h = Some f" "\<forall>t \<in> set ts. phase_fine fp h f t"
    and "tofu_schedule get pin fp ks (s, ts) = (s', ts')"
  shows "get s' h = Some f \<and> (\<forall>t \<in> set ts'. phase_fine fp h f t)"
  using assms
proof (induction ks arbitrary: s ts)
  case (Cons k ks)
  show ?case
  proof (cases "k < length ts")
    case True
    obtain s1 t where t: "tofu_turn get pin fp s (ts ! k) = (s1, t)" by fastforce
    then have "durable s1 \<and> get s1 h = Some f \<and> phase_fine fp h f t"
      using Cons.prems(3) True by (intro turn_fine [OF Cons.prems(1,2)]) auto
    moreover have "tofu_schedule get pin fp ks (s1, ts[k := t]) = (s', ts')"
      using Cons.prems(4) True t by simp
    ultimately show ?thesis
      using Cons.IH [of s1 "ts[k := t]"] Cons.prems(3) by (auto dest: set_update_subset_insert [THEN subsetD])
  qed (use Cons in auto)
qed auto

end

text \<open>
  (C10) Pins hold under concurrency, once they are there. With the in-memory store, for a host that is
  pinned and of which no first contact is still under way (a connection that read the store before
  the pin was there), however the steps of any number of connections are interleaved, to this host
  and in any phase to others, the pin stays, and every connection to the host that has finished came
  to what the pin demands: it succeeded exactly for a reachable peer that showed the pinned
  certificate and completed the handshake, and another certificate was reported with both
  fingerprints. \<open>tofu_first_contacts_race\<close> is what happens
  when first contacts are under way.
\<close>

theorem tofu_pins_hold_concurrently:
  assumes "is_in_memory s" "store_fingerprint s h = Some f"
    and "\<forall>t \<in> set ts. tk_host t = h \<longrightarrow> tk_phase t \<in> {Waiting, Contacting (Some f)}"
    and "tofu_schedule store_fingerprint store_pin fp ks (s, ts) = (s', ts')"
  shows "store_fingerprint s' h = Some f \<and>
    (\<forall>t \<in> set ts'. \<forall>r. tk_host t = h \<and> tk_phase t = Settled r \<longrightarrow> r = pinned_outcome fp h f (tk_peer t))"
proof -
  have "\<forall>t \<in> set ts. phase_fine fp h f t" using assms(3) by (auto simp: phase_fine_def)
  from tofu.schedule_fine [OF assms(1,2) this assms(4)] show ?thesis by (auto simp: phase_fine_def)
qed

text \<open>
  (C38) First contacts race. Two connections that both read the store before either has pinned are both
  first contacts: whatever certificates they are shown, both succeed, and the pin of the one that
  finishes last replaces the other's. The certificate accepted first is then reported as changed,
  although it is the one the host was first trusted with.
\<close>

theorem tofu_first_contacts_race:
  assumes "m h = None" "pe_tcp a" "pe_completes a" "pe_tcp b" "pe_completes b"
    and "fp (pe_cert a) \<noteq> fp (pe_cert b)"
  shows "tofu_schedule store_fingerprint store_pin fp [0, 1, 0, 1] (InMemory m, [contact h a, contact h b])
      = (InMemory (m(h \<mapsto> fp (pe_cert b))), map (\<lambda>p. (contact h p)\<lparr>tk_phase := Settled (Inr ())\<rparr>) [a, b])
    \<and> fst (tofu_connect store_fingerprint store_pin fp (InMemory (m(h \<mapsto> fp (pe_cert b)))) h a)
      = Inl (GemCertificateChanged h (hex (fp (pe_cert b))) (hex (fp (pe_cert a))))"
  using assms by (simp add: contact_def tofu_turn_def tofu_settle_first tofu_connect_steps tofu_settle_pinned pinned_outcome_def)

section \<open>A fetch from end to end\<close>

lemma tofu_dial_result:
  assumes "net host port = (peer, answer)" "pe_tcp peer" "pe_completes peer"
  shows "fst (tofu_dial get pin fp net s host port) =
    (case get s host of
       Some f \<Rightarrow> if fp (pe_cert peer) = f then Inr answer
                 else Inl (GemCertificateChanged host (hex f) (hex (fp (pe_cert peer))))
     | None \<Rightarrow> Inr answer)"
  using assms
  by (simp add: tofu_dial_def tofu_connect_steps tofu_settle_first tofu_settle_pinned pinned_outcome_def
      split: option.splits)

text \<open>
  (C39) A gemini fetch from the URL to the reply. For a URL with a host that the server accepts, and a
  host that is up and completes its handshake: if the host is pinned to another certificate, the
  fetch ends with the changed certificate, whatever the server would answer; otherwise the server
  calls the handler with the URL and the fetch returns the handler's reply, and with the in-memory
  store the host is pinned to the certificate it showed.
\<close>

theorem gemini_fetch_correct:
  fixes disp :: "url \<Rightarrow> string"
  assumes "up url = Some v" "up (disp v) = Some v" "url_scheme v = ''gemini''" "url_host v = Some host" "url_fragment v = None"
    and "visible (disp v)" "length (disp v) + 2 \<le> GEMINI_MAX_REQUEST"
    and "gemini_reply_ok (handler \<lparr>gq_url = v, gq_peer = client\<rparr>)"
    and "net host (case url_port v of Some p \<Rightarrow> p | None \<Rightarrow> GEMINI_DEFAULT_PORT) =
      (peer, \<lambda>sent. (the (gemini_handle_connection up why handler default_gemini_config client sent e), Eof))"
    and "pe_tcp peer" "pe_completes peer"
    and "gemini_fetch store_fingerprint store_pin fp up disp net (InMemory m) url = (res, s')"
  shows "if m host \<in> {None, Some (fp (pe_cert peer))}
    then res = Inr (gemini_view (handler \<lparr>gq_url = v, gq_peer = client\<rparr>)) \<and> s' = InMemory (m(host \<mapsto> fp (pe_cert peer)))
    else res = Inl (GemCertificateChanged host (hex (the (m host))) (hex (fp (pe_cert peer)))) \<and> s' = InMemory m"
proof -
  have ex: "gemini_exchange (\<lambda>sent. (the (gemini_handle_connection up why handler default_gemini_config client sent e), Eof)) (disp v)
      = Inr (gemini_view (handler \<lparr>gq_url = v, gq_peer = client\<rparr>))"
    using assms(2-8) by (intro gemini_exchange_correct) auto
  have upd: "m host = Some f \<Longrightarrow> m(host \<mapsto> f) = m" for f by auto
  show ?thesis
    using assms(1,4,9-12) ex
    by (cases "m host")
      (auto simp: gemini_fetch_def gemini_fetch_url_def tofu_dial_def tofu_connect_steps tofu_settle_first
        tofu_settle_pinned pinned_outcome_def upd split: if_splits)
qed

section \<open>Concrete runs\<close>

text \<open>A connection in mid-handshake, one with another certificate, and a first contact to another host.\<close>

lemma tofu_concurrent_witness:
  "\<exists>s' ts'. tofu_schedule store_fingerprint store_pin (\<lambda>c. c) [0, 1, 2, 1]
     (InMemory [''h'' \<mapsto> ''A''],
      [(contact ''h'' (demo_peer ''A''))\<lparr>tk_phase := Contacting (Some ''A'')\<rparr>, contact ''h'' (demo_peer ''B''),
       (contact ''g'' (demo_peer ''C''))\<lparr>tk_phase := Contacting None\<rparr>]) = (s', ts')
     \<and> store_fingerprint s' ''h'' = Some ''A''"
  (is "\<exists>s' ts'. tofu_schedule _ _ _ ?ks (?s, ?ts) = (s', ts') \<and> _")
proof -
  obtain s' ts' where run: "tofu_schedule store_fingerprint store_pin (\<lambda>c. c) ?ks (?s, ?ts) = (s', ts')" by fastforce
  with tofu_pins_hold_concurrently [OF _ _ _ run, of "''h''" "''A''"] show ?thesis
    by (simp add: is_in_memory_def contact_def)
qed

lemma tofu_race_witness:
  "store_fingerprint (fst (tofu_schedule store_fingerprint store_pin (\<lambda>c. c) [0, 1, 0, 1]
     (InMemory Map.empty, [contact ''h'' (demo_peer ''A''), contact ''h'' (demo_peer ''B'')]))) ''h'' = Some ''B''"
  using tofu_first_contacts_race [of Map.empty "''h''" "demo_peer ''A''" "demo_peer ''B''" "\<lambda>c. c"]
  by (simp add: demo_peer_def)

lemma gemini_fetch_witness:
  "\<exists>s'. gemini_fetch store_fingerprint store_pin (\<lambda>c. c) (\<lambda>_. Some demo_url) (\<lambda>_. ''gemini://h/'')
      (\<lambda>_ _. (demo_peer ''A'', \<lambda>sent. (the (gemini_handle_connection (\<lambda>_. Some demo_url) (\<lambda>_. [])
        (\<lambda>_. gemini_gemtext ''# Hi'') default_gemini_config [] sent Eof), Eof)))
      (InMemory Map.empty) ''gemini://h/''
    = (Inr \<lparr>ge_status = GSuccess, ge_code = 20, ge_meta = ''text/gemini'', ge_body = ''# Hi''\<rparr>, s')"
proof -
  have "gemini_reply_ok (gemini_gemtext ''# Hi'')"
    by (simp add: gemini_reply_ok_def gemini_gemtext_def gemini_success_def ascii_valid_utf8 ascii_def
        ws_head_ascii ascii_ws_def between_def)
  moreover have "visible ''gemini://h/''"
    by (simp add: ascii_def ascii_ws_def between_def)
  moreover obtain res s' where run: "gemini_fetch store_fingerprint store_pin (\<lambda>c. c) (\<lambda>_. Some demo_url) (\<lambda>_. ''gemini://h/'')
      (\<lambda>_ _. (demo_peer ''A'', \<lambda>sent. (the (gemini_handle_connection (\<lambda>_. Some demo_url) (\<lambda>_. [])
        (\<lambda>_. gemini_gemtext ''# Hi'') default_gemini_config [] sent Eof), Eof)))
      (InMemory Map.empty) ''gemini://h/'' = (res, s')" by fastforce
  ultimately show ?thesis
    using gemini_fetch_correct [where v = demo_url and host = "''h''" and client = "[]" and peer = "demo_peer ''A''"
        and why = "\<lambda>_. []" and e = Eof and handler = "\<lambda>_. gemini_gemtext ''# Hi''", OF _ _ _ _ _ _ _ _ _ _ _ run]
    by (simp add: demo_url_def demo_peer_def GEMINI_MAX_REQUEST_def gemini_view_def reply_status_def gemini_from_code_def
        gemini_gemtext_def gemini_success_def)
qed

end
