(* ===== verification/Scroll_Text.thy ===== *)
theory Scroll_Text
  imports Rust_Words
begin

text \<open>
  Scrolltext (\<open>crates/scroll-protocol/src/scrolltext.rs\<close>): the line grammar with its code
  blocks, link relations, list ordinals and linetype escape, and the inline pass \<open>spans\<close>. The
  inline pass walks the characters of a line; the model walks its bytes, which is the same
  because the toggles are ASCII and the neighbours are looked at as whole characters (the last
  one before, the first one after).
\<close>

section \<open>Lines\<close>

datatype polarity = Positive | Neutral | Negative

record relation =
  rel_polarity :: polarity
  rel_tag :: "string option"

datatype scroll_line =
    SLHeading nat string | SLText string | SLBlank | SLQuote nat string
  | SLListItem nat "string option" string
  | SLLink string string "relation option"
  | SLInputLink string string
  | SLThematicBreak
  | SLCodeBlock "string option" "string list"

definition count_prefix :: "char \<Rightarrow> string \<Rightarrow> nat" where
  "count_prefix c s = length (takeWhile (\<lambda>x. x = c) s)"

abbreviation BACKSLASH :: char where "BACKSLASH \<equiv> CHR 0x5C"
abbreviation BACKTICK :: char where "BACKTICK \<equiv> CHR 0x60"

definition CODE_FENCE :: string where "CODE_FENCE = [BACKTICK, BACKTICK, BACKTICK]"

definition is_escapable :: "string \<Rightarrow> bool" where
  "is_escapable rest \<longleftrightarrow>
     (let stars = count_prefix (CHR ''*'') rest; hashes = count_prefix (CHR ''#'') rest in
      1 \<le> stars \<and> stars \<le> 4 \<or> 1 \<le> hashes \<and> hashes \<le> 5 \<or>
      starts_with ''>'' rest \<or> starts_with ''=>'' rest \<or> starts_with ''=:'' rest \<or>
      starts_with CODE_FENCE rest \<or> rest = ''---'')"

definition split_link :: "string \<Rightarrow> string \<times> string" where
  "split_link rest0 =
     (let rest = trim_start rest0 in
      case find_ws rest of
        Some n \<Rightarrow> (take n rest, trim (drop (n + ws_head (drop n rest)) rest))
      | None \<Rightarrow> (rest, []))"

definition split_relation :: "string \<Rightarrow> string \<times> relation option" where
  "split_relation label =
     (let trimmed = trim_end label in
      case rfind (CHR ''['') trimmed of None \<Rightarrow> (label, None)
      | Some open_at \<Rightarrow>
        (case Option.bind (strip_prefix ''['' (drop open_at trimmed)) (strip_suffix '']'') of
           None \<Rightarrow> (label, None)
         | Some inner \<Rightarrow>
           (case (case strip_prefix ''+'' inner of Some t \<Rightarrow> (Positive, t)
                  | None \<Rightarrow> (case strip_prefix ''-'' inner of Some t \<Rightarrow> (Negative, t)
                            | None \<Rightarrow> (Neutral, inner))) of
              (pol, tag) \<Rightarrow>
                if tag = [] \<and> pol = Neutral then (label, None)
                else (trim_end (take open_at trimmed),
                      Some \<lparr>rel_polarity = pol, rel_tag = if tag \<noteq> [] then Some tag else None\<rparr>))))"

definition split_ordinal :: "string \<Rightarrow> string option \<times> string" where
  "split_ordinal t =
     (let digits = length (takeWhile is_digit t);
          marker_len = (if 0 < digits then digits
                        else case t of c # _ \<Rightarrow> if is_ascii_alpha c then 1 else 0 | [] \<Rightarrow> 0) in
      if 0 < marker_len \<and> starts_with ''.'' (drop marker_len t)
      then (Some (take (marker_len + 1) t), trim_start (drop (marker_len + 1) t))
      else (None, t))"

definition scroll_parse_line :: "string \<Rightarrow> scroll_line" where
  "scroll_parse_line raw =
     (if trim raw = [] then SLBlank
      else case strip_prefix [BACKSLASH] raw of
        Some rest \<Rightarrow> if is_escapable rest then SLText rest else SLText raw
      | None \<Rightarrow>
      if raw = ''---'' then SLThematicBreak
      else if starts_with ''#'' raw then
        (let level = count_prefix (CHR ''#'') raw in
         if level \<le> 5 then SLHeading level (trim_start (drop level raw)) else SLText raw)
      else if starts_with ''>'' raw then
        (let depth = count_prefix (CHR ''>'') raw in
         SLQuote (min depth 255) (trim_start (drop depth raw)))
      else (case strip_prefix ''=>'' raw of
        Some rest \<Rightarrow>
          (case split_link rest of (u, label) \<Rightarrow>
             case split_relation label of (label', rel) \<Rightarrow> SLLink u label' rel)
      | None \<Rightarrow>
        (case strip_prefix ''=:'' raw of
           Some rest \<Rightarrow> (case split_link rest of (u, prompt) \<Rightarrow> SLInputLink u prompt)
         | None \<Rightarrow>
           (let stars = count_prefix (CHR ''*'') raw; after = drop stars raw in
            if 1 \<le> stars \<and> stars \<le> 4 \<and> after \<noteq> [] \<and> (hd after = CHR '' '' \<or> hd after = CHR 0x09)
            then (case split_ordinal (tl after) of (ordinal, t) \<Rightarrow> SLListItem stars ordinal t)
            else SLText raw))))"

type_synonym code_state = "(string option \<times> string list) option"

fun scroll_step :: "scroll_line list \<times> code_state \<Rightarrow> string \<Rightarrow> scroll_line list \<times> code_state" where
  "scroll_step (ls, Some (tag, collected)) raw =
     (if starts_with CODE_FENCE raw then (ls @ [SLCodeBlock tag collected], None)
      else (ls, Some (tag, collected @ [raw])))"
| "scroll_step (ls, None) raw =
     (case strip_prefix CODE_FENCE raw of
        Some rest \<Rightarrow> (ls, Some (if trim rest \<noteq> [] then Some (trim rest) else None, []))
      | None \<Rightarrow> (ls @ [scroll_parse_line raw], None))"

definition parse_scrolltext :: "string \<Rightarrow> scroll_line list" where
  "parse_scrolltext body =
     (case foldl scroll_step ([], None) (str_lines body) of
        (ls, Some (tag, collected)) \<Rightarrow> ls @ [SLCodeBlock tag collected]
      | (ls, None) \<Rightarrow> ls)"

section \<open>Inline markup\<close>

datatype span_kind = SpPlain | SpStrong | SpEmphasis | SpCode

record span =
  sp_kind :: span_kind
  sp_text :: string

text \<open>U+200B in UTF-8.\<close>

definition ZWSP :: string where "ZWSP = [CHR 0xE2, CHR 0x80, CHR 0x8B]"

definition is_symbolic :: "char \<Rightarrow> bool" where
  "is_symbolic c \<longleftrightarrow> between 33 47 c \<or> between 58 64 c \<or> between 91 96 c \<or> between 123 126 c"

text \<open>The character before (the last of the prefix) and after is neither white space nor \<open>c\<close>.\<close>

definition good_before :: "string \<Rightarrow> char \<Rightarrow> bool" where
  "good_before pre c \<longleftrightarrow> pre \<noteq> [] \<and> ws_last pre = 0 \<and> \<not> ends_with ZWSP pre \<and> last pre \<noteq> c"

definition good_after :: "string \<Rightarrow> char \<Rightarrow> bool" where
  "good_after suf c \<longleftrightarrow> suf \<noteq> [] \<and> ws_head suf = 0 \<and> \<not> starts_with ZWSP suf \<and> hd suf \<noteq> c"

definition toggle_kind :: "char \<Rightarrow> span_kind option" where
  "toggle_kind c =
     (if c = CHR ''*'' then Some SpStrong else if c = CHR ''_'' then Some SpEmphasis
      else if c = BACKTICK then Some SpCode else None)"

definition toggles_at :: "span_kind \<Rightarrow> string \<Rightarrow> char \<Rightarrow> string \<Rightarrow> span_kind option" where
  "toggles_at kind pre c suf =
     (case toggle_kind c of None \<Rightarrow> None
      | Some candidate \<Rightarrow>
          if kind = SpCode \<and> candidate \<noteq> SpCode then None
          else let both_symbols = pre \<noteq> [] \<and> is_symbolic (last pre) \<and> suf \<noteq> [] \<and> is_symbolic (hd suf) in
               if \<not> both_symbols \<and> (good_before pre c \<or> good_after suf c) then Some candidate else None)"

definition flush :: "span list \<Rightarrow> string \<Rightarrow> span_kind \<Rightarrow> span list" where
  "flush out current kind = (if current \<noteq> [] then out @ [\<lparr>sp_kind = kind, sp_text = current\<rparr>] else out)"

fun spans_loop :: "string \<Rightarrow> string \<Rightarrow> span list \<Rightarrow> string \<Rightarrow> span_kind \<Rightarrow> span list" where
  "spans_loop pre [] out current kind = flush out current kind"
| "spans_loop pre (c # suf) out current kind =
     (case toggles_at kind pre c suf of
        Some candidate \<Rightarrow>
          spans_loop (pre @ [c]) suf (flush out current kind) []
            (if kind = candidate then SpPlain else candidate)
      | None \<Rightarrow> spans_loop (pre @ [c]) suf out (current @ [c]) kind)"

definition spans :: "string \<Rightarrow> span list" where
  "spans line = spans_loop [] line [] [] SpPlain"

section \<open>The inline pass as the specification states it\<close>

text \<open>
  The characters of a line (\<open>chars().collect()\<close>), and the toggle rules over them: a toggle character
  toggles if at least one neighbour is a character other than white space and itself, unless both
  neighbours are symbols; and inside a code span only the backtick does.
\<close>

function chars_of :: "string \<Rightarrow> string list" where
  "chars_of s =
     (if s = [] then []
      else case utf8_step s of Inr n \<Rightarrow> take n s # chars_of (drop n s) | Inl n \<Rightarrow> take n s # chars_of (drop n s))"
  by pat_completeness auto
termination
  by (relation "measure length") (auto dest!: utf8_step_bounds utf8_step_error_pos simp: neq_Nil_conv)

declare chars_of.simps [simp del]

definition punctuation :: "string" where
  "punctuation = ''!#$%&'()*+,-./:;<=>?@[]^_{|}~'' @ [CHR 0x22, BACKSLASH, BACKTICK]"

definition marker_style :: "string \<Rightarrow> span_kind option" where
  "marker_style = map_of [(''*'', SpStrong), (''_'', SpEmphasis), ([BACKTICK], SpCode)]"

definition neighbours :: "string list \<Rightarrow> nat \<Rightarrow> string list" where
  "neighbours cs i = (if 0 < i then [cs ! (i - 1)] else []) @ (if Suc i < length cs then [cs ! Suc i] else [])"

definition solid :: "string \<Rightarrow> string \<Rightarrow> bool" where
  "solid c d \<longleftrightarrow> trim_start d \<noteq> [] \<and> d \<noteq> ZWSP \<and> d \<noteq> c"

definition between_symbols :: "string list \<Rightarrow> nat \<Rightarrow> bool" where
  "between_symbols cs i \<longleftrightarrow>
     length (neighbours cs i) = 2 \<and> (\<forall>d \<in> set (neighbours cs i). d \<in> set (map (\<lambda>x. [x]) punctuation))"

definition live :: "string list \<Rightarrow> nat \<Rightarrow> bool" where
  "live cs i \<longleftrightarrow>
     marker_style (cs ! i) \<noteq> None \<and> \<not> between_symbols cs i \<and> (\<exists>d \<in> set (neighbours cs i). solid (cs ! i) d)"

definition switch_style :: "span_kind \<Rightarrow> span_kind \<Rightarrow> span_kind" where
  "switch_style k m = (if k = SpCode \<and> m \<noteq> SpCode then k else if m = k then SpPlain else m)"

text \<open>The style in force before character \<open>i\<close>, the characters that are markup, and the spans between them.\<close>

definition style_at :: "string list \<Rightarrow> nat \<Rightarrow> span_kind" where
  "style_at cs i = foldl switch_style SpPlain (map (\<lambda>j. the (marker_style (cs ! j))) (filter (live cs) [0..<i]))"

definition is_marker :: "string list \<Rightarrow> nat \<Rightarrow> bool" where
  "is_marker cs i \<longleftrightarrow> live cs i \<and> (style_at cs i = SpCode \<longrightarrow> marker_style (cs ! i) = Some SpCode)"

definition segment :: "string list \<Rightarrow> nat \<times> nat \<Rightarrow> span" where
  "segment cs = (\<lambda>(a, b). \<lparr>sp_kind = style_at cs b, sp_text = concat (map ((!) cs) [a..<b])\<rparr>)"

definition segments_from :: "string list \<Rightarrow> nat \<Rightarrow> nat \<Rightarrow> span list" where
  "segments_from cs a i =
     (let ms = filter (is_marker cs) [i..<length cs] in
      filter (\<lambda>s. sp_text s \<noteq> []) (map (segment cs) (zip (a # map Suc ms) (ms @ [length cs]))))"

definition styled_spans :: "string list \<Rightarrow> span list" where
  "styled_spans cs = segments_from cs 0 0"

section \<open>The bytes of a character\<close>

definition one_char :: "string \<Rightarrow> bool" where
  "one_char c \<longleftrightarrow> c \<noteq> [] \<and> utf8_step c = Inr (length c)"

lemma one_char_cases:
  assumes "one_char c"
  obtains a where "c = [a]" "ascii a"
  | a b where "c = [a, b]" "between 0xC2 0xDF a" "cont b"
  | a b d where "c = [a, b, d]" "between 0xE0 0xEF a" "cont b" "cont d"
  | a b d e where "c = [a, b, d, e]" "between 0xF0 0xF4 a" "cont b" "cont d" "cont e"
proof -
  have second: "second_ok x y \<Longrightarrow> cont y" for x y
    by (auto simp: second_ok_def cont_def between_def split: if_splits)
  have u: "utf8_step c = Inr (length c)" using assms by (simp add: one_char_def)
  then consider "length c = 1" | "length c = 2" | "length c = 3" | "length c = 4"
    using utf8_step_bounds [of c "length c"] by linarith
  then show ?thesis
  proof cases
    case 1
    then obtain a where c: "c = [a]" by (auto simp: length_Suc_conv)
    with u have "ascii a" by (simp add: utf8_step_def Let_def byte_at_def ascii_def split: if_splits)
    with c that(1) show ?thesis by blast
  next
    case 2
    then obtain a b where c: "c = [a, b]" by (auto simp: eval_nat_numeral length_Suc_conv)
    with u have "between 0xC2 0xDF a" "cont b" by (simp_all add: utf8_step_def Let_def byte_at_def between_def split: if_splits)
    with c that(2) show ?thesis by blast
  next
    case 3
    then obtain a b d where c: "c = [a, b, d]" by (auto simp: eval_nat_numeral length_Suc_conv)
    with u have "between 0xE0 0xEF a" "second_ok (bval a) b" "cont d"
      by (simp_all add: utf8_step_def Let_def byte_at_def between_def split: if_splits)
    with c that(3) second show ?thesis by blast
  next
    case 4
    then obtain a b d e where c: "c = [a, b, d, e]" by (auto simp: eval_nat_numeral length_Suc_conv)
    with u have "between 0xF0 0xF4 a" "second_ok (bval a) b" "cont d" "cont e"
      by (simp_all add: utf8_step_def Let_def byte_at_def between_def eval_nat_numeral split: if_splits)
    with c that(4) second show ?thesis by blast
  qed
qed

lemma chars_of_valid: "valid_utf8 s \<Longrightarrow> concat (chars_of s) = s \<and> list_all one_char (chars_of s)"
proof (induction s rule: chars_of.induct)
  case (1 s)
  show ?case
  proof (cases "s = []")
    case False
    with "1.prems" obtain n where n: "utf8_step s = Inr n" and v: "valid_utf8 (drop n s)"
      by (subst (asm) valid_utf8.simps) (auto split: sum.splits)
    have le: "1 \<le> n" "n \<le> length s"
      using False n utf8_step_bounds utf8_step_le_length by blast+
    then have "utf8_step (take n s) = Inr n"
      using n utf8_step_prefix [of "take n s" "drop n s" n] by simp
    with le have "one_char (take n s)" by (auto simp: one_char_def)
    with "1.IH"(2) [OF False n v] False n show ?thesis
      by (subst (1 2) chars_of.simps) simp
  qed (simp add: chars_of.simps)
qed

lemma char_white:
  assumes "one_char d"
  shows "trim_start d = [] \<longleftrightarrow> ws_head d \<noteq> 0" "ws_last (p @ d) \<noteq> 0 \<longleftrightarrow> ws_head d \<noteq> 0" "ws_head (d @ r) \<noteq> 0 \<longleftrightarrow> ws_head d \<noteq> 0"
proof -
  have c: "ws_head d \<noteq> 0 \<longrightarrow> ws_head d = length d"
    and l: "ws_last (p @ d) \<noteq> 0 \<longleftrightarrow> ws_head d \<noteq> 0" and h: "ws_head (d @ r) \<noteq> 0 \<longleftrightarrow> ws_head d \<noteq> 0"
    using assms
    by (cases rule: one_char_cases;
        force simp: ws_head_def ws_last_def byte_at_def nth_append Let_def ascii_ws_def ws2_def ws3_def
          between_def cont_def ascii_def split: if_splits)+
  then show "ws_last (p @ d) \<noteq> 0 \<longleftrightarrow> ws_head d \<noteq> 0" "ws_head (d @ r) \<noteq> 0 \<longleftrightarrow> ws_head d \<noteq> 0" by blast+
  show "trim_start d = [] \<longleftrightarrow> ws_head d \<noteq> 0"
  proof (cases "ws_head d = 0")
    case False
    with c show ?thesis by (subst trim_start.simps) (simp add: trim_start_id)
  qed (use assms in \<open>simp add: trim_start_id one_char_def\<close>)
qed

lemma symbolic_punctuation: "is_symbolic b \<longleftrightarrow> b \<in> set punctuation"
proof -
  have "is_symbolic b \<longleftrightarrow> bval b \<in> set ([33..<48] @ [58..<65] @ [91..<97] @ [123..<127])"
    unfolding is_symbolic_def between_def set_append set_upt Un_iff atLeastLessThan_iff by linarith
  also have "set ([33..<48] @ [58..<65] @ [91..<97] @ [123..<127]) = set (map bval punctuation)" by code_simp
  finally show ?thesis by (auto simp: inj_image_mem_iff [OF inj_of_char])
qed

lemma symbolic_ascii: "is_symbolic b \<Longrightarrow> ascii b"
  by (auto simp: is_symbolic_def ascii_def between_def)

lemma cont_not_ascii: "cont b \<Longrightarrow> \<not> ascii b"
  by (simp add: cont_def ascii_def between_def)

lemma char_ends:
  assumes "one_char d" "ascii c"
  shows "last (p @ d) = c \<longleftrightarrow> d = [c]" "hd (d @ r) = c \<longleftrightarrow> d = [c]"
  using assms by (cases rule: one_char_cases; auto simp: cont_not_ascii; auto simp: ascii_def between_def dest: cont_not_ascii)+

lemma char_symbolic:
  assumes "one_char d"
  shows "is_symbolic (last (p @ d)) \<longleftrightarrow> d \<in> set (map (\<lambda>x. [x]) punctuation)"
    "is_symbolic (hd (d @ r)) \<longleftrightarrow> d \<in> set (map (\<lambda>x. [x]) punctuation)"
  using char_ends [OF assms symbolic_ascii] by (force simp: symbolic_punctuation)+

lemma char_zwsp:
  assumes "one_char d"
  shows "ends_with ZWSP (p @ d) \<longleftrightarrow> d = ZWSP" "starts_with ZWSP (d @ r) \<longleftrightarrow> d = ZWSP"
  using assms
  by (cases rule: one_char_cases;
      force simp: ends_with_def starts_with_def ZWSP_def between_def cont_def ascii_def)+

lemma good_neighbour:
  assumes "one_char d" "ascii c"
  shows "good_before (p @ d) c \<longleftrightarrow> solid [c] d" "good_after (d @ r) c \<longleftrightarrow> solid [c] d"
  using assms char_white(1) [OF assms(1)] char_white(2) [OF assms(1), of p] char_white(3) [OF assms(1), of r]
    char_ends(1) [OF assms, of p] char_ends(2) [OF assms, of r] char_zwsp(1) [OF assms(1), of p] char_zwsp(2) [OF assms(1), of r]
  by (auto simp: good_before_def good_after_def solid_def one_char_def)

lemma good_none [simp]: "\<not> good_before [] c" "\<not> good_after [] c"
  by (simp_all add: good_before_def good_after_def)

section \<open>The loop computes it\<close>

lemma loop_inert:
  "\<forall>b \<in> set d. toggle_kind b = None \<Longrightarrow>
     spans_loop pre (d @ suf) out current kind = spans_loop (pre @ d) suf out (current @ d) kind"
  by (induction d arbitrary: pre current) (auto simp: toggles_at_def)

lemma marker_char:
  assumes "one_char d"
  shows "marker_style d = Some k \<Longrightarrow> \<exists>c. d = [c] \<and> ascii c \<and> toggle_kind c = Some k"
    "marker_style d = None \<Longrightarrow> \<forall>b \<in> set d. toggle_kind b = None"
proof -
  have single: "marker_style [c] = toggle_kind c" for c by (simp add: marker_style_def toggle_kind_def)
  have asc: "toggle_kind b = Some k \<Longrightarrow> ascii b" for b k
    by (auto simp: toggle_kind_def ascii_def split: if_splits)
  have "length d = 1 \<or> marker_style d = None \<and> (\<forall>b \<in> set d. \<not> ascii b)"
    using assms by (cases rule: one_char_cases) (auto simp: marker_style_def cont_not_ascii, auto simp: ascii_def between_def)
  then show "marker_style d = Some k \<Longrightarrow> \<exists>c. d = [c] \<and> ascii c \<and> toggle_kind c = Some k"
    "marker_style d = None \<Longrightarrow> \<forall>b \<in> set d. toggle_kind b = None"
    using single asc by (auto simp: length_Suc_conv) (metis option.exhaust)+
qed

lemma around:
  "i < length cs \<Longrightarrow> concat (take i cs) = (if 0 < i then concat (take (i - 1) cs) @ cs ! (i - 1) else [])"
  "i < length cs \<Longrightarrow> concat (drop (Suc i) cs) = (if Suc i < length cs then cs ! Suc i @ concat (drop (Suc (Suc i)) cs) else [])"
proof -
  show "i < length cs \<Longrightarrow> concat (take i cs) = (if 0 < i then concat (take (i - 1) cs) @ cs ! (i - 1) else [])"
    by (cases i) (simp_all add: take_Suc_conv_app_nth)
  show "i < length cs \<Longrightarrow> concat (drop (Suc i) cs) = (if Suc i < length cs then cs ! Suc i @ concat (drop (Suc (Suc i)) cs) else [])"
    by (auto simp flip: Cons_nth_drop_Suc)
qed

lemma toggle_here:
  assumes "list_all one_char cs" "i < length cs" "cs ! i = [c]" "toggle_kind c = Some k"
  shows "toggles_at (style_at cs i) (concat (take i cs)) c (concat (drop (Suc i) cs)) =
    (if is_marker cs i then Some k else None)"
proof -
  have asc: "ascii c" using assms(4) by (auto simp: toggle_kind_def ascii_def split: if_splits)
  have one: "one_char (cs ! j)" "cs ! j \<noteq> []" if "j < length cs" for j
    using that assms(1) by (auto simp: list_all_length one_char_def)
  let ?pre = "concat (take i cs)" and ?suf = "concat (drop (Suc i) cs)"
  note nb = around [OF assms(2)] neighbours_def
  have "good_before ?pre c \<or> good_after ?suf c \<longleftrightarrow> (\<exists>d \<in> set (neighbours cs i). solid [c] d)"
    using assms(2) by (auto simp: nb good_neighbour one asc)
  moreover have "?pre \<noteq> [] \<and> is_symbolic (last ?pre) \<and> ?suf \<noteq> [] \<and> is_symbolic (hd ?suf) \<longleftrightarrow> between_symbols cs i"
    using assms(2) char_symbolic [OF one(1)] by (simp add: nb between_symbols_def one(2) del: set_map)
  moreover have "marker_style [c] = Some k" using assms(4) by (auto simp: marker_style_def toggle_kind_def split: if_splits)
  ultimately show ?thesis
    using assms(3,4) by (auto simp: toggles_at_def is_marker_def live_def Let_def)
qed

lemma style_at_Suc:
  "style_at cs (Suc i) = (if live cs i then switch_style (style_at cs i) (the (marker_style (cs ! i))) else style_at cs i)"
  by (simp add: style_at_def)

lemma loop_segments:
  assumes "list_all one_char cs" "i \<le> length cs" "a \<le> i"
  shows "spans_loop (concat (take i cs)) (concat (drop i cs)) out (concat (map ((!) cs) [a..<i])) (style_at cs i)
    = out @ segments_from cs a i"
  using assms(2,3)
proof (induction "length cs - i" arbitrary: i a out)
  case 0
  then show ?case by (simp add: segments_from_def segment_def flush_def)
next
  case (Suc m)
  then have i: "i < length cs" "m = length cs - Suc i" "Suc i \<le> length cs" by simp_all
  have pre: "concat (take (Suc i) cs) = concat (take i cs) @ cs ! i" using i by (simp add: take_Suc_conv_app_nth)
  have suf: "concat (drop i cs) = cs ! i @ concat (drop (Suc i) cs)" using i by (simp flip: Cons_nth_drop_Suc)
  have cur: "concat (map ((!) cs) [a..<Suc i]) = concat (map ((!) cs) [a..<i]) @ cs ! i" using Suc.prems by simp
  have up: "[i..<length cs] = i # [Suc i..<length cs]" using i by (simp add: upt_rec)
  have one: "one_char (cs ! i)" using assms(1) i by (simp add: list_all_length)
  show ?case
  proof (cases "is_marker cs i")
    case True
    then obtain k where k: "marker_style (cs ! i) = Some k" by (auto simp: is_marker_def live_def)
    then obtain c where c: "cs ! i = [c]" "toggle_kind c = Some k" using marker_char(1) [OF one] by blast
    have st: "style_at cs (Suc i) = (if style_at cs i = k then SpPlain else k)"
      using True k by (auto simp: style_at_Suc is_marker_def switch_style_def)
    have "segments_from cs a i = flush [] (concat (map ((!) cs) [a..<i])) (style_at cs i) @ segments_from cs (Suc i) (Suc i)"
      using True by (simp add: segments_from_def Let_def up segment_def flush_def)
    then show ?thesis
      using Suc.hyps(1) [OF i(2,3) order_refl, of "flush out (concat (map ((!) cs) [a..<i])) (style_at cs i)"]
        toggle_here [OF assms(1) i(1) c] True
      by (simp add: suf pre c st flush_def)
  next
    case False
    then have st: "style_at cs (Suc i) = style_at cs i"
      by (auto simp: style_at_Suc is_marker_def switch_style_def live_def)
    have seg: "segments_from cs a i = segments_from cs a (Suc i)" using False by (simp add: segments_from_def up)
    have "spans_loop (concat (take i cs)) (concat (drop i cs)) out (concat (map ((!) cs) [a..<i])) (style_at cs i) =
        spans_loop (concat (take (Suc i) cs)) (concat (drop (Suc i) cs)) out (concat (map ((!) cs) [a..<Suc i])) (style_at cs i)"
    proof (cases "marker_style (cs ! i)")
      case None
      then show ?thesis unfolding suf pre cur by (rule loop_inert [OF marker_char(2) [OF one]])
    next
      case (Some k)
      then obtain c where "cs ! i = [c]" "toggle_kind c = Some k" using marker_char(1) [OF one] by blast
      with toggle_here [OF assms(1) i(1) this] False Suc.prems show ?thesis by (simp add: suf pre cur)
    qed
    then show ?thesis using Suc.hyps(1) [OF i(2,3), of a out] Suc.prems by (simp add: st seg)
  qed
qed

text \<open>
  (C17) The inline pass computes what the specification says: the spans of a line are the stretches
  between its markers, the empty ones left out, each with the style in force there. A character is
  a marker when it is a toggle character with a neighbour that is neither white space (the
  zero-width space included) nor itself, unless it stands between two symbols, and inside code
  only the backtick is; a marker opens its style, or ends it when it is already open.
\<close>

theorem scroll_spans_correct:
  assumes "valid_utf8 line"
  shows "spans line = styled_spans (chars_of line)"
proof -
  have "concat (chars_of line) = line" "list_all one_char (chars_of line)"
    using chars_of_valid [OF assms] by simp_all
  moreover have "style_at cs 0 = SpPlain" for cs by (simp add: style_at_def)
  ultimately show ?thesis
    using loop_segments [of "chars_of line" 0 0 "[]"] by (simp add: spans_def styled_spans_def)
qed

text \<open>Markup, a literal star between blanks, one between symbols, and stars inside code.\<close>

lemma scroll_spans_witness:
  "spans (''a * (*) *b* '' @ [BACKTICK] @ ''*c*'' @ [BACKTICK]) =
     [\<lparr>sp_kind = SpPlain, sp_text = ''a * (*) ''\<rparr>, \<lparr>sp_kind = SpStrong, sp_text = ''b''\<rparr>,
      \<lparr>sp_kind = SpPlain, sp_text = '' ''\<rparr>, \<lparr>sp_kind = SpCode, sp_text = ''*c*''\<rparr>]"
proof -
  have "valid_utf8 (''a * (*) *b* '' @ [BACKTICK] @ ''*c*'' @ [BACKTICK])" by code_simp
  from scroll_spans_correct [OF this] show ?thesis by (simp only:) code_simp
qed

section \<open>Escaping\<close>

definition escape_line :: "string \<Rightarrow> string" where
  "escape_line t = (if is_escapable t then BACKSLASH # t else t)"

text \<open>
  Every paragraph line can be written: for every non-blank line that does not start with a
  backslash, the line itself, or the line behind a backslash when it starts like another linetype,
  parses as a paragraph with exactly that text.
\<close>

theorem scroll_escape_line:
  assumes "trim t \<noteq> []" "hd t \<noteq> BACKSLASH"
  shows "scroll_parse_line (escape_line t) = SLText t"
proof (cases "is_escapable t")
  case True
  then show ?thesis
    using trim_visible_head [of BACKSLASH t]
    by (simp add: escape_line_def scroll_parse_line_def ascii_def ascii_ws_def between_def)
next
  case False
  have "strip_prefix [BACKSLASH] t = None"
    using assms(2) by (cases t) auto
  moreover have "starts_with ''#'' t \<Longrightarrow> 5 < count_prefix (CHR ''#'') t"
    using False by (cases t) (auto simp: is_escapable_def Let_def starts_with_def count_prefix_def)
  moreover have "\<not> starts_with ''>'' t" "strip_prefix ''=>'' t = None" "strip_prefix ''=:'' t = None"
      "t \<noteq> ''---''" "\<not> (1 \<le> count_prefix (CHR ''*'') t \<and> count_prefix (CHR ''*'') t \<le> 4)"
    using False by (auto simp: is_escapable_def Let_def starts_with_def strip_prefix_def)
  ultimately show ?thesis
    using assms(1) False by (auto simp: escape_line_def scroll_parse_line_def Let_def)
qed

lemma scroll_escape_witness: "scroll_parse_line ([BACKSLASH] @ ''## not a heading'') = SLText ''## not a heading''"
proof -
  have "is_escapable ''## not a heading''"
    by (simp add: is_escapable_def count_prefix_def)
  then show ?thesis
    using scroll_escape_line [of "''## not a heading''"] trim_visible_head [of "CHR ''#''" "''# not a heading''"]
    by (simp add: escape_line_def ascii_def ascii_ws_def between_def)
qed

section \<open>Code blocks\<close>

text \<open>Lines between fences are kept verbatim, whatever they look like.\<close>

lemma foldl_code:
  "\<forall>l \<in> set code. \<not> starts_with CODE_FENCE l \<Longrightarrow>
     foldl scroll_step (ls, Some (tag, collected)) code = (ls, Some (tag, collected @ code))"
  by (induction code arbitrary: collected) auto

lemma scroll_code_block:
  assumes "\<forall>l \<in> set code. \<not> starts_with CODE_FENCE l"
  shows "foldl scroll_step (ls, None) ((CODE_FENCE @ tag) # code @ [CODE_FENCE]) =
    (ls @ [SLCodeBlock (if trim tag \<noteq> [] then Some (trim tag) else None) code], None)"
  using foldl_code [OF assms] by (simp add: starts_with_def)

end
