(* ===== verification/Line_Server.thy ===== *)
theory Line_Server
  imports Rust_Int
begin

text \<open>
  What the one-request-per-connection protocols (nex, finger, gopher, spartan) have in common:
  the server's read loop for the request line, the client's read loop with a size cap, and the
  contract between the two ends of such a connection.
\<close>

section \<open>Read loops\<close>

text \<open>
  The server's loop: LF or the end of the stream ends the line, and a line that has grown to
  \<open>limit\<close> bytes is given up (the test comes after the push).
\<close>

fun closing_line :: "nat \<Rightarrow> string \<Rightarrow> string \<Rightarrow> stream_end \<Rightarrow> pushed" where
  "closing_line limit line [] e = (case e of Eof \<Rightarrow> Pushed line | Broken \<Rightarrow> PushFailed)"
| "closing_line limit line (c # cs) e =
     (if c = LF then Pushed line
      else if limit \<le> length (line @ [c]) then PushOverlong
      else closing_line limit (line @ [c]) cs e)"

text \<open>\<open>trim_end_matches('\r')\<close>.\<close>

definition trim_crs :: "string \<Rightarrow> string" where
  "trim_crs s = rev (dropWhile (\<lambda>c. c = CR) (rev s))"

text \<open>
  The client's loop: read to the end of the stream, giving up as soon as more than \<open>cap\<close> bytes
  have arrived.
\<close>

datatype capped = Whole string | Exceeds | ReadBroken

definition read_within :: "nat \<Rightarrow> string \<times> stream_end \<Rightarrow> capped" where
  "read_within cap = (\<lambda>(raw, e).
     if cap < length raw then Exceeds else case e of Eof \<Rightarrow> Whole raw | Broken \<Rightarrow> ReadBroken)"

lemma read_within_whole [simp]: "length raw \<le> cap \<Longrightarrow> read_within cap (raw, Eof) = Whole raw"
  by (simp add: read_within_def)

lemma read_within_bound: "read_within cap r = Whole raw \<Longrightarrow> length raw \<le> cap \<and> r = (raw, Eof)"
  by (auto simp: read_within_def split: prod.splits if_splits stream_end.splits)

lemma trim_crs_snoc [simp]: "trim_crs (l @ [CR]) = trim_crs l"
  by (simp add: trim_crs_def)

lemma trim_crs_id: "l = [] \<or> last l \<noteq> CR \<Longrightarrow> trim_crs l = l"
  by (cases l rule: rev_cases) (auto simp: trim_crs_def)

lemma trim_crs_visible [simp]: "visible l \<Longrightarrow> trim_crs l = l"
  by (intro trim_crs_id) (metis last_in_set visible_not_sp(3))

lemma slash_visible [simp]: "ascii (CHR ''/'')" "\<not> ascii_ws (CHR ''/'')"
  by (simp_all add: ascii_def ascii_ws_def between_def)

lemma closing_line_append:
  "LF \<notin> set l \<Longrightarrow> length acc + length l < limit \<Longrightarrow>
     closing_line limit acc (l @ LF # rest) e = Pushed (acc @ l)"
  by (induction l arbitrary: acc) auto

lemma closing_line_crlf [simp]:
  "LF \<notin> set l \<Longrightarrow> Suc (length l) < limit \<Longrightarrow> closing_line limit [] (l @ CR # LF # rest) e = Pushed (l @ [CR])"
  using closing_line_append [of "l @ [CR]" "[]" limit rest e] by simp

lemma closing_line_overlong:
  "LF \<notin> set l \<Longrightarrow> limit \<le> length acc + length l \<Longrightarrow> length acc < limit \<Longrightarrow>
     closing_line limit acc (l @ rest) e = PushOverlong"
  by (induction l arbitrary: acc) auto

text \<open>No more than \<open>limit\<close> bytes are ever buffered.\<close>

lemma closing_line_bound:
  "closing_line limit acc s e = Pushed l \<Longrightarrow> length acc < limit \<Longrightarrow> LF \<notin> set acc \<Longrightarrow>
     length l < limit \<and> LF \<notin> set l"
  by (induction limit acc s e arbitrary: l rule: closing_line.induct)
    (auto split: if_splits stream_end.splits)

text \<open>
  \<open>BufReader::read_line\<close>: the bytes up to and including an LF (or all that is left at the end of the
  stream), which must be UTF-8; and the rest of the stream.
\<close>

fun read_lf :: "string \<Rightarrow> string \<Rightarrow> stream_end \<Rightarrow> (read_failure + string) \<times> string" where
  "read_lf acc [] e = (case e of Eof \<Rightarrow> Inr acc | Broken \<Rightarrow> Inl ReadError, [])"
| "read_lf acc (c # cs) e = (if c = LF then (Inr (acc @ [c]), cs) else read_lf (acc @ [c]) cs e)"

definition read_text_line :: "string \<Rightarrow> stream_end \<Rightarrow> (read_failure + string) \<times> string" where
  "read_text_line s e =
     (case read_lf [] s e of
        (Inl x, rest) \<Rightarrow> (Inl x, rest)
      | (Inr l, rest) \<Rightarrow> (if valid_utf8 l then Inr l else Inl NotUtf8, rest))"

lemma read_lf_append: "LF \<notin> set l \<Longrightarrow> read_lf acc (l @ LF # rest) e = (Inr (acc @ l @ [LF]), rest)"
  by (induction l arbitrary: acc) auto

lemma read_text_line_lf:
  "LF \<notin> set l \<Longrightarrow> valid_utf8 l \<Longrightarrow> read_text_line (l @ LF # rest) e = (Inr (l @ [LF]), rest)"
  by (simp add: read_text_line_def read_lf_append valid_utf8_append ascii_def)

lemma read_text_line_crlf [simp]:
  "LF \<notin> set l \<Longrightarrow> valid_utf8 l \<Longrightarrow> read_text_line (l @ CR # LF # rest) e = (Inr (l @ [CR, LF]), rest)"
  using read_text_line_lf [of "l @ [CR]" rest e] by (simp add: valid_utf8_append ascii_def)

text \<open>A trimmed string neither starts nor ends with ASCII white space.\<close>

lemma ws_last_ws: "ascii_ws c \<Longrightarrow> ws_last (s @ [c]) = 1"
  by (simp add: ws_last_def byte_at_def)

lemma trimmed_ends:
  assumes "trim u = u" "u \<noteq> []"
  shows "\<not> ascii_ws (hd u)" "\<not> ascii_ws (last u)" "trim_start u = u"
proof -
  have "ws_head u = 0" "ws_last u = 0" using assms(1) by (simp_all add: trim_self_ws)
  then show "\<not> ascii_ws (hd u)" "\<not> ascii_ws (last u)" "trim_start u = u"
    using assms(2) ws_head_ws [of "hd u" "tl u"] ws_last_ws [of "last u" "butlast u"]
    by (auto intro: trim_start_id)
qed

lemma trim_newlines_trimmed: "trim u = u \<Longrightarrow> trim_newlines u = u"
  using trimmed_ends(2) [of u] by (intro trim_newlines_id) auto

lemma trim_trim_start [simp]: "trim (trim_start s) = trim s"
  by (simp add: trim_def trim_start_id ws_head_trim_start)

section \<open>The contract of a connection\<close>

text \<open>A server as the peer of a client: what the client reads back.\<close>

definition as_peer :: "(string \<Rightarrow> stream_end \<Rightarrow> string option) \<Rightarrow> string \<Rightarrow> string \<times> stream_end" where
  "as_peer server w = (case server w Eof of Some out \<Rightarrow> (out, Eof) | None \<Rightarrow> ([], Broken))"

text \<open>
  A protocol in which the client writes \<open>request_bytes q\<close>, and a server with configuration
  \<open>cfg\<close> that admits the request hands exactly \<open>q\<close> to its handler and writes the rendered answer.
\<close>

locale one_shot =
  fixes request_bytes :: "'q \<Rightarrow> string"
    and admits :: "'cfg \<Rightarrow> 'q \<Rightarrow> bool"
    and render :: "'r \<Rightarrow> string"
    and respond :: "'cfg \<Rightarrow> ('q \<Rightarrow> 'r) \<Rightarrow> string \<Rightarrow> stream_end \<Rightarrow> string option"
  assumes answers: "admits cfg q \<Longrightarrow> respond cfg h (request_bytes q) Eof = Some (render (h q))"
    and render_varies: "\<exists>a b. render a \<noteq> render b"
begin

lemma peer_answers: "admits cfg q \<Longrightarrow> as_peer (respond cfg h) (request_bytes q) = (render (h q), Eof)"
  by (simp add: as_peer_def answers)

text \<open>Two admitted requests with the same bytes are the same request.\<close>

lemma request_inj:
  assumes "admits cfg q" "admits cfg q'" "request_bytes q = request_bytes q'"
  shows "q = q'"
proof (rule ccontr)
  assume ne: "q \<noteq> q'"
  obtain a b where ab: "render a \<noteq> render b" using render_varies by blast
  let ?h = "\<lambda>x. if x = q then a else b"
  have "Some (render (?h q)) = Some (render (?h q'))"
    using answers [OF assms(1), of ?h] answers [OF assms(2), of ?h] assms(3) by simp
  with ne ab show False by simp
qed

lemma client_reads:
  assumes "admits cfg q" "length (render (h q)) \<le> cap"
  shows "read_within cap (as_peer (respond cfg h) (request_bytes q)) = Whole (render (h q))"
  using assms by (simp add: peer_answers)

end

end
