(* ===== verification/Dict_Wire.thy ===== *)
theory Dict_Wire
  imports Rust_Words Line_Server
begin

text \<open>
  DICT's grammar (\<open>crates/dict-protocol/src/wire.rs\<close>): status lines, dot-stuffed text blocks, quoted
  parameters and the three kinds of listing built from them; and the client's \<open>quote\<close>.
\<close>

section \<open>Status lines\<close>

definition DICT_PORT :: nat where "DICT_PORT = 2628"
definition DICT_MAX_LINE :: nat where "DICT_MAX_LINE = 1024"
definition DATABASES_FOLLOW :: nat where "DATABASES_FOLLOW = 110"
definition STRATEGIES_FOLLOW :: nat where "STRATEGIES_FOLLOW = 111"
definition DEFINITIONS_FOLLOW :: nat where "DEFINITIONS_FOLLOW = 150"
definition DEFINITION_FOLLOWS :: nat where "DEFINITION_FOLLOWS = 151"
definition MATCHES_FOLLOW :: nat where "MATCHES_FOLLOW = 152"
definition DICT_BANNER :: nat where "DICT_BANNER = 220"
definition DICT_OK :: nat where "DICT_OK = 250"
definition INVALID_DATABASE :: nat where "INVALID_DATABASE = 550"
definition INVALID_STRATEGY :: nat where "INVALID_STRATEGY = 551"
definition NO_MATCH :: nat where "NO_MATCH = 552"

lemmas dict_codes = DATABASES_FOLLOW_def STRATEGIES_FOLLOW_def DEFINITIONS_FOLLOW_def
  DEFINITION_FOLLOWS_def MATCHES_FOLLOW_def DICT_BANNER_def DICT_OK_def NO_MATCH_def

record dict_status =
  ds_code :: nat
  ds_text :: string

definition has_text_block :: "dict_status \<Rightarrow> bool" where
  "has_text_block s \<longleftrightarrow> 100 \<le> ds_code s \<and> ds_code s < 200"

definition is_success :: "dict_status \<Rightarrow> bool" where
  "is_success s \<longleftrightarrow> 200 \<le> ds_code s \<and> ds_code s < 300"

definition is_temporary_failure :: "dict_status \<Rightarrow> bool" where
  "is_temporary_failure s \<longleftrightarrow> 400 \<le> ds_code s \<and> ds_code s < 500"

definition is_permanent_failure :: "dict_status \<Rightarrow> bool" where
  "is_permanent_failure s \<longleftrightarrow> 500 \<le> ds_code s \<and> ds_code s < 600"

text \<open>Three ASCII digits end at a character boundary, so \<open>get(..3)\<close> and the digit test are one test.\<close>

definition dict_parse_status :: "string \<Rightarrow> dict_status option" where
  "dict_parse_status line0 =
     (let line = trim_newlines line0 in
      if length line < 3 \<or> \<not> list_all is_digit (take 3 line) then None
      else case parse_uint u16_max (take 3 line) of None \<Rightarrow> None
        | Some code \<Rightarrow> Some \<lparr>ds_code = code, ds_text = trim_start (drop 3 line)\<rparr>)"

section \<open>Text blocks\<close>

definition is_terminator :: "string \<Rightarrow> bool" where
  "is_terminator line \<longleftrightarrow> trim_newlines line = ''.''"

definition unstuff :: "string \<Rightarrow> string" where
  "unstuff line =
     (case strip_prefix ''.'' line of
        Some rest \<Rightarrow> if starts_with ''..'' line then rest else line
      | None \<Rightarrow> line)"

definition stuff :: "string \<Rightarrow> string" where
  "stuff line = (if starts_with ''.'' line then CHR ''.'' # line else line)"

section \<open>Parameters\<close>

text \<open>
  The loop of \<open>split_params\<close>. It steps byte by byte; outside quotes it drops a white-space character
  whole, and an escaped character of several bytes is escaped by its first byte, the others being
  neither quotes, backslashes nor white space.
\<close>

function split_params_loop :: "string \<Rightarrow> string list \<Rightarrow> string \<Rightarrow> bool \<Rightarrow> bool \<Rightarrow> bool \<Rightarrow> string list" where
  "split_params_loop [] params current in_quotes escaped started =
     (if started \<or> current \<noteq> [] then params @ [current] else params)"
| "split_params_loop (c # s) params current in_quotes escaped started =
     (if escaped then split_params_loop s params (current @ [c]) in_quotes False started
      else if c = CHR 0x5C \<and> in_quotes then split_params_loop s params current in_quotes True started
      else if c = CHR 0x22 then split_params_loop s params current (\<not> in_quotes) escaped True
      else if ws_head (c # s) \<noteq> 0 \<and> \<not> in_quotes then
        (if started \<or> current \<noteq> []
         then split_params_loop (drop (ws_head (c # s) - 1) s) (params @ [current]) [] in_quotes escaped False
         else split_params_loop (drop (ws_head (c # s) - 1) s) params current in_quotes escaped started)
      else split_params_loop s params (current @ [c]) in_quotes escaped started)"
  by pat_completeness auto
termination
  by (relation "measure (\<lambda>(s, _). length s)") auto

declare split_params_loop.simps(2) [simp del]

definition split_params :: "string \<Rightarrow> string list" where
  "split_params t = split_params_loop t [] [] False False False"

definition status_params :: "dict_status \<Rightarrow> string list" where
  "status_params s = split_params (ds_text s)"

definition replace_char :: "char \<Rightarrow> string \<Rightarrow> string \<Rightarrow> string" where
  "replace_char c r s = concat (map (\<lambda>x. if x = c then r else [x]) s)"

definition quote :: "string \<Rightarrow> string" where
  "quote param =
     (if param = [] \<or> find_ws param \<noteq> None \<or> CHR 0x22 \<in> set param
      then CHR 0x22 # replace_char (CHR 0x22) [CHR 0x5C, CHR 0x22]
             (replace_char (CHR 0x5C) [CHR 0x5C, CHR 0x5C] param) @ [CHR 0x22]
      else param)"

section \<open>Listings\<close>

record database =
  db_name :: string
  db_description :: string

definition database_of :: "string \<Rightarrow> database option" where
  "database_of line =
     (case split_params line of
        [] \<Rightarrow> None
      | name # tail \<Rightarrow>
          if name = [] then None
          else Some \<lparr>db_name = name, db_description = (case tail of d # _ \<Rightarrow> d | [] \<Rightarrow> [])\<rparr>)"

definition parse_databases :: "string list \<Rightarrow> database list" where
  "parse_databases ls = List.map_filter database_of ls"

record dict_match =
  dm_database :: string
  dm_word :: string

definition match_of :: "string \<Rightarrow> dict_match option" where
  "match_of line =
     (case split_params line of
        d # w # _ \<Rightarrow> Some \<lparr>dm_database = d, dm_word = w\<rparr>
      | _ \<Rightarrow> None)"

definition parse_matches :: "string list \<Rightarrow> dict_match list" where
  "parse_matches ls = List.map_filter match_of ls"

record definition_entry =
  de_word :: string
  de_database :: string
  de_description :: string
  de_text :: "string list"

definition parse_definition_header :: "dict_status \<Rightarrow> (string \<times> string \<times> string) option" where
  "parse_definition_header s =
     (case status_params s of
        w # d # tail \<Rightarrow> Some (w, d, case tail of n # _ \<Rightarrow> n | [] \<Rightarrow> [])
      | _ \<Rightarrow> None)"

section \<open>Stuffing\<close>

lemma unstuff_stuff [simp]: "unstuff (stuff l) = l"
  by (auto simp: unstuff_def stuff_def starts_with_iff strip_prefix_def split: option.split)

lemma stuff_not_period: "stuff l \<noteq> ''.''"
  by (auto simp: stuff_def starts_with_def)

section \<open>How parameters are written\<close>

definition dquote_body :: "string \<Rightarrow> string" where
  "dquote_body p = concat (map (\<lambda>x. if x = CHR 0x5C \<or> x = CHR 0x22 then [CHR 0x5C, x] else [x]) p)"

lemma quote_body: "replace_char (CHR 0x22) [CHR 0x5C, CHR 0x22] (replace_char (CHR 0x5C) [CHR 0x5C, CHR 0x5C] p) = dquote_body p"
  by (induction p) (auto simp: replace_char_def dquote_body_def)

text \<open>
  Between double quotes any character may be escaped and those two must be; a parameter is quoted, or
  written as it is when it has no white space and no quote; parameters stand one or more spaces apart.
\<close>

inductive quoted_as :: "string \<Rightarrow> string \<Rightarrow> bool" where
  quoted_end [intro]: "quoted_as [] []"
| quoted_plain [intro]: "quoted_as w b \<Longrightarrow> c \<noteq> CHR 0x22 \<Longrightarrow> c \<noteq> CHR 0x5C \<Longrightarrow> quoted_as (c # w) (c # b)"
| quoted_escaped [intro]: "quoted_as w b \<Longrightarrow> quoted_as (c # w) (CHR 0x5C # c # b)"

inductive param_as :: "string \<Rightarrow> string \<Rightarrow> bool" where
  param_bare: "w \<noteq> [] \<Longrightarrow> find_ws w = None \<Longrightarrow> CHR 0x22 \<notin> set w \<Longrightarrow> param_as w w"
| param_quoted: "quoted_as w b \<Longrightarrow> param_as w (CHR 0x22 # b @ [CHR 0x22])"

inductive params_as :: "string list \<Rightarrow> string \<Rightarrow> bool" where
  params_one: "param_as w b \<Longrightarrow> params_as [w] b"
| params_more: "param_as w b \<Longrightarrow> params_as ws t \<Longrightarrow> params_as (w # ws) (b @ replicate (Suc n) (CHR '' '') @ t)"

text \<open>The client's own \<open>quote\<close> is one of these ways.\<close>

lemma quoted_body: "quoted_as p (dquote_body p)"
  by (induction p) (auto simp: dquote_body_def)

lemma param_as_quote: "param_as p (quote p)"
  using param_quoted [OF quoted_body, of p] param_bare [of p] by (auto simp: quote_def quote_body)

lemma loop_quoted:
  "quoted_as w b \<Longrightarrow>
     split_params_loop (b @ CHR 0x22 # s) ps cur True False True = split_params_loop s ps (cur @ w) False False True"
  by (induction w b arbitrary: cur rule: quoted_as.induct) (simp_all add: split_params_loop.simps(2))

lemma find_ws_None_Cons: "find_ws (c # s) = None \<Longrightarrow> ws_head (c # s) = 0 \<and> find_ws s = None"
  by (auto split: if_splits)

text \<open>Where there is no white space in a string, there is none in front of what follows a space.\<close>

lemma ws_multi_space [simp]: "\<not> ws2 a (CHR '' '')" "\<not> ws3 a (CHR '' '') b" "\<not> ws3 a b (CHR '' '')"
  by (simp_all add: ws2_def ws3_def between_def)

lemma ws_head_before_space:
  assumes "ws_head (c # s) = 0"
  shows "ws_head (c # s @ CHR '' '' # t) = 0"
proof (cases s)
  case Nil
  with assms show ?thesis by (simp add: ws_head_def byte_at_def split: if_splits)
next
  case (Cons x r)
  show ?thesis
  proof (cases r)
    case Nil
    with assms Cons show ?thesis by (simp add: ws_head_def byte_at_def split: if_splits)
  next
    case (Cons y q)
    with assms \<open>s = x # r\<close> show ?thesis by (simp add: ws_head_def byte_at_def split: if_splits)
  qed
qed

lemma loop_plain:
  assumes "find_ws p = None" "CHR 0x22 \<notin> set p" "s = [] \<or> hd s = CHR '' ''"
  shows "split_params_loop (p @ s) ps cur False False st = split_params_loop s ps (cur @ p) False False st"
  using assms
proof (induction p arbitrary: cur)
  case (Cons c p)
  then have ws: "ws_head (c # p) = 0" "find_ws p = None" using find_ws_None_Cons by blast+
  have "ws_head (c # p @ s) = 0"
    using Cons.prems(3) ws(1) ws_head_before_space [of c p "tl s"] by (cases s) auto
  moreover have "c \<noteq> CHR 0x22" using Cons.prems(2) by auto
  ultimately show ?case using Cons ws by (simp add: split_params_loop.simps(2))
qed simp

lemma loop_space:
  "split_params_loop (CHR '' '' # s) ps cur False False st =
     (if st \<or> cur \<noteq> [] then split_params_loop s (ps @ [cur]) [] False False False
      else split_params_loop s ps cur False False st)"
  by (simp add: split_params_loop.simps(2) ws_head_ws)

lemma loop_spaces: "split_params_loop (replicate n (CHR '' '') @ s) ps [] False False False = split_params_loop s ps [] False False False"
  by (induction n) (simp_all add: loop_space)

lemma loop_param:
  assumes "param_as w b" "s = [] \<or> hd s = CHR '' ''"
  shows "split_params_loop (b @ s) ps [] False False False =
    (if s = [] then ps @ [w] else split_params_loop (tl s) (ps @ [w]) [] False False False)"
  using assms
proof cases
  case param_bare
  then have "split_params_loop (b @ s) ps [] False False False = split_params_loop s ps w False False False"
    using loop_plain [of w s ps "[]" False] assms(2) by simp
  with param_bare assms(2) show ?thesis by (cases s) (auto simp: loop_space)
next
  case (param_quoted d)
  then have "split_params_loop (b @ s) ps [] False False False = split_params_loop s ps w False False True"
    using loop_quoted [of w d s ps "[]"] by (simp add: split_params_loop.simps(2))
  with assms(2) show ?thesis by (cases s) (auto simp: loop_space)
qed

lemma loop_params: "params_as ws t \<Longrightarrow> split_params_loop t ps [] False False False = ps @ ws"
proof (induction ws t arbitrary: ps rule: params_as.induct)
  case (params_one w b)
  then show ?case using loop_param [of w b "[]" ps] by simp
next
  case (params_more w b ws t n)
  then show ?case using loop_param [of w b "replicate (Suc n) (CHR '' '') @ t" ps] by (simp add: loop_spaces)
qed

lemma split_params_written: "params_as ws t \<Longrightarrow> split_params t = ws"
  by (simp add: split_params_def loop_params)

end
