(* ===== verification/Dict_Client.thy ===== *)
theory Dict_Client
  imports Dict_Wire
begin

text \<open>
  The DICT session (\<open>crates/dict-protocol/src/client.rs\<close>): the commands over one open connection.
  The state is what the server has still to say, how its stream ends, whether writes are accepted,
  and what the client has written. Every operation returns its result and the new state.
\<close>

section \<open>State and reading\<close>

datatype dict_error =
    DictConnect | DictIo
  | DictTooLong | DictClosed | DictNotStatus string | DictBadBanner nat string | DictMalformed151 string
  | DictRefused nat string

record dict_session =
  in_bytes :: string
  in_end :: stream_end
  out_ok :: bool
  out_bytes :: string
  banner :: dict_status

type_synonym 'a dict_result = "(dict_error + 'a) \<times> dict_session"

definition andthen :: "'a dict_result \<Rightarrow> ('a \<Rightarrow> dict_session \<Rightarrow> 'b dict_result) \<Rightarrow> 'b dict_result" where
  "andthen r f = (case r of (Inl x, s) \<Rightarrow> (Inl x, s) | (Inr v, s) \<Rightarrow> f v s)"

definition dict_read_line :: "dict_session \<Rightarrow> string dict_result" where
  "dict_read_line s =
     (case read_text_line (in_bytes s) (in_end s) of
        (Inl _, rest) \<Rightarrow> (Inl DictIo, s\<lparr>in_bytes := rest\<rparr>)
      | (Inr line, rest) \<Rightarrow> (if line = [] then Inl DictClosed else Inr line, s\<lparr>in_bytes := rest\<rparr>))"

definition read_status :: "dict_session \<Rightarrow> dict_status dict_result" where
  "read_status s =
     andthen (dict_read_line s) (\<lambda>line s.
       (case dict_parse_status line of None \<Rightarrow> Inl (DictNotStatus line) | Some st \<Rightarrow> Inr st, s))"

text \<open>\<open>connect\<close> and \<open>over\<close>: a fresh session over a connected stream reads the banner.\<close>

definition dict_over :: "string \<Rightarrow> stream_end \<Rightarrow> bool \<Rightarrow> dict_error + dict_session" where
  "dict_over input e writable =
     (let s0 = \<lparr>in_bytes = input, in_end = e, out_ok = writable, out_bytes = [], banner = \<lparr>ds_code = 0, ds_text = []\<rparr>\<rparr> in
      case read_status s0 of
        (Inl x, _) \<Rightarrow> Inl x
      | (Inr st, s) \<Rightarrow>
          if ds_code st \<noteq> DICT_BANNER then Inl (DictBadBanner (ds_code st) (ds_text st))
          else Inr (s\<lparr>banner := st\<rparr>))"

text \<open>\<open>connect\<close>: what the dialled server sends and whether it can be written to, or a failure.\<close>

definition dict_connect ::
    "(string \<Rightarrow> nat \<Rightarrow> (string \<times> stream_end \<times> bool) option) \<Rightarrow> string \<Rightarrow> nat option \<Rightarrow> dict_error + dict_session" where
  "dict_connect dial host port =
     (case dial host (case port of Some p \<Rightarrow> p | None \<Rightarrow> DICT_PORT) of
        None \<Rightarrow> Inl DictConnect
      | Some (input, e, writable) \<Rightarrow> dict_over input e writable)"

lemma read_lf_length: "read_lf acc s e = (Inr l, rest) \<Longrightarrow> length acc + length s = length l + length rest"
  by (induction acc s e rule: read_lf.induct) (auto split: if_splits stream_end.splits)

lemma dict_read_line_shorter: "dict_read_line s = (Inr line, s') \<Longrightarrow> length (in_bytes s') < length (in_bytes s)"
  by (auto simp: dict_read_line_def read_text_line_def split: prod.splits sum.splits if_splits
      dest!: read_lf_length)

function read_text_block :: "dict_session \<Rightarrow> string list \<Rightarrow> string list dict_result" where
  "read_text_block s acc =
     (case dict_read_line s of
        (Inl x, s') \<Rightarrow> (Inl x, s')
      | (Inr line, s') \<Rightarrow>
          if is_terminator line then (Inr acc, s')
          else read_text_block s' (acc @ [unstuff (trim_newlines line)]))"
  by pat_completeness auto
termination
  by (relation "measure (\<lambda>(s, _). length (in_bytes s))") (auto dest: dict_read_line_shorter [OF sym])

declare read_text_block.simps [simp del]

lemma read_text_block_shorter:
  "read_text_block s acc = (Inr ls, s') \<Longrightarrow> length (in_bytes s') < length (in_bytes s)"
proof (induction s acc rule: read_text_block.induct)
  case (1 s acc)
  show ?case
  proof (cases "dict_read_line s")
    case (Pair r s1)
    show ?thesis
    proof (cases r)
      case (Inl x)
      with 1 Pair show ?thesis by (subst (asm) read_text_block.simps) simp
    next
      case (Inr line)
      note shorter = dict_read_line_shorter [of s line s1]
      show ?thesis
      proof (cases "is_terminator line")
        case True
        with 1(2) Pair Inr shorter show ?thesis by (subst (asm) read_text_block.simps) simp
      next
        case False
        with 1(2) Pair Inr have "read_text_block s1 (acc @ [unstuff (trim_newlines line)]) = (Inr ls, s')"
          by (subst (asm) read_text_block.simps) simp
        with 1(1) [OF Pair [symmetric] Inr False] shorter Pair Inr show ?thesis by fastforce
      qed
    qed
  qed
qed

section \<open>Commands\<close>

definition command :: "dict_session \<Rightarrow> string \<Rightarrow> dict_status dict_result" where
  "command s line =
     (if DICT_MAX_LINE < length line + 2 then (Inl DictTooLong, s)
      else if \<not> out_ok s then (Inl DictIo, s)
      else read_status (s\<lparr>out_bytes := out_bytes s @ line @ CRLF\<rparr>))"

definition refused :: "dict_status \<Rightarrow> dict_error" where
  "refused st = DictRefused (ds_code st) (ds_text st)"

definition expect_ok :: "dict_session \<Rightarrow> unit dict_result" where
  "expect_ok s = andthen (read_status s) (\<lambda>st s. (if is_success st then Inr () else Inl (refused st), s))"

text \<open>\<open>SHOW DB\<close> and \<open>SHOW STRAT\<close>: one listing each, or the code for an empty one.\<close>

definition databases :: "dict_session \<Rightarrow> database list dict_result" where
  "databases s =
     andthen (command s ''SHOW DB'') (\<lambda>st s.
       if ds_code st = DATABASES_FOLLOW then
         andthen (read_text_block s []) (\<lambda>ls s.
           andthen (expect_ok s) (\<lambda>_ s. (Inr (parse_databases ls), s)))
       else if ds_code st = 554 then (Inr [], s)
       else (Inl (refused st), s))"

definition strategies :: "dict_session \<Rightarrow> database list dict_result" where
  "strategies s =
     andthen (command s ''SHOW STRAT'') (\<lambda>st s.
       if ds_code st = STRATEGIES_FOLLOW then
         andthen (read_text_block s []) (\<lambda>ls s.
           andthen (expect_ok s) (\<lambda>_ s. (Inr (parse_databases ls), s)))
       else if ds_code st = 555 then (Inr [], s)
       else (Inl (refused st), s))"

lemma read_status_shorter: "read_status s = (Inr st, s') \<Longrightarrow> length (in_bytes s') < length (in_bytes s)"
  by (auto simp: read_status_def andthen_def split: prod.splits sum.splits option.splits dest: dict_read_line_shorter)

text \<open>The loop of \<open>define\<close> after the \<open>150\<close>.\<close>

function define_loop :: "dict_session \<Rightarrow> definition_entry list \<Rightarrow> definition_entry list dict_result" where
  "define_loop s defs =
     (case read_status s of
        (Inl x, s') \<Rightarrow> (Inl x, s')
      | (Inr st, s') \<Rightarrow>
          if ds_code st = DEFINITION_FOLLOWS then
            (case parse_definition_header st of
               None \<Rightarrow> (Inl (DictMalformed151 (ds_text st)), s')
             | Some (w, d, n) \<Rightarrow>
                 (case read_text_block s' [] of
                    (Inl x, s'') \<Rightarrow> (Inl x, s'')
                  | (Inr ls, s'') \<Rightarrow>
                      define_loop s'' (defs @ [\<lparr>de_word = w, de_database = d, de_description = n, de_text = ls\<rparr>])))
          else if is_success st then (Inr defs, s')
          else (Inl (refused st), s'))"
  by pat_completeness auto
termination
  by (relation "measure (\<lambda>(s, _). length (in_bytes s))")
    (auto dest!: read_status_shorter [OF sym] read_text_block_shorter [OF sym])

declare define_loop.simps [simp del]

definition define_word :: "dict_session \<Rightarrow> string \<Rightarrow> string \<Rightarrow> definition_entry list dict_result" where
  "define_word s db word =
     andthen (command s (''DEFINE '' @ quote db @ '' '' @ quote word)) (\<lambda>st s.
       if ds_code st = DEFINITIONS_FOLLOW then define_loop s []
       else if ds_code st = NO_MATCH then (Inr [], s)
       else (Inl (refused st), s))"

definition matches :: "dict_session \<Rightarrow> string \<Rightarrow> string \<Rightarrow> string \<Rightarrow> dict_match list dict_result" where
  "matches s db strategy word =
     andthen (command s (''MATCH '' @ quote db @ '' '' @ quote strategy @ '' '' @ quote word)) (\<lambda>st s.
       if ds_code st = MATCHES_FOLLOW then
         andthen (read_text_block s []) (\<lambda>ls s.
           andthen (expect_ok s) (\<lambda>_ s. (Inr (parse_matches ls), s)))
       else if ds_code st = NO_MATCH then (Inr [], s)
       else (Inl (refused st), s))"

definition announce :: "dict_session \<Rightarrow> string \<Rightarrow> unit dict_result" where
  "announce s t =
     andthen (command s (''CLIENT '' @ t)) (\<lambda>st s. (if is_success st then Inr () else Inl (refused st), s))"

definition quit :: "dict_session \<Rightarrow> unit dict_result" where
  "quit s = andthen (command s ''QUIT'') (\<lambda>st s. (if is_success st then Inr () else Inl (refused st), s))"

section \<open>What a server writes\<close>

text \<open>A status line and a text block, the way RFC 2229 frames them.\<close>

definition status_line :: "nat \<Rightarrow> string \<Rightarrow> string" where
  "status_line code t = show_nat code @ '' '' @ t @ CRLF"

definition block_bytes :: "string list \<Rightarrow> string" where
  "block_bytes ls = concat (map (\<lambda>l. stuff l @ CRLF) ls) @ ''.'' @ CRLF"

definition clean_line :: "string \<Rightarrow> bool" where
  "clean_line l \<longleftrightarrow> valid_utf8 l \<and> LF \<notin> set l \<and> (l = [] \<or> last l \<noteq> CR)"

definition clean_text :: "string \<Rightarrow> bool" where
  "clean_text t \<longleftrightarrow> clean_line t \<and> trim_start t = t"

lemma clean_last: "clean_line l \<Longrightarrow> l = [] \<or> last l \<noteq> CR \<and> last l \<noteq> LF"
  unfolding clean_line_def by (metis last_in_set)

lemma trim_newlines_clean: "clean_line l \<Longrightarrow> trim_newlines l = l"
  by (intro trim_newlines_id clean_last)

lemma show_code3:
  assumes "100 \<le> n" "n < 1000"
  shows "length (show_nat n) = 3"
proof -
  have "10 \<le> n div 10" "n div 10 < 100" using assms by auto
  then have "length (show_nat (n div 10)) = 2" by (simp add: two_digits(1))
  with assms show ?thesis by (subst show_nat.simps) simp
qed

lemma parse_status_line:
  assumes "100 \<le> code" "code < 1000" "clean_text t"
  shows "dict_parse_status (show_nat code @ CHR '' '' # t @ CRLF) = Some \<lparr>ds_code = code, ds_text = t\<rparr>"
proof -
  have "trim_newlines (show_nat code @ CHR '' '' # t) = show_nat code @ CHR '' '' # t"
    using assms(3) clean_last [of t] by (intro trim_newlines_id) (auto simp: clean_text_def)
  then have "trim_newlines (show_nat code @ CHR '' '' # t @ CRLF) = show_nat code @ CHR '' '' # t"
    using trim_newlines_crlf [of "show_nat code @ CHR '' '' # t"] by simp
  moreover have "list_all is_digit (show_nat code)" using show_nat_digits by (simp add: list_all_iff)
  moreover have "length (show_nat code) = 3" using assms(1,2) by (rule show_code3)
  ultimately show ?thesis
    using assms by (simp add: dict_parse_status_def clean_text_def trim_start_ws)
qed

lemma read_line_crlf:
  assumes "valid_utf8 l" "LF \<notin> set l"
  shows "dict_read_line (s\<lparr>in_bytes := l @ CR # LF # rest\<rparr>) = (Inr (l @ CRLF), s\<lparr>in_bytes := rest\<rparr>)"
  using assms by (simp add: dict_read_line_def)

lemma valid_utf8_coded: "valid_utf8 t \<Longrightarrow> valid_utf8 (show_nat n @ CHR '' '' # t)"
  by (intro valid_utf8_append) (simp_all add: ascii_def)

lemma read_status_line:
  assumes "100 \<le> code" "code < 1000" "clean_text t"
  shows "read_status (s\<lparr>in_bytes := status_line code t @ rest\<rparr>) = (Inr \<lparr>ds_code = code, ds_text = t\<rparr>, s\<lparr>in_bytes := rest\<rparr>)"
proof -
  have "dict_read_line (s\<lparr>in_bytes := status_line code t @ rest\<rparr>) =
      (Inr ((show_nat code @ CHR '' '' # t) @ CRLF), s\<lparr>in_bytes := rest\<rparr>)"
    using assms(3) read_line_crlf [where l = "show_nat code @ CHR '' '' # t" and s = s and rest = rest] valid_utf8_coded
    by (simp add: status_line_def clean_text_def clean_line_def)
  then show ?thesis
    using parse_status_line [OF assms] by (simp add: read_status_def andthen_def)
qed

lemma clean_stuff: "clean_line l \<Longrightarrow> clean_line (stuff l)"
  by (auto simp: clean_line_def stuff_def ascii_def)

lemma read_block:
  "\<forall>l \<in> set ls. clean_line l \<Longrightarrow>
     read_text_block (s\<lparr>in_bytes := block_bytes ls @ rest\<rparr>) acc = (Inr (acc @ ls), s\<lparr>in_bytes := rest\<rparr>)"
proof (induction ls arbitrary: acc)
  case Nil
  have "dict_read_line (s\<lparr>in_bytes := ''.'' @ CR # LF # rest\<rparr>) = (Inr (''.'' @ CRLF), s\<lparr>in_bytes := rest\<rparr>)"
    by (rule read_line_crlf) (simp_all add: ascii_def)
  moreover have "is_terminator (''.'' @ CRLF)"
    unfolding is_terminator_def trim_newlines_crlf by (intro trim_newlines_id) simp
  ultimately show ?case by (subst read_text_block.simps) (simp add: block_bytes_def)
next
  case (Cons l ls)
  then have c: "clean_line (stuff l)" by (simp add: clean_stuff)
  have "dict_read_line (s\<lparr>in_bytes := stuff l @ CR # LF # block_bytes ls @ rest\<rparr>) =
      (Inr (stuff l @ CRLF), s\<lparr>in_bytes := block_bytes ls @ rest\<rparr>)"
    using c by (intro read_line_crlf) (simp_all add: clean_line_def)
  moreover have "block_bytes (l # ls) @ rest = stuff l @ CR # LF # block_bytes ls @ rest"
    by (simp add: block_bytes_def)
  moreover have t: "trim_newlines (stuff l @ CRLF) = stuff l"
    unfolding trim_newlines_crlf using c by (rule trim_newlines_clean)
  moreover have "\<not> is_terminator (stuff l @ CRLF)"
    unfolding is_terminator_def t by (rule stuff_not_period)
  ultimately show ?case using Cons by (subst read_text_block.simps) simp
qed

section \<open>A whole session\<close>

text \<open>The calls of a session with what a server may answer, as data.\<close>

datatype dict_call =
    CallDatabases | CallStrategies | CallDefine string string | CallMatch string string string
  | CallAnnounce string

datatype dict_answer =
    ListsDatabases "database list" | ListsDefinitions "definition_entry list" | ListsMatches "dict_match list"
  | Acknowledges

definition run_call :: "dict_session \<Rightarrow> dict_call \<Rightarrow> dict_answer dict_result" where
  "run_call s call =
     (case call of
        CallDatabases \<Rightarrow> andthen (databases s) (\<lambda>v s. (Inr (ListsDatabases v), s))
      | CallStrategies \<Rightarrow> andthen (strategies s) (\<lambda>v s. (Inr (ListsDatabases v), s))
      | CallDefine db w \<Rightarrow> andthen (define_word s db w) (\<lambda>v s. (Inr (ListsDefinitions v), s))
      | CallMatch db st w \<Rightarrow> andthen (matches s db st w) (\<lambda>v s. (Inr (ListsMatches v), s))
      | CallAnnounce t \<Rightarrow> andthen (announce s t) (\<lambda>_ s. (Inr Acknowledges, s)))"

text \<open>A caller that goes on after an error: the results of its calls, in order.\<close>

fun run_calls :: "dict_session \<Rightarrow> dict_call list \<Rightarrow> (dict_error + dict_answer) list \<times> dict_session" where
  "run_calls s [] = ([], s)"
| "run_calls s (c # cs) =
     (case run_call s c of (r, s1) \<Rightarrow> case run_calls s1 cs of (rs, s2) \<Rightarrow> (r # rs, s2))"

definition call_line :: "dict_call \<Rightarrow> string" where
  "call_line call =
     (case call of
        CallDatabases \<Rightarrow> ''SHOW DB''
      | CallStrategies \<Rightarrow> ''SHOW STRAT''
      | CallDefine db w \<Rightarrow> ''DEFINE '' @ quote db @ '' '' @ quote w
      | CallMatch db st w \<Rightarrow> ''MATCH '' @ quote db @ '' '' @ quote st @ '' '' @ quote w
      | CallAnnounce t \<Rightarrow> ''CLIENT '' @ t)"

definition call_fits :: "dict_call \<Rightarrow> bool" where
  "call_fits call \<longleftrightarrow> length (call_line call) + 2 \<le> DICT_MAX_LINE"

text \<open>What the calls put on the wire: a call that is too long, nothing.\<close>

definition calls_sent :: "dict_call list \<Rightarrow> string" where
  "calls_sent calls = concat (map (\<lambda>c. call_line c @ CRLF) (filter call_fits calls))"

text \<open>
  The bytes with which a server may answer, in the wording it likes: a status line of a class with
  any text, a listing under its code, and one definition under its \<open>151\<close>.
\<close>

definition status_in :: "nat \<Rightarrow> nat \<Rightarrow> string \<Rightarrow> bool" where
  "status_in lo hi w \<longleftrightarrow> (\<exists>c t. lo \<le> c \<and> c < hi \<and> clean_text t \<and> w = status_line c t)"

abbreviation status_of :: "nat \<Rightarrow> string \<Rightarrow> bool" where "status_of c \<equiv> status_in c (Suc c)"
abbreviation success_line :: "string \<Rightarrow> bool" where "success_line \<equiv> status_in 200 300"

definition listing_as :: "nat \<Rightarrow> ('a \<Rightarrow> string \<Rightarrow> bool) \<Rightarrow> 'a list \<Rightarrow> string \<Rightarrow> bool" where
  "listing_as code line_as xs w \<longleftrightarrow>
     (\<exists>first ls fin. status_of code first \<and> list_all2 (\<lambda>x l. line_as x l \<and> clean_line l) xs ls \<and> success_line fin \<and>
        w = first @ block_bytes ls @ fin)"

definition database_as :: "database \<Rightarrow> string \<Rightarrow> bool" where
  "database_as d l \<longleftrightarrow> params_as [db_name d, db_description d] l \<and> db_name d \<noteq> []"

definition match_as :: "dict_match \<Rightarrow> string \<Rightarrow> bool" where
  "match_as m l \<longleftrightarrow> params_as [dm_database m, dm_word m] l"

definition definition_as :: "definition_entry \<Rightarrow> string \<Rightarrow> bool" where
  "definition_as d w \<longleftrightarrow>
     (\<exists>h. params_as [de_word d, de_database d, de_description d] h \<and> clean_text h \<and>
        (\<forall>l \<in> set (de_text d). clean_line l) \<and> w = status_line 151 h @ block_bytes (de_text d))"

text \<open>The code that says that there is nothing to list.\<close>

definition nothing_code :: "dict_call \<Rightarrow> nat option" where
  "nothing_code call =
     (case call of CallDatabases \<Rightarrow> Some 554 | CallStrategies \<Rightarrow> Some 555
      | CallDefine _ _ \<Rightarrow> Some 552 | CallMatch _ _ _ \<Rightarrow> Some 552 | CallAnnounce _ \<Rightarrow> None)"

text \<open>\<open>answers call r w\<close>: to the call, \<open>w\<close> is an answer that means \<open>r\<close>.\<close>

inductive answers :: "dict_call \<Rightarrow> dict_error + dict_answer \<Rightarrow> string \<Rightarrow> bool" where
  answer_databases: "listing_as 110 database_as ds w \<Longrightarrow> answers CallDatabases (Inr (ListsDatabases ds)) w"
| answer_strategies: "listing_as 111 database_as ds w \<Longrightarrow> answers CallStrategies (Inr (ListsDatabases ds)) w"
| answer_matches: "listing_as 152 match_as ms w \<Longrightarrow> answers (CallMatch db st wd) (Inr (ListsMatches ms)) w"
| answer_definitions: "status_of 150 first \<Longrightarrow> list_all2 definition_as ds ws \<Longrightarrow> success_line fin \<Longrightarrow>
    answers (CallDefine db wd) (Inr (ListsDefinitions ds)) (first @ concat ws @ fin)"
| answer_announced: "success_line w \<Longrightarrow> answers (CallAnnounce t) (Inr Acknowledges) w"
| no_databases: "status_of 554 w \<Longrightarrow> answers CallDatabases (Inr (ListsDatabases [])) w"
| no_strategies: "status_of 555 w \<Longrightarrow> answers CallStrategies (Inr (ListsDatabases [])) w"
| no_matches: "status_of 552 w \<Longrightarrow> answers (CallMatch db st wd) (Inr (ListsMatches [])) w"
| no_definitions: "status_of 552 w \<Longrightarrow> answers (CallDefine db wd) (Inr (ListsDefinitions [])) w"
| answer_refused: "400 \<le> c \<Longrightarrow> c < 600 \<Longrightarrow> clean_text t \<Longrightarrow> nothing_code call \<noteq> Some c \<Longrightarrow>
    answers call (Inl (DictRefused c t)) (status_line c t)"

text \<open>One step of a plan: a call, its result and the bytes that answer it; too long a call is not sent.\<close>

definition step_ok :: "dict_call \<times> (dict_error + dict_answer) \<times> string \<Rightarrow> bool" where
  "step_ok = (\<lambda>(call, r, w). if call_fits call then answers call r w else r = Inl DictTooLong \<and> w = [])"

abbreviation sent :: "dict_session \<Rightarrow> dict_call \<Rightarrow> dict_session" where
  "sent s call \<equiv> s\<lparr>out_bytes := out_bytes s @ call_line call @ CRLF\<rparr>"

lemma andthen_simps [simp]: "andthen (Inl x, s) f = (Inl x, s)" "andthen (Inr v, s) f = f v s"
  by (simp_all add: andthen_def)

lemma status_inI [intro]: "lo \<le> c \<Longrightarrow> c < hi \<Longrightarrow> clean_text t \<Longrightarrow> status_in lo hi (status_line c t)"
  by (auto simp: status_in_def)

lemma read_status_in:
  assumes "status_in lo hi w" "100 \<le> lo" "hi \<le> 1000"
  obtains st where "lo \<le> ds_code st" "ds_code st < hi" "\<And>s rest. read_status (s\<lparr>in_bytes := w @ rest\<rparr>) = (Inr st, s\<lparr>in_bytes := rest\<rparr>)"
proof -
  from assms(1) obtain c t where c: "lo \<le> c" "c < hi" "clean_text t" "w = status_line c t"
    by (auto simp: status_in_def)
  with assms(2,3) have "read_status (s\<lparr>in_bytes := w @ rest\<rparr>) = (Inr \<lparr>ds_code = c, ds_text = t\<rparr>, s\<lparr>in_bytes := rest\<rparr>)" for s rest
    using read_status_line [where code = c and t = t and s = s and rest = rest] by simp
  with c that [of "\<lparr>ds_code = c, ds_text = t\<rparr>"] show ?thesis by simp
qed

lemma read_done:
  assumes "success_line fin"
  shows "expect_ok (s\<lparr>in_bytes := fin @ rest\<rparr>) = (Inr (), s\<lparr>in_bytes := rest\<rparr>)"
  using assms by (rule read_status_in) (simp_all add: expect_ok_def is_success_def)

lemma command_reads:
  assumes "call_fits call" "out_ok s" "in_bytes s = w @ rest" "\<And>s rest. read_status (s\<lparr>in_bytes := w @ rest\<rparr>) = (Inr st, s\<lparr>in_bytes := rest\<rparr>)"
  shows "command s (call_line call) = (Inr st, sent s call\<lparr>in_bytes := rest\<rparr>)"
proof -
  have "sent s call\<lparr>in_bytes := w @ rest\<rparr> = sent s call" using assms(3) by (cases s) simp
  with assms(4) [where s = "sent s call" and rest = rest] assms(1,2) show ?thesis
    by (simp add: command_def call_fits_def)
qed

text \<open>The status with which an answer begins.\<close>

lemma command_status:
  assumes "status_in lo hi w" "100 \<le> lo" "hi \<le> 1000" "call_fits call" "out_ok s" "in_bytes s = w @ rest"
  obtains st where "lo \<le> ds_code st" "ds_code st < hi" "command s (call_line call) = (Inr st, sent s call\<lparr>in_bytes := rest\<rparr>)"
  using read_status_in [OF assms(1-3)] command_reads [OF assms(4-6)] by metis

lemma command_refused:
  assumes "400 \<le> c" "c < 600" "clean_text t" "call_fits call" "out_ok s" "in_bytes s = status_line c t @ rest"
  shows "command s (call_line call) = (Inr \<lparr>ds_code = c, ds_text = t\<rparr>, sent s call\<lparr>in_bytes := rest\<rparr>)"
proof (rule command_reads [OF assms(4-6)])
  show "read_status (s\<lparr>in_bytes := status_line c t @ rest\<rparr>) = (Inr \<lparr>ds_code = c, ds_text = t\<rparr>, s\<lparr>in_bytes := rest\<rparr>)" for s rest
    using assms(1-3) by (intro read_status_line) simp_all
qed

text \<open>The three commands that give a listing follow one scheme.\<close>

definition read_listing :: "(string list \<Rightarrow> 'a list) \<Rightarrow> dict_session \<Rightarrow> 'a list dict_result" where
  "read_listing parse s =
     andthen (read_text_block s []) (\<lambda>ls s. andthen (expect_ok s) (\<lambda>_ s. (Inr (parse ls), s)))"

lemma all2_conj: "list_all2 (\<lambda>x l. P x l \<and> Q l) xs ls \<longleftrightarrow> list_all2 P xs ls \<and> (\<forall>l \<in> set ls. Q l)"
  by (induction xs arbitrary: ls) (auto simp: list_all2_Cons1 list_all2_Nil)

lemma listing_reads:
  assumes "listing_as code line_as xs w" "\<And>ls. list_all2 line_as xs ls \<Longrightarrow> parse ls = xs"
    and "100 \<le> code" "code < 1000" "call_fits call" "out_ok s" "in_bytes s = w @ rest"
  obtains st s' where "ds_code st = code" "command s (call_line call) = (Inr st, s')"
    "read_listing parse s' = (Inr xs, sent s call\<lparr>in_bytes := rest\<rparr>)"
proof -
  from assms(1) obtain first ls fin where w: "status_of code first" "success_line fin" "w = first @ block_bytes ls @ fin"
    and ls: "list_all2 line_as xs ls" "\<forall>l \<in> set ls. clean_line l"
    by (auto simp: listing_as_def all2_conj)
  obtain st where st: "code \<le> ds_code st" "ds_code st < Suc code"
    "command s (call_line call) = (Inr st, sent s call\<lparr>in_bytes := block_bytes ls @ fin @ rest\<rparr>)"
    using command_status [OF w(1) _ _ assms(5,6), of "block_bytes ls @ fin @ rest"] assms(3,4,7) w(3) by auto
  moreover have "read_listing parse (sent s call\<lparr>in_bytes := block_bytes ls @ fin @ rest\<rparr>) = (Inr xs, sent s call\<lparr>in_bytes := rest\<rparr>)"
    using read_block [OF ls(2), where s = "sent s call" and rest = "fin @ rest" and acc = "[]"] read_done [OF w(2)] assms(2) [OF ls(1)]
    by (simp add: read_listing_def)
  ultimately show ?thesis using that by (meson le_less_Suc_eq)
qed

lemma map_filter_all2: "list_all2 (\<lambda>x l. g l = Some x) xs ls \<Longrightarrow> List.map_filter g ls = xs"
  by (induction rule: list_all2_induct) (simp_all add: List.map_filter_simps)

lemma databases_parsed: "list_all2 database_as ds ls \<Longrightarrow> parse_databases ls = ds"
  unfolding parse_databases_def
  by (intro map_filter_all2, erule list_all2_mono) (auto simp: database_as_def database_of_def dest!: split_params_written)

lemma matches_parsed: "list_all2 match_as ms ls \<Longrightarrow> parse_matches ls = ms"
  unfolding parse_matches_def
  by (intro map_filter_all2, erule list_all2_mono) (auto simp: match_as_def match_of_def dest!: split_params_written)

lemma define_loop_reads:
  assumes "list_all2 definition_as ds ws" "success_line fin"
  shows "define_loop (s\<lparr>in_bytes := concat ws @ fin @ rest\<rparr>) acc = (Inr (acc @ ds), s\<lparr>in_bytes := rest\<rparr>)"
  using assms(1)
proof (induction ds ws arbitrary: acc rule: list_all2_induct)
  case Nil
  from assms(2) show ?case
    by (rule read_status_in, simp, simp)
      (subst define_loop.simps, simp add: DEFINITION_FOLLOWS_def is_success_def)
next
  case (Cons d ds w ws)
  let ?tail = "concat ws @ fin @ rest"
  from Cons.hyps(1) obtain h where h: "params_as [de_word d, de_database d, de_description d] h" "clean_text h"
    "\<forall>l \<in> set (de_text d). clean_line l" "w = status_line 151 h @ block_bytes (de_text d)"
    by (auto simp: definition_as_def)
  have "read_status (s\<lparr>in_bytes := status_line 151 h @ block_bytes (de_text d) @ ?tail\<rparr>) =
      (Inr \<lparr>ds_code = 151, ds_text = h\<rparr>, s\<lparr>in_bytes := block_bytes (de_text d) @ ?tail\<rparr>)"
    by (rule read_status_line [OF _ _ h(2)]) simp_all
  moreover have "read_text_block (s\<lparr>in_bytes := block_bytes (de_text d) @ ?tail\<rparr>) [] = (Inr ([] @ de_text d), s\<lparr>in_bytes := ?tail\<rparr>)"
    by (rule read_block [OF h(3)])
  moreover have "parse_definition_header \<lparr>ds_code = 151, ds_text = h\<rparr> = Some (de_word d, de_database d, de_description d)"
    using split_params_written [OF h(1)] by (simp add: parse_definition_header_def status_params_def)
  ultimately show ?case
    using Cons.IH by (subst define_loop.simps) (simp add: h(4) DEFINITION_FOLLOWS_def)
qed

text \<open>The commands over \<open>call_line\<close>, as \<open>run_call\<close> runs them.\<close>

lemma run_call_folded:
  "run_call s CallDatabases = andthen (andthen (command s (call_line CallDatabases)) (\<lambda>st s.
     if ds_code st = 110 then read_listing parse_databases s
     else if ds_code st = 554 then (Inr [], s) else (Inl (refused st), s))) (\<lambda>v s. (Inr (ListsDatabases v), s))"
  "run_call s CallStrategies = andthen (andthen (command s (call_line CallStrategies)) (\<lambda>st s.
     if ds_code st = 111 then read_listing parse_databases s
     else if ds_code st = 555 then (Inr [], s) else (Inl (refused st), s))) (\<lambda>v s. (Inr (ListsDatabases v), s))"
  "run_call s (CallDefine db w) = andthen (andthen (command s (call_line (CallDefine db w))) (\<lambda>st s.
     if ds_code st = 150 then define_loop s []
     else if ds_code st = 552 then (Inr [], s) else (Inl (refused st), s))) (\<lambda>v s. (Inr (ListsDefinitions v), s))"
  "run_call s (CallMatch db t w) = andthen (andthen (command s (call_line (CallMatch db t w))) (\<lambda>st s.
     if ds_code st = 152 then read_listing parse_matches s
     else if ds_code st = 552 then (Inr [], s) else (Inl (refused st), s))) (\<lambda>v s. (Inr (ListsMatches v), s))"
  "run_call s (CallAnnounce t) = andthen (andthen (command s (call_line (CallAnnounce t))) (\<lambda>st s.
     (if is_success st then Inr () else Inl (refused st), s))) (\<lambda>_ s. (Inr Acknowledges, s))"
  by (simp_all only: run_call_def dict_call.case databases_def strategies_def define_word_def matches_def announce_def
      call_line_def read_listing_def dict_codes)

text \<open>One call: the answer is read, and nothing after it.\<close>

lemma run_call_answers:
  assumes "answers call r w" "call_fits call" "out_ok s" "in_bytes s = w @ rest"
  shows "run_call s call = (r, sent s call\<lparr>in_bytes := rest\<rparr>)"
  using assms
proof (induction call r w rule: answers.induct)
  case (answer_databases ds w)
  obtain st s' where "ds_code st = 110" "command s (call_line CallDatabases) = (Inr st, s')"
    "read_listing parse_databases s' = (Inr ds, sent s CallDatabases\<lparr>in_bytes := rest\<rparr>)"
    by (rule listing_reads [where parse = parse_databases, OF answer_databases(1) databases_parsed _ _ answer_databases(2-4)]) auto
  then show ?case by (simp add: run_call_folded)
next
  case (answer_strategies ds w)
  obtain st s' where "ds_code st = 111" "command s (call_line CallStrategies) = (Inr st, s')"
    "read_listing parse_databases s' = (Inr ds, sent s CallStrategies\<lparr>in_bytes := rest\<rparr>)"
    by (rule listing_reads [where parse = parse_databases, OF answer_strategies(1) databases_parsed _ _ answer_strategies(2-4)]) auto
  then show ?case by (simp add: run_call_folded)
next
  case (answer_matches ms w db t wd)
  obtain st s' where "ds_code st = 152" "command s (call_line (CallMatch db t wd)) = (Inr st, s')"
    "read_listing parse_matches s' = (Inr ms, sent s (CallMatch db t wd)\<lparr>in_bytes := rest\<rparr>)"
    by (rule listing_reads [where parse = parse_matches, OF answer_matches(1) matches_parsed _ _ answer_matches(2-4)]) auto
  then show ?case by (simp add: run_call_folded)
next
  case (answer_definitions first ds ws fin db wd)
  obtain st where "150 \<le> ds_code st" "ds_code st < Suc 150" "command s (call_line (CallDefine db wd)) =
      (Inr st, sent s (CallDefine db wd)\<lparr>in_bytes := concat ws @ fin @ rest\<rparr>)"
    using command_status [OF answer_definitions(1) _ _ answer_definitions(4,5), of "concat ws @ fin @ rest"] answer_definitions(6) by auto
  with define_loop_reads [OF answer_definitions(2,3), where s = "sent s (CallDefine db wd)" and rest = rest and acc = "[]"]
  show ?case by (simp add: run_call_folded le_less_Suc_eq)
next
  case (answer_announced w t)
  then show ?case
    by (rule_tac command_status [OF answer_announced(1) _ _ answer_announced(2-4)]) (simp_all add: run_call_folded is_success_def)
next
  case (no_databases w)
  then show ?case
    by (rule_tac command_status [OF no_databases(1) _ _ no_databases(2-4)]) (simp_all add: run_call_folded le_less_Suc_eq)
next
  case (no_strategies w)
  then show ?case
    by (rule_tac command_status [OF no_strategies(1) _ _ no_strategies(2-4)]) (simp_all add: run_call_folded le_less_Suc_eq)
next
  case (no_matches w db t wd)
  then show ?case
    by (rule_tac command_status [OF no_matches(1) _ _ no_matches(2-4)]) (simp_all add: run_call_folded le_less_Suc_eq)
next
  case (no_definitions w db wd)
  then show ?case
    by (rule_tac command_status [OF no_definitions(1) _ _ no_definitions(2-4)]) (simp_all add: run_call_folded le_less_Suc_eq)
next
  case (answer_refused c t call)
  note r = command_refused [OF answer_refused(1-3,5-7)]
  show ?case
    using r answer_refused(1,2,4)
    by (cases call) (simp_all add: run_call_folded refused_def is_success_def nothing_code_def)
qed

section \<open>Properties\<close>

lemma run_calls_answers:
  assumes "\<forall>x \<in> set plan. step_ok x" "out_ok s" "in_bytes s = concat (map (snd \<circ> snd) plan) @ rest"
  shows "run_calls s (map fst plan) = (map (fst \<circ> snd) plan,
      s\<lparr>in_bytes := rest, out_bytes := out_bytes s @ calls_sent (map fst plan)\<rparr>)"
  using assms
proof (induction plan arbitrary: s)
  case Nil
  then show ?case by (cases s) (simp add: calls_sent_def)
next
  case (Cons x plan)
  obtain call r w where x: "x = (call, r, w)" by (cases x)
  let ?later = "concat (map (snd \<circ> snd) plan) @ rest"
  define s1 where "s1 = (if call_fits call then sent s call else s)\<lparr>in_bytes := ?later\<rparr>"
  have "run_call s call = (r, s1)"
  proof (cases "call_fits call")
    case True
    then show ?thesis
      using run_call_answers [of call r w s ?later] Cons.prems x by (simp add: step_ok_def s1_def comp_def)
  next
    case False
    then have "command s (call_line call) = (Inl DictTooLong, s)" by (simp add: command_def call_fits_def)
    moreover have "s = s\<lparr>in_bytes := ?later\<rparr>" "r = Inl DictTooLong"
      using False Cons.prems x by (auto simp: step_ok_def comp_def)
    ultimately show ?thesis using False by (cases call) (simp_all add: run_call_folded s1_def)
  qed
  moreover have "run_calls s1 (map fst plan) = (map (fst \<circ> snd) plan,
      s1\<lparr>in_bytes := rest, out_bytes := out_bytes s1 @ calls_sent (map fst plan)\<rparr>)"
    by (rule Cons.IH) (use Cons.prems in \<open>simp_all add: s1_def comp_def\<close>)
  ultimately show ?case by (cases s) (simp add: x s1_def calls_sent_def)
qed

text \<open>
  (C14) A DICT session stays in step with its server over any sequence of calls, refused and failing
  ones included. Once connected (to the port asked for, or 2628) and greeted, let the server answer each
  call that fits a command line: with a listing, with definitions, with the code for an empty result,
  with a success, or with any other 4xx or 5xx status; its status texts free, its parameters quoted or
  not, escaped where it likes and any number of spaces apart, its text lines dot-stuffed. Then every
  call returns exactly what its own answer means (a refusal with code and text), a call that is too
  long fails without being sent, the client has written one command line for each of the others, in
  order, nothing of what follows has been consumed, and \<open>quit\<close> ends the session.
\<close>

theorem dict_session_in_step:
  assumes "\<forall>x \<in> set plan. step_ok x" "clean_text greeting" "success_line bye"
    and "dial host (case port of Some p \<Rightarrow> p | None \<Rightarrow> DICT_PORT) =
      Some (status_line 220 greeting @ concat (map (snd \<circ> snd) plan) @ bye @ rest, e, True)"
  shows "\<exists>s s' s''. dict_connect dial host port = Inr s
    \<and> run_calls s (map fst plan) = (map (fst \<circ> snd) plan, s')
    \<and> out_bytes s' = calls_sent (map fst plan) \<and> in_bytes s' = bye @ rest
    \<and> quit s' = (Inr (), s'') \<and> out_bytes s'' = calls_sent (map fst plan) @ ''QUIT'' @ CRLF \<and> in_bytes s'' = rest"
proof -
  let ?later = "concat (map (snd \<circ> snd) plan) @ bye @ rest"
  let ?start = "\<lparr>in_bytes = status_line 220 greeting @ ?later, in_end = e, out_ok = True, out_bytes = [],
      banner = \<lparr>ds_code = 0, ds_text = []\<rparr>\<rparr>"
  let ?s = "?start\<lparr>in_bytes := ?later\<rparr>\<lparr>banner := \<lparr>ds_code = 220, ds_text = greeting\<rparr>\<rparr>"
  let ?s' = "?s\<lparr>in_bytes := bye @ rest, out_bytes := calls_sent (map fst plan)\<rparr>"
  have "read_status ?start = (Inr \<lparr>ds_code = 220, ds_text = greeting\<rparr>, ?start\<lparr>in_bytes := ?later\<rparr>)"
    using read_status_line [OF _ _ assms(2), where s = ?start and code = 220 and rest = ?later] by simp
  then have "dict_connect dial host port = Inr ?s"
    using assms(4) by (simp add: dict_connect_def dict_over_def dict_codes)
  moreover have "run_calls ?s (map fst plan) = (map (fst \<circ> snd) plan, ?s')"
    using run_calls_answers [OF assms(1), of ?s "bye @ rest"] by simp
  moreover obtain st where "200 \<le> ds_code st" "ds_code st < 300"
    "\<And>s rest. read_status (s\<lparr>in_bytes := bye @ rest\<rparr>) = (Inr st, s\<lparr>in_bytes := rest\<rparr>)"
    by (rule read_status_in [OF assms(3)]) auto
  note bye = this(1,2) this(3) [where s = "?s'\<lparr>out_bytes := calls_sent (map fst plan) @ ''QUIT'' @ CRLF\<rparr>" and rest = rest]
  have "quit ?s' = (Inr (), ?s'\<lparr>out_bytes := calls_sent (map fst plan) @ ''QUIT'' @ CRLF\<rparr>\<lparr>in_bytes := rest\<rparr>)"
    using bye by (simp add: quit_def command_def DICT_MAX_LINE_def is_success_def)
  ultimately show ?thesis by fastforce
qed

text \<open>
  The exchanges of the crate's own tests: a list of databases and definitions in a server's wording
  (one description quoted, one not), a refusal, a call that is too long, and the end.
\<close>

definition demo_entry :: definition_entry where
  "demo_entry = \<lparr>de_word = ''dict'', de_database = ''wn'', de_description = ''WordNet'', de_text = [''a work'', ''.dotted'']\<rparr>"

definition dquoted :: "string \<Rightarrow> string" where
  "dquoted w = CHR 0x22 # w @ [CHR 0x22]"

definition demo_definitions :: string where
  "demo_definitions =
     status_line 150 ''1 definitions retrieved'' @
     (status_line 151 (dquoted ''dict'' @ '' wn '' @ dquoted ''WordNet'') @ block_bytes [''a work'', ''.dotted'']) @
     status_line 250 ''ok''"

definition demo_databases :: string where
  "demo_databases =
     status_line 110 ''2 databases present'' @ block_bytes [''wn '' @ dquoted ''WordNet (r)'', ''foldoc FOLDOC''] @ status_line 250 ''ok''"

lemma dict_session_witness:
  "\<exists>s s' s''. dict_connect (\<lambda>_ _. Some (status_line 220 ''test'' @ demo_databases @ demo_definitions @
        status_line 550 ''invalid database'' @ status_line 221 ''bye'', Eof, True)) ''dict.org'' None = Inr s
    \<and> run_calls s [CallDatabases, CallDefine ''wn'' ''dict'', CallMatch ''nope'' ''.'' ''dict'', CallAnnounce (replicate 2000 (CHR ''x''))] =
        ([Inr (ListsDatabases [\<lparr>db_name = ''wn'', db_description = ''WordNet (r)''\<rparr>, \<lparr>db_name = ''foldoc'', db_description = ''FOLDOC''\<rparr>]),
          Inr (ListsDefinitions [demo_entry]), Inl (DictRefused 550 ''invalid database''), Inl DictTooLong], s')
    \<and> quit s' = (Inr (), s'') \<and> in_bytes s'' = []"
proof -
  let ?ds = "[\<lparr>db_name = ''wn'', db_description = ''WordNet (r)''\<rparr>, \<lparr>db_name = ''foldoc'', db_description = ''FOLDOC''\<rparr>]"
  let ?plan = "[(CallDatabases, Inr (ListsDatabases ?ds), demo_databases),
     (CallDefine ''wn'' ''dict'', Inr (ListsDefinitions [demo_entry]), demo_definitions),
     (CallMatch ''nope'' ''.'' ''dict'', Inl (DictRefused 550 ''invalid database''), status_line 550 ''invalid database''),
     (CallAnnounce (replicate 2000 (CHR ''x'')), Inl DictTooLong, [])]"
  have clean: "clean_text ''2 databases present''" "clean_text ''ok''" "clean_text ''1 definitions retrieved''"
    "clean_text ''invalid database''" "clean_text ''test''" "clean_text ''bye''"
    "clean_line (''wn '' @ dquoted ''WordNet (r)'')" "clean_line ''foldoc FOLDOC''" "clean_line ''a work''" "clean_line ''.dotted''"
    "clean_text (dquoted ''dict'' @ '' wn '' @ dquoted ''WordNet'')"
    by code_simp+
  have bare: "param_as w w" if "w \<in> {''wn'', ''foldoc'', ''FOLDOC''}" for w
  proof -
    have "find_ws ''wn'' = None" "find_ws ''foldoc'' = None" "find_ws ''FOLDOC'' = None" by code_simp+
    with that show ?thesis by (auto intro!: param_bare)
  qed
  have quoted: "param_as w (dquoted w)" if "w \<in> {''WordNet (r)'', ''dict'', ''WordNet''}" for w
    using that by (auto simp: dquoted_def intro!: param_quoted quoted_plain)
  have "listing_as 110 database_as ?ds demo_databases"
    unfolding listing_as_def
  proof (intro exI conjI)
    show "status_of 110 (status_line 110 ''2 databases present'')" "success_line (status_line 250 ''ok'')"
      by (rule status_inI; simp add: clean)+
    show "list_all2 (\<lambda>x l. database_as x l \<and> clean_line l) ?ds [''wn '' @ dquoted ''WordNet (r)'', ''foldoc FOLDOC'']"
      using params_more [OF bare params_one [OF quoted], of "''wn''" "''WordNet (r)''" 0]
        params_more [OF bare params_one [OF bare], of "''foldoc''" "''FOLDOC''" 0] clean
      by (simp add: database_as_def)
  qed (simp add: demo_databases_def)
  then have 1: "answers CallDatabases (Inr (ListsDatabases ?ds)) demo_databases" by (rule answer_databases)
  have "definition_as demo_entry (status_line 151 (dquoted ''dict'' @ '' wn '' @ dquoted ''WordNet'') @ block_bytes [''a work'', ''.dotted''])"
    using params_more [OF quoted params_more [OF bare params_one [OF quoted]], of "''dict''" "''wn''" "''WordNet''" 0 0] clean
    by (auto simp: definition_as_def demo_entry_def)
  then have 2: "answers (CallDefine ''wn'' ''dict'') (Inr (ListsDefinitions [demo_entry])) demo_definitions"
    using answer_definitions [of "status_line 150 ''1 definitions retrieved''" "[demo_entry]" "[_]" "status_line 250 ''ok''", OF status_inI _ status_inI] clean
    by (fastforce simp: demo_definitions_def)
  have fits: "call_fits CallDatabases" "call_fits (CallDefine ''wn'' ''dict'')" "call_fits (CallMatch ''nope'' ''.'' ''dict'')"
    by code_simp+
  have "\<not> call_fits (CallAnnounce (replicate 2000 (CHR ''x'')))"
    by (simp add: call_fits_def call_line_def DICT_MAX_LINE_def)
  with 1 2 fits answer_refused [of 550 "''invalid database''" "CallMatch ''nope'' ''.'' ''dict''"] clean
  have "\<forall>x \<in> set ?plan. step_ok x" by (simp add: step_ok_def nothing_code_def)
  from dict_session_in_step [OF this clean(5), of "status_line 221 ''bye''" _ "''dict.org''" None "[]" Eof, OF status_inI [OF _ _ clean(6)]]
  show ?thesis by fastforce
qed

lemma dquote_body_append: "dquote_body (a @ b) = dquote_body a @ dquote_body b"
  by (simp add: dquote_body_def)

lemma find_ws_None_no_ws: "find_ws s = None \<Longrightarrow> c \<in> set s \<Longrightarrow> \<not> ascii_ws c"
  by (induction s) (auto simp: ws_head_ws split: if_splits)

text \<open>Reading never writes.\<close>

lemma out_read_line [simp]: "out_bytes (snd (dict_read_line s)) = out_bytes s"
  by (auto simp: dict_read_line_def split: prod.split sum.split)

lemma out_read_status [simp]: "out_bytes (snd (read_status s)) = out_bytes s"
  using out_read_line [of s] by (auto simp: read_status_def andthen_def split: prod.split sum.split simp del: out_read_line)

lemma out_read_text_block: "out_bytes (snd (read_text_block s acc)) = out_bytes s"
proof (induction s acc rule: read_text_block.induct)
  case (1 s acc)
  then show ?case
    using out_read_line [of s] by (subst read_text_block.simps) (auto split: prod.split sum.split simp del: out_read_line)
qed

lemma out_define_loop: "out_bytes (snd (define_loop s ds)) = out_bytes s"
proof (induction s ds rule: define_loop.induct)
  case (1 s ds)
  obtain r s1 where r: "read_status s = (r, s1)" by (cases "read_status s")
  then have s1: "out_bytes s1 = out_bytes s" using out_read_status [of s] by simp
  show ?case
  proof (cases r)
    case (Inl x)
    with r s1 show ?thesis by (subst define_loop.simps) simp
  next
    case (Inr st)
    obtain b s2 where b: "read_text_block s1 [] = (b, s2)" by (cases "read_text_block s1 []")
    then have "out_bytes s2 = out_bytes s" using out_read_text_block [of s1 "[]"] s1 by simp
    with 1 [OF r [symmetric] Inr] Inr r s1 b show ?thesis
      by (subst define_loop.simps) (auto split: option.split sum.split)
  qed
qed

text \<open>
  A word is not a line: a word with a line break in it is quoted but its line break is sent as it is,
  so the server reads two commands, the second one chosen by whoever chose the word.
\<close>

theorem dict_word_injects_command:
  assumes "out_ok s" "out_bytes s = []" "CR \<notin> set db" "CR \<notin> set a"
    and "length (call_line (CallDefine db (a @ CR # LF # b))) + 2 \<le> DICT_MAX_LINE"
  shows "split_crlf (out_bytes (snd (define_word s db (a @ CR # LF # b)))) =
    Some (''DEFINE '' @ quote db @ '' '' @ CHR 0x22 # dquote_body a, dquote_body b @ CHR 0x22 # CRLF)"
proof -
  have ws: "find_ws (a @ CR # LF # b) \<noteq> None"
    using find_ws_None_no_ws [of "a @ CR # LF # b" CR] by fastforce
  then have q: "quote (a @ CR # LF # b) = CHR 0x22 # dquote_body a @ CR # LF # dquote_body b @ [CHR 0x22]"
    by (simp add: quote_def quote_body dquote_body_append) (simp add: dquote_body_def)
  have no_cr: "CR \<notin> set (dquote_body x)" if "CR \<notin> set x" for x
    using that by (auto simp: dquote_body_def split: if_splits)
  then have "CR \<notin> set (quote db)" using assms(3) by (auto simp: quote_def quote_body)
  moreover have "out_bytes (snd (define_word s db (a @ CR # LF # b))) =
      (''DEFINE '' @ quote db @ '' '' @ CHR 0x22 # dquote_body a) @ CR # LF # dquote_body b @ CHR 0x22 # CRLF"
  proof -
    let ?s = "s\<lparr>out_bytes := call_line (CallDefine db (a @ CR # LF # b)) @ CRLF\<rparr>"
    obtain r s1 where r: "read_status ?s = (r, s1)" by (cases "read_status ?s")
    then have s1: "out_bytes s1 = out_bytes ?s" using out_read_status [of ?s] by simp
    have "command s (call_line (CallDefine db (a @ CR # LF # b))) = (r, s1)"
      using assms r by (simp add: command_def)
    then have "out_bytes (snd (define_word s db (a @ CR # LF # b))) = out_bytes s1"
      using out_define_loop [of s1 "[]"]
      by (auto simp: define_word_def call_line_def andthen_def split: sum.split)
    with s1 show ?thesis by (simp add: call_line_def q)
  qed
  ultimately show ?thesis
    using assms(4) no_cr by (simp only:) (intro split_crlf_append split_crlf_no_CR, simp)
qed

lemma dict_injection_witness:
  "split_crlf (out_bytes (snd (define_word
      \<lparr>in_bytes = [], in_end = Eof, out_ok = True, out_bytes = [], banner = \<lparr>ds_code = 220, ds_text = []\<rparr>\<rparr>
      ''*'' (''cat'' @ CRLF @ ''QUIT'')))) =
   Some (''DEFINE * '' @ CHR 0x22 # ''cat'', ''QUIT'' @ CHR 0x22 # CRLF)"
proof -
  have "quote ''*'' = ''*''" "dquote_body ''cat'' = ''cat''" "dquote_body ''QUIT'' = ''QUIT''" by code_simp+
  moreover have "length (call_line (CallDefine ''*'' (''cat'' @ CR # LF # ''QUIT''))) + 2 \<le> DICT_MAX_LINE"
    by code_simp
  ultimately show ?thesis
    using dict_word_injects_command [of "\<lparr>in_bytes = [], in_end = Eof, out_ok = True, out_bytes = [],
        banner = \<lparr>ds_code = 220, ds_text = []\<rparr>\<rparr>" "''*''" "''cat''" "''QUIT''"] by simp
qed

end
