(* ===== verification/Accept_Loop.thy ===== *)
theory Accept_Loop
  imports Line_Server
begin

text \<open>
  The accept loop that the TCP servers share (\<open>serve\<close> in \<open>server.rs\<close> of finger, gopher, nex, spartan
  and gemini): it waits for a connection or for the shutdown future, spawns a task for every
  connection and only logs failures. A task reads its request one byte at a time, as the code's
  loops do, calls the handler that all tasks share, and writes the answer; between any two of its
  steps the other tasks and the loop may take theirs. The events of a run are an argument, so every
  interleaving is covered. The handler's effect on its state is one step, at any time after the call.
\<close>

section \<open>Reading a request byte by byte\<close>

text \<open>What a task does once it has read enough: call the handler, answer without it, or fail.\<close>

datatype 'q task_decision = Consult 'q | Tell string | Fail

record ('s, 'q) reader =
  rd_start :: 's
  rd_feed :: "'s \<Rightarrow> char \<Rightarrow> 's + 'q task_decision"
  rd_finish :: "'s \<Rightarrow> 'q task_decision"

fun read_all :: "('s, 'q) reader \<Rightarrow> 's \<Rightarrow> string \<Rightarrow> stream_end \<Rightarrow> 'q task_decision" where
  "read_all R s [] e = (case e of Eof \<Rightarrow> rd_finish R s | Broken \<Rightarrow> Fail)"
| "read_all R s (c # cs) e = (case rd_feed R s c of Inl s' \<Rightarrow> read_all R s' cs e | Inr d \<Rightarrow> d)"

text \<open>What a decision comes to with a handler that answers \<open>ans\<close>.\<close>

definition settle :: "('q \<Rightarrow> 'r \<Rightarrow> string) \<Rightarrow> ('q \<Rightarrow> 'r) \<Rightarrow> 'q task_decision \<Rightarrow> string option" where
  "settle frame ans d = (case d of Consult q \<Rightarrow> Some (frame q (ans q)) | Tell w \<Rightarrow> Some w | Fail \<Rightarrow> None)"

section \<open>The loop and its tasks\<close>

datatype ('s, 'q) task = Reading 's | Asking 'q | Closed "string option"

text \<open>\<open>ls_calls\<close> records the calls that the handler has answered: connection, peer, request, answer.\<close>

record ('s, 'q, 'r, 'h) listener =
  ls_accepting :: bool
  ls_tasks :: "(string \<times> ('s, 'q) task) list"
  ls_handler :: 'h
  ls_calls :: "(nat \<times> string \<times> 'q \<times> 'r) list"

definition listening :: "'h \<Rightarrow> ('s, 'q, 'r, 'h) listener" where
  "listening h = \<lparr>ls_accepting = True, ls_tasks = [], ls_handler = h, ls_calls = []\<rparr>"

datatype accept_event =
    Incoming string | AcceptError | Shutdown
  | Byte nat char | StreamEnds nat | ReadFails nat | HandlerReturns nat

definition after_decision :: "'q task_decision \<Rightarrow> ('s, 'q) task" where
  "after_decision d = (case d of Consult q \<Rightarrow> Asking q | Tell w \<Rightarrow> Closed (Some w) | Fail \<Rightarrow> Closed None)"

definition with_task :: "nat \<Rightarrow> ('s, 'q) task \<Rightarrow> ('s, 'q, 'r, 'h) listener \<Rightarrow> ('s, 'q, 'r, 'h) listener" where
  "with_task k t L = L\<lparr>ls_tasks := (ls_tasks L)[k := (fst (ls_tasks L ! k), t)]\<rparr>"

definition task_of :: "('s, 'q, 'r, 'h) listener \<Rightarrow> nat \<Rightarrow> ('s, 'q) task option" where
  "task_of L k = (if k < length (ls_tasks L) then Some (snd (ls_tasks L ! k)) else None)"

text \<open>
  One event; \<open>None\<close> when it cannot occur: only a task that is reading reads, and only a call that was
  made returns.
\<close>

fun accept_turn ::
    "('s, 'q) reader \<Rightarrow> ('q \<Rightarrow> 'r \<Rightarrow> string) \<Rightarrow> ('h \<Rightarrow> string \<Rightarrow> 'q \<Rightarrow> 'r \<times> 'h) \<Rightarrow> accept_event \<Rightarrow>
     ('s, 'q, 'r, 'h) listener \<Rightarrow> ('s, 'q, 'r, 'h) listener option" where
  "accept_turn R frame handle (Incoming peer) L =
     Some (if ls_accepting L then L\<lparr>ls_tasks := ls_tasks L @ [(peer, Reading (rd_start R))]\<rparr> else L)"
| "accept_turn R frame handle AcceptError L = Some L"
| "accept_turn R frame handle Shutdown L = Some (L\<lparr>ls_accepting := False\<rparr>)"
| "accept_turn R frame handle (Byte k c) L =
     (case task_of L k of
        Some (Reading s) \<Rightarrow>
          Some (with_task k (case rd_feed R s c of Inl s' \<Rightarrow> Reading s' | Inr d \<Rightarrow> after_decision d) L)
      | _ \<Rightarrow> None)"
| "accept_turn R frame handle (StreamEnds k) L =
     (case task_of L k of Some (Reading s) \<Rightarrow> Some (with_task k (after_decision (rd_finish R s)) L) | _ \<Rightarrow> None)"
| "accept_turn R frame handle (ReadFails k) L =
     (case task_of L k of Some (Reading s) \<Rightarrow> Some (with_task k (Closed None) L) | _ \<Rightarrow> None)"
| "accept_turn R frame handle (HandlerReturns k) L =
     (case task_of L k of
        Some (Asking q) \<Rightarrow>
          (let peer = fst (ls_tasks L ! k); (r, h) = handle (ls_handler L) peer q in
           Some ((with_task k (Closed (Some (frame q r))) L)\<lparr>ls_handler := h, ls_calls := ls_calls L @ [(k, peer, q, r)]\<rparr>))
      | _ \<Rightarrow> None)"

fun accept_loop ::
    "('s, 'q) reader \<Rightarrow> ('q \<Rightarrow> 'r \<Rightarrow> string) \<Rightarrow> ('h \<Rightarrow> string \<Rightarrow> 'q \<Rightarrow> 'r \<times> 'h) \<Rightarrow> accept_event list \<Rightarrow>
     ('s, 'q, 'r, 'h) listener \<Rightarrow> ('s, 'q, 'r, 'h) listener option" where
  "accept_loop R frame handle [] L = Some L"
| "accept_loop R frame handle (v # vs) L = Option.bind (accept_turn R frame handle v L) (accept_loop R frame handle vs)"

section \<open>What a run says of one connection\<close>

text \<open>The peers accepted: those that arrive before the shutdown; what connection \<open>k\<close> sent, and how it ended.\<close>

fun accepted :: "accept_event list \<Rightarrow> string list" where
  "accepted [] = []"
| "accepted (Incoming peer # vs) = peer # accepted vs"
| "accepted (Shutdown # vs) = []"
| "accepted (v # vs) = accepted vs"

fun byte_for :: "nat \<Rightarrow> accept_event \<Rightarrow> string" where
  "byte_for k (Byte j c) = (if j = k then [c] else [])"
| "byte_for k _ = []"

definition bytes_read :: "nat \<Rightarrow> accept_event list \<Rightarrow> string" where
  "bytes_read k vs = concat (map (byte_for k) vs)"

definition stream_of :: "nat \<Rightarrow> accept_event list \<Rightarrow> stream_end" where
  "stream_of k vs = (if ReadFails k \<in> set vs then Broken else Eof)"

text \<open>The handler alone, serving the calls one after the other: its state if the answers are those recorded.\<close>

fun replay :: "('h \<Rightarrow> string \<Rightarrow> 'q \<Rightarrow> 'r \<times> 'h) \<Rightarrow> (nat \<times> string \<times> 'q \<times> 'r) list \<Rightarrow> 'h \<Rightarrow> 'h option" where
  "replay handle [] h = Some h"
| "replay handle ((_, peer, q, r) # calls) h =
     (case handle h peer q of (r', h') \<Rightarrow> if r' = r then replay handle calls h' else None)"

text \<open>
  A run serves its connections apart: it looks to the handler like one call after the other, at most
  one per connection; and \<open>conn\<close>, the task run alone on the bytes that the connection sent, would
  have made the same call and written the same answer around the handler's.
\<close>

definition serves_apart ::
    "(string \<Rightarrow> ('q \<Rightarrow> 'r) \<Rightarrow> string \<Rightarrow> stream_end \<Rightarrow> string option) \<Rightarrow> ('q \<Rightarrow> 'r \<Rightarrow> string) \<Rightarrow>
     ('h \<Rightarrow> string \<Rightarrow> 'q \<Rightarrow> 'r \<times> 'h) \<Rightarrow> 'h \<Rightarrow> accept_event list \<Rightarrow> ('s, 'q, 'r, 'h) listener \<Rightarrow> bool" where
  "serves_apart conn frame handle h vs L \<longleftrightarrow>
     map fst (ls_tasks L) = accepted vs \<and>
     replay handle (ls_calls L) h = Some (ls_handler L) \<and> distinct (map fst (ls_calls L)) \<and>
     (\<forall>k < length (ls_tasks L).
        case ls_tasks L ! k of
          (peer, Reading s) \<Rightarrow> k \<notin> fst ` set (ls_calls L)
        | (peer, Asking q) \<Rightarrow>
            k \<notin> fst ` set (ls_calls L) \<and> (\<forall>ans. conn peer ans (bytes_read k vs) (stream_of k vs) = Some (frame q (ans q)))
        | (peer, Closed out) \<Rightarrow>
            (\<exists>q r. (k, peer, q, r) \<in> set (ls_calls L) \<and> out = Some (frame q r) \<and>
               (\<forall>ans. conn peer ans (bytes_read k vs) (stream_of k vs) = Some (frame q (ans q)))) \<or>
            k \<notin> fst ` set (ls_calls L) \<and> (\<forall>ans. conn peer ans (bytes_read k vs) (stream_of k vs) = out))"

section \<open>The invariant of a run\<close>

definition conn_inv ::
    "('s, 'q) reader \<Rightarrow> ('q \<Rightarrow> 'r \<Rightarrow> string) \<Rightarrow> accept_event list \<Rightarrow> (nat \<times> string \<times> 'q \<times> 'r) list \<Rightarrow> nat \<Rightarrow>
     string \<Rightarrow> ('s, 'q) task \<Rightarrow> bool" where
  "conn_inv R frame vs calls k peer t \<longleftrightarrow>
     (case t of
        Reading s \<Rightarrow> (\<forall>cs e. read_all R (rd_start R) (bytes_read k vs @ cs) e = read_all R s cs e) \<and>
          ReadFails k \<notin> set vs \<and> k \<notin> fst ` set calls
      | Asking q \<Rightarrow> read_all R (rd_start R) (bytes_read k vs) (stream_of k vs) = Consult q \<and> k \<notin> fst ` set calls
      | Closed out \<Rightarrow>
          (case read_all R (rd_start R) (bytes_read k vs) (stream_of k vs) of
             Consult q \<Rightarrow> \<exists>r. (k, peer, q, r) \<in> set calls \<and> out = Some (frame q r)
           | Tell w \<Rightarrow> k \<notin> fst ` set calls \<and> out = Some w
           | Fail \<Rightarrow> k \<notin> fst ` set calls \<and> out = None))"

definition loop_inv ::
    "('s, 'q) reader \<Rightarrow> ('q \<Rightarrow> 'r \<Rightarrow> string) \<Rightarrow> ('h \<Rightarrow> string \<Rightarrow> 'q \<Rightarrow> 'r \<times> 'h) \<Rightarrow> 'h \<Rightarrow> accept_event list \<Rightarrow>
     ('s, 'q, 'r, 'h) listener \<Rightarrow> bool" where
  "loop_inv R frame handle h vs L \<longleftrightarrow>
     replay handle (ls_calls L) h = Some (ls_handler L) \<and> distinct (map fst (ls_calls L)) \<and>
     (\<forall>k < length (ls_tasks L). conn_inv R frame vs (ls_calls L) k (fst (ls_tasks L ! k)) (snd (ls_tasks L ! k))) \<and>
     (\<forall>k \<ge> length (ls_tasks L). bytes_read k vs = [] \<and> ReadFails k \<notin> set vs \<and> k \<notin> fst ` set (ls_calls L))"

lemma bytes_read_snoc [simp]: "bytes_read k (vs @ [v]) = bytes_read k vs @ byte_for k v"
  by (simp add: bytes_read_def)

lemma stream_of_snoc: "stream_of k (vs @ [v]) = (if v = ReadFails k then Broken else stream_of k vs)"
  by (auto simp: stream_of_def)

lemma replay_snoc:
  "replay handle calls h = Some h1 \<Longrightarrow> handle h1 peer q = (r, h2) \<Longrightarrow>
     replay handle (calls @ [(k, peer, q, r)]) h = Some h2"
  by (induction handle calls h rule: replay.induct) (auto split: prod.splits if_splits)

text \<open>An event that is not the connection's leaves it alone.\<close>

lemma conn_inv_other:
  assumes "byte_for k v = []" "v \<noteq> ReadFails k" "conn_inv R frame vs calls k peer t"
    and "calls' = calls \<or> (\<exists>j x. calls' = calls @ [(j, x)] \<and> j \<noteq> k)"
  shows "conn_inv R frame (vs @ [v]) calls' k peer t"
  using assms by (cases t) (auto simp: conn_inv_def stream_of_snoc split: task_decision.splits)

text \<open>Its own: a byte, the end of the stream, a failure, and the handler's return.\<close>

lemma read_all_append:
  "(\<And>cs e. read_all R s0 (b @ cs) e = read_all R s cs e) \<Longrightarrow>
     read_all R s0 (b @ c # cs) e = (case rd_feed R s c of Inl s' \<Rightarrow> read_all R s' cs e | Inr d \<Rightarrow> d)"
  by simp

lemma conn_inv_byte:
  assumes "conn_inv R frame vs calls k peer (Reading s)"
  shows "conn_inv R frame (vs @ [Byte k c]) calls k peer (case rd_feed R s c of Inl s' \<Rightarrow> Reading s' | Inr d \<Rightarrow> after_decision d)"
proof -
  have r: "read_all R (rd_start R) (bytes_read k vs @ c # cs) e = (case rd_feed R s c of Inl s' \<Rightarrow> read_all R s' cs e | Inr d \<Rightarrow> d)"
    and no: "ReadFails k \<notin> set vs" "k \<notin> fst ` set calls" for cs e
    using assms by (auto simp: conn_inv_def)
  show ?thesis
    using no r by (auto simp: conn_inv_def after_decision_def stream_of_def split: sum.splits task_decision.splits)
qed

lemma conn_inv_ends:
  assumes "conn_inv R frame vs calls k peer (Reading s)"
  shows "conn_inv R frame (vs @ [StreamEnds k]) calls k peer (after_decision (rd_finish R s))"
proof -
  have "read_all R (rd_start R) (bytes_read k vs) Eof = rd_finish R s"
    using assms by (auto simp: conn_inv_def dest: spec [of _ "[]"])
  then show ?thesis
    using assms by (auto simp: conn_inv_def after_decision_def stream_of_def split: task_decision.splits)
qed

lemma conn_inv_fails:
  assumes "conn_inv R frame vs calls k peer (Reading s)"
  shows "conn_inv R frame (vs @ [ReadFails k]) calls k peer (Closed None)"
proof -
  have "read_all R (rd_start R) (bytes_read k vs) Broken = Fail"
    using assms by (auto simp: conn_inv_def dest: spec [of _ "[]"])
  then show ?thesis using assms by (auto simp: conn_inv_def stream_of_def)
qed

lemma conn_inv_returns:
  "conn_inv R frame vs calls k peer (Asking q) \<Longrightarrow>
     conn_inv R frame (vs @ [HandlerReturns k]) (calls @ [(k, peer, q, r)]) k peer (Closed (Some (frame q r)))"
  by (auto simp: conn_inv_def stream_of_snoc)

text \<open>A step of one task, with or without a call recorded.\<close>

lemma loop_inv_step:
  assumes "loop_inv R frame handle h vs L" "k < length (ls_tasks L)"
    and "\<And>j. j \<noteq> k \<Longrightarrow> byte_for j v = [] \<and> v \<noteq> ReadFails j"
    and "ls_tasks L' = (ls_tasks L)[k := (fst (ls_tasks L ! k), t)]"
    and "ls_calls L' = ls_calls L \<or> (\<exists>x. ls_calls L' = ls_calls L @ [(k, x)])"
    and "replay handle (ls_calls L') h = Some (ls_handler L')" "distinct (map fst (ls_calls L'))"
    and "conn_inv R frame (vs @ [v]) (ls_calls L') k (fst (ls_tasks L ! k)) t"
  shows "loop_inv R frame handle h (vs @ [v]) L'"
proof -
  have "conn_inv R frame (vs @ [v]) (ls_calls L') j (fst (ls_tasks L' ! j)) (snd (ls_tasks L' ! j))"
    if "j < length (ls_tasks L)" for j
  proof (cases "j = k")
    case False
    then show ?thesis
      using assms(1,4) that by (auto simp: loop_inv_def intro!: conn_inv_other [OF _ _ _ assms(5) [THEN disjE]] assms(3) [THEN conjunct1] assms(3) [THEN conjunct2])
  qed (use assms(2,4,8) in simp)
  moreover have "bytes_read j (vs @ [v]) = [] \<and> ReadFails j \<notin> set (vs @ [v]) \<and> j \<notin> fst ` set (ls_calls L')"
    if "length (ls_tasks L) \<le> j" for j
  proof -
    have "j \<noteq> k" using that assms(2) by auto
    moreover from this have "fst ` set (ls_calls L') \<subseteq> insert k (fst ` set (ls_calls L))" using assms(5) by auto
    moreover have "bytes_read j vs = [] \<and> ReadFails j \<notin> set vs \<and> j \<notin> fst ` set (ls_calls L)"
      using that assms(1) by (simp add: loop_inv_def)
    ultimately show ?thesis using assms(3) [of j] by auto
  qed
  ultimately show ?thesis using assms(4,6,7) by (simp add: loop_inv_def)
qed

text \<open>A new connection, and an event that is nobody's.\<close>

lemma conn_inv_fresh:
  "bytes_read k vs = [] \<Longrightarrow> ReadFails k \<notin> set vs \<Longrightarrow> k \<notin> fst ` set calls \<Longrightarrow>
     conn_inv R frame vs calls k peer (Reading (rd_start R))"
  by (simp add: conn_inv_def)

lemma loop_inv_world:
  assumes "loop_inv R frame handle h vs L" "\<And>j. byte_for j v = [] \<and> v \<noteq> ReadFails j"
    and "ls_tasks L' = ls_tasks L \<or> (\<exists>peer. ls_tasks L' = ls_tasks L @ [(peer, Reading (rd_start R))])"
    and "ls_calls L' = ls_calls L" "ls_handler L' = ls_handler L"
  shows "loop_inv R frame handle h (vs @ [v]) L'"
proof -
  have old: "conn_inv R frame (vs @ [v]) (ls_calls L) j (fst (ls_tasks L ! j)) (snd (ls_tasks L ! j))"
    if "j < length (ls_tasks L)" for j
    using assms(1,2) that by (intro conn_inv_other) (auto simp: loop_inv_def)
  have none: "bytes_read j (vs @ [v]) = [] \<and> ReadFails j \<notin> set (vs @ [v]) \<and> j \<notin> fst ` set (ls_calls L)"
    if "length (ls_tasks L) \<le> j" for j
    using assms(1) assms(2) [of j] that by (auto simp: loop_inv_def)
  then have fresh: "conn_inv R frame (vs @ [v]) (ls_calls L) (length (ls_tasks L)) peer (Reading (rd_start R))" for peer
    by (intro conn_inv_fresh) auto
  have "conn_inv R frame (vs @ [v]) (ls_calls L') j (fst (ls_tasks L' ! j)) (snd (ls_tasks L' ! j))"
    if "j < length (ls_tasks L')" for j
    using assms(3,4) that old [of j] fresh by (auto simp: nth_append less_Suc_eq)
  moreover have "bytes_read j (vs @ [v]) = [] \<and> ReadFails j \<notin> set (vs @ [v]) \<and> j \<notin> fst ` set (ls_calls L')"
    if "length (ls_tasks L') \<le> j" for j
  proof -
    have "length (ls_tasks L) \<le> j" using assms(3) that by auto
    from none [OF this] show ?thesis using assms(4) by simp
  qed
  ultimately show ?thesis using assms(1,4,5) by (simp add: loop_inv_def)
qed

lemma task_of_Some: "task_of L k = Some t \<longleftrightarrow> k < length (ls_tasks L) \<and> snd (ls_tasks L ! k) = t"
  by (auto simp: task_of_def)

lemma loop_inv_turn:
  assumes "loop_inv R frame handle h vs L" "accept_turn R frame handle v L = Some L'"
  shows "loop_inv R frame handle h (vs @ [v]) L'"
proof -
  have own: "conn_inv R frame vs (ls_calls L) k (fst (ls_tasks L ! k)) t" "k < length (ls_tasks L)"
    if "task_of L k = Some t" for k t
    using assms(1) that by (auto simp: loop_inv_def task_of_Some)
  have log: "replay handle (ls_calls L) h = Some (ls_handler L)" "distinct (map fst (ls_calls L))"
    using assms(1) by (simp_all add: loop_inv_def)
  show ?thesis
  proof (cases v)
    case (Byte k c)
    then obtain s where s: "task_of L k = Some (Reading s)"
      "L' = with_task k (case rd_feed R s c of Inl s' \<Rightarrow> Reading s' | Inr d \<Rightarrow> after_decision d) L"
      using assms(2) by (auto split: option.splits task.splits)
    show ?thesis
      by (rule loop_inv_step [OF assms(1) own(2) [OF s(1)], where t = "case rd_feed R s c of Inl s' \<Rightarrow> Reading s' | Inr d \<Rightarrow> after_decision d"])
        (use Byte s(2) log conn_inv_byte [OF own(1) [OF s(1)]] in \<open>simp_all add: with_task_def\<close>)
  next
    case (StreamEnds k)
    then obtain s where s: "task_of L k = Some (Reading s)" "L' = with_task k (after_decision (rd_finish R s)) L"
      using assms(2) by (auto split: option.splits task.splits)
    show ?thesis
      by (rule loop_inv_step [OF assms(1) own(2) [OF s(1)], where t = "after_decision (rd_finish R s)"])
        (use StreamEnds s(2) log conn_inv_ends [OF own(1) [OF s(1)]] in \<open>simp_all add: with_task_def\<close>)
  next
    case (ReadFails k)
    then obtain s where s: "task_of L k = Some (Reading s)" "L' = with_task k (Closed None) L"
      using assms(2) by (auto split: option.splits task.splits)
    show ?thesis
      by (rule loop_inv_step [OF assms(1) own(2) [OF s(1)], where t = "Closed None"])
        (use ReadFails s(2) log conn_inv_fails [OF own(1) [OF s(1)]] in \<open>simp_all add: with_task_def\<close>)
  next
    case (HandlerReturns k)
    then obtain q r h' where q: "task_of L k = Some (Asking q)" "handle (ls_handler L) (fst (ls_tasks L ! k)) q = (r, h')"
      "L' = (with_task k (Closed (Some (frame q r))) L)
         \<lparr>ls_handler := h', ls_calls := ls_calls L @ [(k, fst (ls_tasks L ! k), q, r)]\<rparr>"
      using assms(2) by (auto simp: Let_def split: option.splits task.splits prod.splits)
    have "k \<notin> fst ` set (ls_calls L)" using own(1) [OF q(1)] by (simp add: conn_inv_def)
    then show ?thesis
      by (intro loop_inv_step [OF assms(1) own(2) [OF q(1)], where t = "Closed (Some (frame q r))"])
        (use HandlerReturns q(3) log replay_snoc [OF log(1) q(2)] conn_inv_returns [OF own(1) [OF q(1)]]
          in \<open>auto simp: with_task_def\<close>)
  qed (use assms loop_inv_world [OF assms(1), of v L'] in \<open>auto split: if_splits\<close>)
qed

section \<open>Runs\<close>

lemma loop_inv_run:
  "loop_inv R frame handle h us L \<Longrightarrow> accept_loop R frame handle vs L = Some L' \<Longrightarrow> loop_inv R frame handle h (us @ vs) L'"
proof (induction vs arbitrary: us L)
  case (Cons v vs)
  then obtain M where "accept_turn R frame handle v L = Some M" "accept_loop R frame handle vs M = Some L'"
    by (auto simp: bind_eq_Some_conv)
  then show ?case using Cons.IH [OF loop_inv_turn [OF Cons.prems(1)]] by simp
qed simp

lemma with_task_peers [simp]:
  "map fst (ls_tasks (with_task k t L)) = map fst (ls_tasks L)" "ls_accepting (with_task k t L) = ls_accepting L"
proof -
  have "(map fst xs)[k := fst (xs ! k)] = map fst xs" for xs :: "(string \<times> ('s, 'q) task) list"
    by (cases "k < length xs") (simp_all add: list_update_same_conv list_update_beyond)
  then show "map fst (ls_tasks (with_task k t L)) = map fst (ls_tasks L)" "ls_accepting (with_task k t L) = ls_accepting L"
    by (simp_all add: with_task_def map_update)
qed

lemma turn_peers:
  "accept_turn R frame handle v L = Some L' \<Longrightarrow>
     map fst (ls_tasks L') @ (if ls_accepting L' then accepted vs else []) =
     map fst (ls_tasks L) @ (if ls_accepting L then accepted (v # vs) else [])"
  by (cases v) (auto split: option.splits task.splits prod.splits simp: Let_def)

lemma run_peers:
  "accept_loop R frame handle vs L = Some L' \<Longrightarrow>
     map fst (ls_tasks L') = map fst (ls_tasks L) @ (if ls_accepting L then accepted vs else [])"
proof (induction vs arbitrary: L)
  case (Cons v vs)
  then obtain M where m: "accept_turn R frame handle v L = Some M" "accept_loop R frame handle vs M = Some L'"
    by (auto simp: bind_eq_Some_conv)
  then show ?case using Cons.IH [OF m(2)] turn_peers [OF m(1), of vs] by simp
qed simp

text \<open>
  A server task as the loop needs it: reading byte by byte and settling the decision is what the
  server's \<open>handle_connection\<close>, as one function of the whole input, does.
\<close>

locale task_reader =
  fixes R :: "('s, 'q) reader"
    and frame :: "'q \<Rightarrow> 'r \<Rightarrow> string"
    and conn :: "string \<Rightarrow> ('q \<Rightarrow> 'r) \<Rightarrow> string \<Rightarrow> stream_end \<Rightarrow> string option"
  assumes conn_reads: "conn peer ans input e = settle frame ans (read_all R (rd_start R) input e)"
begin

lemma conn_inv_closed:
  assumes "conn_inv R frame vs calls k peer (Closed out)"
  shows "(\<exists>q r. (k, peer, q, r) \<in> set calls \<and> out = Some (frame q r) \<and>
        (\<forall>ans. conn peer ans (bytes_read k vs) (stream_of k vs) = Some (frame q (ans q)))) \<or>
      k \<notin> fst ` set calls \<and> (\<forall>ans. conn peer ans (bytes_read k vs) (stream_of k vs) = out)"
  using assms by (cases "read_all R (rd_start R) (bytes_read k vs) (stream_of k vs)") (auto simp: conn_reads settle_def conn_inv_def)

lemma conn_inv_asking:
  "conn_inv R frame vs calls k peer (Asking q) \<Longrightarrow>
     k \<notin> fst ` set calls \<and> (\<forall>ans. conn peer ans (bytes_read k vs) (stream_of k vs) = Some (frame q (ans q)))"
  by (simp add: conn_inv_def conn_reads settle_def)

lemma conn_inv_reading: "conn_inv R frame vs calls k peer (Reading s) \<Longrightarrow> k \<notin> fst ` set calls"
  by (simp add: conn_inv_def)

lemma run_serves_apart:
  assumes "accept_loop R frame handle vs (listening h) = Some L"
  shows "serves_apart conn frame handle h vs L"
proof -
  have "loop_inv R frame handle h [] (listening h)" by (simp add: loop_inv_def listening_def bytes_read_def)
  from loop_inv_run [OF this assms] have inv: "loop_inv R frame handle h vs L" by simp
  have "case ls_tasks L ! k of
      (peer, Reading s) \<Rightarrow> k \<notin> fst ` set (ls_calls L)
    | (peer, Asking q) \<Rightarrow>
        k \<notin> fst ` set (ls_calls L) \<and> (\<forall>ans. conn peer ans (bytes_read k vs) (stream_of k vs) = Some (frame q (ans q)))
    | (peer, Closed out) \<Rightarrow>
        (\<exists>q r. (k, peer, q, r) \<in> set (ls_calls L) \<and> out = Some (frame q r) \<and>
           (\<forall>ans. conn peer ans (bytes_read k vs) (stream_of k vs) = Some (frame q (ans q)))) \<or>
        k \<notin> fst ` set (ls_calls L) \<and> (\<forall>ans. conn peer ans (bytes_read k vs) (stream_of k vs) = out)"
    if "k < length (ls_tasks L)" for k
  proof -
    obtain peer t where t: "ls_tasks L ! k = (peer, t)" by (cases "ls_tasks L ! k")
    then have "conn_inv R frame vs (ls_calls L) k peer t" using inv that by (auto simp: loop_inv_def)
    then show ?thesis
    proof (cases t)
      case (Reading s)
      with \<open>conn_inv R frame vs (ls_calls L) k peer t\<close> show ?thesis unfolding t Reading prod.case task.case by (intro conn_inv_reading)
    next
      case (Asking q)
      with \<open>conn_inv R frame vs (ls_calls L) k peer t\<close> show ?thesis unfolding t Asking prod.case task.case by (intro conn_inv_asking)
    next
      case (Closed out)
      with \<open>conn_inv R frame vs (ls_calls L) k peer t\<close> show ?thesis unfolding t Closed prod.case task.case by (intro conn_inv_closed)
    qed
  qed
  moreover have "map fst (ls_tasks L) = accepted vs" using run_peers [OF assms] by (simp add: listening_def)
  moreover have "replay handle (ls_calls L) h = Some (ls_handler L)" "distinct (map fst (ls_calls L))"
    using inv by (simp_all add: loop_inv_def)
  ultimately show ?thesis unfolding serves_apart_def by blast
qed

end

end
