(* ===== verification/Finger.thy ===== *)
theory Finger
  imports Accept_Loop Url_Iface
begin

text \<open>
  Finger (\<open>crates/finger-protocol/src\<close>, \<open>lib.rs\<close>, \<open>client.rs\<close> and \<open>server.rs\<close>): the query's wire
  form, the client, the server's parser and one of its connections. The URL parser is a parameter.
\<close>

section \<open>Queries\<close>

record finger_query =
  fq_user :: "string option"
  fq_verbose :: bool

definition query_for_user :: "string \<Rightarrow> finger_query" where
  "query_for_user name = \<lparr>fq_user = Some name, fq_verbose = False\<rparr>"

definition query_verbose :: "finger_query \<Rightarrow> finger_query" where
  "query_verbose q = q\<lparr>fq_verbose := True\<rparr>"

definition finger_wire :: "finger_query \<Rightarrow> string" where
  "finger_wire q =
     (let user = (case fq_user q of Some u \<Rightarrow> u | None \<Rightarrow> []) in
      if fq_verbose q \<and> user = [] then ''/W'' @ CRLF
      else if fq_verbose q then ''/W '' @ user @ CRLF
      else user @ CRLF)"

section \<open>The client\<close>

datatype finger_error = FingerBadUrl | FingerConnect | FingerIo

definition FINGER_PORT :: nat where "FINGER_PORT = 79"

definition trim_start_slashes :: "string \<Rightarrow> string" where
  "trim_start_slashes s = dropWhile (\<lambda>c. c = CHR ''/'') s"

definition query_from_url :: "url \<Rightarrow> finger_query" where
  "query_from_url u =
     (let from_path = trim_start_slashes (url_path u) in
      \<lparr>fq_user = (if from_path \<noteq> [] then Some from_path
                  else if url_username u \<noteq> [] then Some (url_username u) else None),
       fq_verbose = False\<rparr>)"

definition finger_query_host :: "(string \<Rightarrow> string \<times> stream_end) option \<Rightarrow> finger_query \<Rightarrow> finger_error + string" where
  "finger_query_host connected q =
     (case connected of None \<Rightarrow> Inl FingerConnect
      | Some answer \<Rightarrow> (case answer (finger_wire q) of (body, Eof) \<Rightarrow> Inr body | (_, Broken) \<Rightarrow> Inl FingerIo))"

definition finger_fetch ::
    "url_parser \<Rightarrow> (string \<Rightarrow> nat \<Rightarrow> (string \<Rightarrow> string \<times> stream_end) option) \<Rightarrow> string \<Rightarrow> finger_error + string" where
  "finger_fetch up dial u =
     (case up u of None \<Rightarrow> Inl FingerBadUrl
      | Some p \<Rightarrow>
        (case url_host p of None \<Rightarrow> Inl FingerBadUrl
         | Some host \<Rightarrow>
             finger_query_host (dial host (case url_port p of Some n \<Rightarrow> n | None \<Rightarrow> FINGER_PORT)) (query_from_url p)))"

definition finger_text :: "string \<Rightarrow> string" where
  "finger_text body = from_utf8_lossy body"

section \<open>The server\<close>

record finger_config =
  fg_max_request_line :: nat

definition default_finger_config :: finger_config where
  "default_finger_config = \<lparr>fg_max_request_line = 512\<rparr>"

definition finger_parse_query :: "string \<Rightarrow> finger_query" where
  "finger_parse_query line =
     (let t = trim_newlines (from_utf8_lossy line);
          (verbose, rest) = (case strip_prefix ''/W'' t of
                               Some rest \<Rightarrow> (True, trim_start rest) | None \<Rightarrow> (False, t));
          user = trim rest
      in \<lparr>fq_user = (if user \<noteq> [] then Some user else None), fq_verbose = verbose\<rparr>)"

definition finger_handle_connection ::
    "finger_config \<Rightarrow> (finger_query \<Rightarrow> string) \<Rightarrow> string \<Rightarrow> stream_end \<Rightarrow> string option" where
  "finger_handle_connection cfg handler input e =
     (case closing_line (fg_max_request_line cfg) [] input e of
        PushFailed \<Rightarrow> None
      | PushOverlong \<Rightarrow> Some []
      | Pushed line \<Rightarrow> Some (handler (finger_parse_query line)))"

section \<open>The exchange\<close>

text \<open>
  The query the server understands: an empty name is no name, and a name that starts with the
  switch is taken for it.
\<close>

definition received_query :: "finger_query \<Rightarrow> finger_query" where
  "received_query q =
     (case fq_user q of None \<Rightarrow> q
      | Some u \<Rightarrow>
          if u = [] then q\<lparr>fq_user := None\<rparr>
          else if fq_verbose q \<or> \<not> starts_with ''/W'' u then q
          else let name = trim (drop 2 u) in
            \<lparr>fq_user = (if name \<noteq> [] then Some name else None), fq_verbose = True\<rparr>)"

definition wire_user :: "finger_query \<Rightarrow> bool" where
  "wire_user q \<longleftrightarrow> (case fq_user q of None \<Rightarrow> True | Some u \<Rightarrow> valid_utf8 u \<and> trim u = u \<and> LF \<notin> set u)"

lemma switch_ascii [simp]: "ascii (CHR ''/'')" "ascii (CHR ''W'')" "ascii (CHR '' '')" "\<not> ascii_ws (CHR ''W'')"
  by (simp_all add: ascii_def ascii_ws_def between_def)

lemma parse_query_line:
  assumes "valid_utf8 l" "trim_newlines l = l"
  shows "finger_parse_query (l @ [CR]) =
    (let (verbose, rest) = (case strip_prefix ''/W'' l of Some rest \<Rightarrow> (True, rest) | None \<Rightarrow> (False, l));
         user = trim rest
     in \<lparr>fq_user = (if user \<noteq> [] then Some user else None), fq_verbose = verbose\<rparr>)"
proof -
  have "from_utf8_lossy (l @ [CR]) = l @ [CR]"
    using assms(1) by (intro from_utf8_lossy_valid valid_utf8_append) (simp_all add: ascii_def)
  with assms(2) show ?thesis by (simp add: finger_parse_query_def split: option.splits)
qed

lemma strip_switch: "strip_prefix ''/W'' u = (if starts_with ''/W'' u then Some (drop 2 u) else None)"
  by (simp add: strip_prefix_def starts_with_def numeral_2_eq_2)

lemma finger_wire_received:
  assumes "wire_user q"
  shows "\<exists>l. finger_wire q = l @ CRLF \<and> LF \<notin> set l \<and> finger_parse_query (l @ [CR]) = received_query q"
proof (cases "fq_user q = None \<or> fq_user q = Some []")
  case True
  have "finger_parse_query (''/W'' @ [CR]) = \<lparr>fq_user = None, fq_verbose = True\<rparr>"
    by (subst parse_query_line) (simp_all add: trim_newlines_id)
  moreover have "finger_parse_query ([] @ [CR]) = \<lparr>fq_user = None, fq_verbose = False\<rparr>"
    by (subst parse_query_line) (simp_all add: trim_newlines_id)
  moreover have "received_query q = \<lparr>fq_user = None, fq_verbose = fq_verbose q\<rparr>"
    using True by (cases q) (auto simp: received_query_def)
  ultimately show ?thesis
    using True by (cases "fq_verbose q") (auto simp: finger_wire_def)
next
  case False
  then obtain u where u: "fq_user q = Some u" "u \<noteq> []" by auto
  with assms have ok: "valid_utf8 u" "trim u = u" "LF \<notin> set u" by (auto simp: wire_user_def)
  show ?thesis
  proof (cases "fq_verbose q")
    case True
    have "trim_newlines (''/W '' @ u) = ''/W '' @ u"
      using trimmed_ends(2) [OF ok(2) u(2)] u(2) by (intro trim_newlines_id) auto
    then have "finger_parse_query ((''/W '' @ u) @ [CR]) = received_query q"
      using ok u True by (subst parse_query_line) (cases q, auto simp: received_query_def trim_ws_Cons)
    with ok u True show ?thesis by (intro exI [of _ "''/W '' @ u"]) (simp add: finger_wire_def)
  next
    case False
    have "finger_parse_query (u @ [CR]) = received_query q"
      using ok u False trim_newlines_trimmed [OF ok(2)]
      by (subst parse_query_line) (cases q, auto simp: received_query_def strip_switch Let_def)
    with ok u False show ?thesis by (intro exI [of _ u]) (simp add: finger_wire_def)
  qed
qed

lemma finger_server_answers:
  assumes "wire_user q" "length (finger_wire q) \<le> fg_max_request_line cfg"
  shows "finger_handle_connection cfg handler (finger_wire q) Eof = Some (handler (received_query q))"
proof -
  obtain l where l: "finger_wire q = l @ CRLF" "LF \<notin> set l" "finger_parse_query (l @ [CR]) = received_query q"
    using finger_wire_received [OF assms(1)] by blast
  then show ?thesis
    using assms(2) closing_line_crlf [of l "fg_max_request_line cfg" "[]" Eof]
    by (simp add: finger_handle_connection_def)
qed

definition finger_admits :: "finger_config \<Rightarrow> finger_query \<Rightarrow> bool" where
  "finger_admits cfg q \<longleftrightarrow>
     wire_user q \<and> received_query q = q \<and> length (finger_wire q) \<le> fg_max_request_line cfg"

interpretation finger: one_shot finger_wire finger_admits "\<lambda>body. body" finger_handle_connection
proof (unfold_locales, goal_cases)
  case (1 cfg q h)
  then show ?case using finger_server_answers [of q cfg h] by (simp add: finger_admits_def)
next
  case 2
  show ?case by (rule exI [of _ "[]"], rule exI [of _ "''a''"]) simp
qed

section \<open>Properties\<close>

text \<open>
  (C20) Finger from end to end: a query whose user is trimmed text without a line feed, and whose
  wire form fits the server's limit, is answered with what the handler says to it. It reaches the
  handler unchanged, except that an empty name is a listing request and that a name beginning with
  \<open>/W\<close> in a query without the switch is taken for the switch and the rest of the name.
\<close>

theorem finger_exchange_correct:
  assumes "wire_user q" "length (finger_wire q) \<le> fg_max_request_line cfg"
  shows "finger_query_host (Some (as_peer (finger_handle_connection cfg handler))) q = Inr (handler (received_query q))"
  using finger_server_answers [OF assms] by (simp add: finger_query_host_def as_peer_def)

lemma finger_exchange_witness:
  "finger_query_host (Some (as_peer (finger_handle_connection default_finger_config
      (\<lambda>q. case fq_user q of Some u \<Rightarrow> u | None \<Rightarrow> ''everyone'')))) (query_for_user ''/Wendy'') = Inr ''endy''"
proof -
  have "valid_utf8 ''/Wendy''" by code_simp
  moreover have "trim ''/Wendy'' = ''/Wendy''" "trim ''endy'' = ''endy''"
    by (intro visible_trim; simp add: ascii_def ascii_ws_def between_def)+
  ultimately show ?thesis
    by (subst finger_exchange_correct)
      (simp_all add: query_for_user_def wire_user_def finger_wire_def default_finger_config_def
        received_query_def starts_with_def)
qed

end
