(* ===== verification/File_Serving.thy ===== *)
theory File_Serving
  imports Rust_Ascii Url_Iface
begin

text \<open>
  The static-directory handlers of nex, spartan and guppy rest on the same pieces: resolving a
  request path below a root directory, looking at the file system there, and guessing a MIME type
  from the extension. A path is the list of its components, a file system what the handlers ask
  of it. Percent decoding is third-party code and the parameter \<open>pct\<close>.
\<close>

section \<open>Paths and the file system\<close>

type_synonym path = "string list"

datatype file_result = FileBytes string | FileMissing | FileUnreadable

record file_system =
  is_dir_at :: "path \<Rightarrow> bool"
  read_at :: "path \<Rightarrow> file_result"
  entries_at :: "path \<Rightarrow> (string \<times> bool) list"

text \<open>
  The loop over \<open>decoded.split('/')\<close>, the same in the three crates. A pushed segment is one
  component: it holds no separator.
\<close>

fun push_segments :: "path \<Rightarrow> string list \<Rightarrow> path option" where
  "push_segments resolved [] = Some resolved"
| "push_segments resolved (segment # segments) =
     (if segment = [] \<or> segment = ''.'' then push_segments resolved segments
      else if segment = ''..'' then None
      else if CHR 0x5C \<in> set segment \<or> CHR '':'' \<in> set segment then None
      else push_segments (resolved @ [segment]) segments)"

text \<open>\<open>Path::extension\<close> of the last component, as text in lower case; empty when there is none.\<close>

definition extension :: "path \<Rightarrow> string" where
  "extension p =
     (if p = [] \<or> last p = ''..'' then []
      else case rfind (CHR ''.'') (last p) of
             None \<Rightarrow> []
           | Some n \<Rightarrow>
               if n = 0 then []
               else case from_utf8 (drop (n + 1) (last p)) of None \<Rightarrow> [] | Some ext \<Rightarrow> to_lower ext)"

section \<open>Confinement\<close>

definition safe_segment :: "string \<Rightarrow> bool" where
  "safe_segment s \<longleftrightarrow>
     s \<noteq> [] \<and> s \<noteq> ''.'' \<and> s \<noteq> ''..'' \<and> CHR ''/'' \<notin> set s \<and> CHR 0x5C \<notin> set s \<and> CHR '':'' \<notin> set s"

definition refused_segment :: "string \<Rightarrow> bool" where
  "refused_segment s \<longleftrightarrow> s = ''..'' \<or> CHR 0x5C \<in> set s \<or> CHR '':'' \<in> set s"

definition below :: "path \<Rightarrow> path \<Rightarrow> bool" where
  "below root p \<longleftrightarrow> (\<exists>segs. p = root @ segs \<and> list_all safe_segment segs)"

definition same_at :: "file_system \<Rightarrow> file_system \<Rightarrow> path \<Rightarrow> bool" where
  "same_at fs fs' p \<longleftrightarrow>
     is_dir_at fs p = is_dir_at fs' p \<and> read_at fs p = read_at fs' p \<and> entries_at fs p = entries_at fs' p"

definition same_below :: "path \<Rightarrow> file_system \<Rightarrow> file_system \<Rightarrow> bool" where
  "same_below root fs fs' \<longleftrightarrow> (\<forall>p. below root p \<longrightarrow> same_at fs fs' p)"

lemma push_segments_exact:
  "push_segments resolved segs =
     (if list_ex refused_segment segs then None
      else Some (resolved @ filter (\<lambda>s. s \<noteq> [] \<and> s \<noteq> ''.'') segs))"
  by (induction resolved segs rule: push_segments.induct) (auto simp: refused_segment_def)

lemma push_segments_below:
  assumes "push_segments root segs = Some p" "\<forall>s \<in> set segs. CHR ''/'' \<notin> set s"
  shows "below root p"
proof -
  let ?kept = "filter (\<lambda>s. s \<noteq> [] \<and> s \<noteq> ''.'') segs"
  have "p = root @ ?kept" "\<not> list_ex refused_segment segs"
    using assms(1) by (auto simp: push_segments_exact split: if_splits)
  moreover from this(2) assms(2) have "list_all safe_segment ?kept"
    by (auto simp: list_all_iff list_ex_iff safe_segment_def refused_segment_def)
  ultimately show ?thesis by (auto simp: below_def)
qed

lemma below_snoc [intro]: "below root p \<Longrightarrow> safe_segment s \<Longrightarrow> below root (p @ [s])"
  by (auto simp: below_def)

lemma split_slash_no_slash: "\<forall>s \<in> set (split_all (CHR ''/'') d). CHR ''/'' \<notin> set s"
  by (blast dest: split_all_no_delim)

lemma same_belowD: "same_below root fs fs' \<Longrightarrow> below root p \<Longrightarrow> same_at fs fs' p"
  by (simp add: same_below_def)

lemma same_atD:
  "same_at fs fs' p \<Longrightarrow> is_dir_at fs p = is_dir_at fs' p"
  "same_at fs fs' p \<Longrightarrow> read_at fs p = read_at fs' p"
  "same_at fs fs' p \<Longrightarrow> entries_at fs p = entries_at fs' p"
  by (simp_all add: same_at_def)

text \<open>
  What a directory handler owes: it resolves a request path below its root, and it looks at the
  file system only at the resolved path and at the index document inside it.
\<close>

locale directory_handler =
  fixes resolve :: "path \<Rightarrow> string \<Rightarrow> path option"
    and request_of :: "'q \<Rightarrow> string"
    and handle :: "file_system \<Rightarrow> path \<Rightarrow> 'q \<Rightarrow> 'r"
    and index :: string
  assumes resolve_below: "resolve root w = Some p \<Longrightarrow> below root p"
    and index_safe: "safe_segment index"
    and looks_at: "(\<And>p. resolve root (request_of q) = Some p \<Longrightarrow>
        same_at fs fs' p \<and> same_at fs fs' (p @ [index])) \<Longrightarrow> handle fs root q = handle fs' root q"
begin

lemma confined: "same_below root fs fs' \<Longrightarrow> handle fs root q = handle fs' root q"
  using resolve_below index_safe by (intro looks_at) (blast intro: same_belowD)

text \<open>Nothing outside the root can be learnt: changing the rest of the file system changes no answer.\<close>

lemma outside_irrelevant:
  assumes "\<And>p. below root p \<Longrightarrow> g p = read_at fs p"
  shows "handle (fs\<lparr>read_at := g\<rparr>) root q = handle fs root q"
  using assms by (intro confined) (auto simp: same_below_def same_at_def)

end

end
