(* ===== verification/Nex.thy ===== *)
theory Nex
  imports File_Serving Accept_Loop "HOL-Library.List_Lexorder" "HOL-Library.Char_ord"
begin

text \<open>
  Nex (\<open>crates/nex-protocol/src\<close>): directory paths, listings, the client, one server connection
  and the static-directory handler. A connection is a byte stream; the URL parser and percent
  decoding are parameters.
\<close>

section \<open>Listings\<close>

definition is_directory_path :: "string \<Rightarrow> bool" where
  "is_directory_path p \<longleftrightarrow> p = [] \<or> ends_with ''/'' p"

datatype listing_line = ListLink string "string option" | ListText string

definition listing_line_of :: "string \<Rightarrow> listing_line" where
  "listing_line_of line0 =
     (let line = trim_crs line0 in
      case strip_prefix ''=> '' line of
        None \<Rightarrow> ListText line
      | Some rest0 \<Rightarrow>
          if trim rest0 = [] then ListText line
          else let rest = trim_start rest0 in
            (case split_ws rest of
               Some (u, label) \<Rightarrow> ListLink u (if trim label \<noteq> [] then Some (trim label) else None)
             | None \<Rightarrow> ListLink rest None))"

definition parse_listing :: "string \<Rightarrow> listing_line list" where
  "parse_listing t = map listing_line_of (str_lines t)"

section \<open>The client\<close>

datatype nex_error = NexBadUrl | NexIo | NexTooLarge nat

definition NEX_PORT :: nat where "NEX_PORT = 1900"

text \<open>\<open>answer\<close> is the peer: the bytes it sends back for the bytes it is sent.\<close>

definition nex_fetch_path :: "nat \<Rightarrow> (string \<Rightarrow> string \<times> stream_end) \<Rightarrow> string \<Rightarrow> nex_error + string" where
  "nex_fetch_path max_body answer p =
     (case read_within max_body (answer (p @ CRLF)) of
        Whole body \<Rightarrow> Inr body
      | Exceeds \<Rightarrow> Inl (NexTooLarge max_body)
      | ReadBroken \<Rightarrow> Inl NexIo)"

text \<open>\<open>dial host port\<close> is the connected peer, or \<open>None\<close> when connecting fails.\<close>

definition nex_fetch ::
    "url_parser \<Rightarrow> (string \<Rightarrow> nat \<Rightarrow> (string \<Rightarrow> string \<times> stream_end) option) \<Rightarrow> nat \<Rightarrow> string \<Rightarrow> nex_error + string" where
  "nex_fetch up dial max_body u =
     (case up u of None \<Rightarrow> Inl NexBadUrl
      | Some p \<Rightarrow>
          if url_scheme p \<noteq> ''nex'' then Inl NexBadUrl
          else (case url_host p of None \<Rightarrow> Inl NexBadUrl
           | Some host \<Rightarrow>
             (case dial host (case url_port p of Some n \<Rightarrow> n | None \<Rightarrow> NEX_PORT) of
                None \<Rightarrow> Inl NexIo
              | Some answer \<Rightarrow> nex_fetch_path max_body answer (url_path p))))"

section \<open>The server\<close>

record nex_config =
  nx_max_request_line :: nat

definition default_nex_config :: nex_config where
  "default_nex_config = \<lparr>nx_max_request_line = 2048\<rparr>"

text \<open>The bytes written before the connection is shut down; \<open>None\<close> for an I/O error.\<close>

definition nex_handle_connection ::
    "nex_config \<Rightarrow> (string \<Rightarrow> string) \<Rightarrow> string \<Rightarrow> stream_end \<Rightarrow> string option" where
  "nex_handle_connection cfg handler input e =
     (case closing_line (nx_max_request_line cfg) [] input e of
        PushFailed \<Rightarrow> None
      | PushOverlong \<Rightarrow> Some []
      | Pushed line \<Rightarrow> Some (handler (trim_crs (from_utf8_lossy line))))"

section \<open>The static-directory handler\<close>

definition nex_resolve :: "(string \<Rightarrow> string) \<Rightarrow> path \<Rightarrow> string \<Rightarrow> path option" where
  "nex_resolve pct root p =
     (case from_utf8 (pct p) of None \<Rightarrow> None
      | Some decoded \<Rightarrow> push_segments root (split_all (CHR ''/'') decoded))"

definition shown_name :: "string \<times> bool \<Rightarrow> string" where
  "shown_name = (\<lambda>(name, dir). from_utf8_lossy name @ (if dir then ''/'' else []))"

definition listing_for :: "file_system \<Rightarrow> path \<Rightarrow> string \<Rightarrow> string" where
  "listing_for fs dir request_path =
     request_path @ [LF, LF] @
     concat (map (\<lambda>name. ''=> '' @ name @ [LF]) (sort (map shown_name (entries_at fs dir))))"

definition nex_handle :: "(string \<Rightarrow> string) \<Rightarrow> file_system \<Rightarrow> path \<Rightarrow> string \<Rightarrow> string" where
  "nex_handle pct fs root p =
     (case nex_resolve pct root p of None \<Rightarrow> ''bad path'' @ [LF]
      | Some q \<Rightarrow>
          if is_directory_path p \<or> is_dir_at fs q then
            (case read_at fs (q @ [''index.nex'']) of FileBytes body \<Rightarrow> body
             | _ \<Rightarrow> listing_for fs q (if p = [] then ''/'' else p))
          else (case read_at fs q of FileBytes body \<Rightarrow> body | _ \<Rightarrow> p @ '' not found'' @ [LF]))"

section \<open>The exchange\<close>

definition nex_admits :: "nex_config \<Rightarrow> string \<Rightarrow> bool" where
  "nex_admits cfg p \<longleftrightarrow>
     valid_utf8 p \<and> LF \<notin> set p \<and> (p = [] \<or> last p \<noteq> CR) \<and> Suc (length p) < nx_max_request_line cfg"

lemma ascii_CR [simp]: "ascii CR" "ascii LF"
  by (simp_all add: ascii_def)

lemma nex_server_answers:
  assumes "nex_admits cfg p"
  shows "nex_handle_connection cfg handler (p @ CRLF) Eof = Some (handler p)"
proof -
  have "valid_utf8 (p @ [CR])" using assms by (intro valid_utf8_append) (auto simp: nex_admits_def)
  then show ?thesis
    using assms closing_line_crlf [of p "nx_max_request_line cfg" "[]" Eof]
    by (simp add: nex_handle_connection_def nex_admits_def from_utf8_lossy_valid trim_crs_id)
qed

interpretation nex: one_shot "\<lambda>p. p @ CRLF" nex_admits "\<lambda>body. body" nex_handle_connection
proof unfold_locales
  show "\<exists>a b. (a :: string) \<noteq> b" by (rule exI [of _ "[]"], rule exI [of _ "''a''"]) simp
qed (rule nex_server_answers)

interpretation nex_files: directory_handler "nex_resolve pct" "\<lambda>p. p" "nex_handle pct" "''index.nex''" for pct
proof (unfold_locales, goal_cases)
  case (1 root w p)
  then show ?case
    using push_segments_below split_slash_no_slash by (auto simp: nex_resolve_def split: option.splits)
next
  case 2
  show ?case by (simp add: safe_segment_def)
next
  case (3 root q fs fs')
  show ?case
  proof (cases "nex_resolve pct root q")
    case (Some p)
    with 3 have eq: "same_at fs fs' p" "same_at fs fs' (p @ [''index.nex''])" by blast+
    then have "listing_for fs p w = listing_for fs' p w" for w
      by (simp add: listing_for_def same_atD(3) [of fs fs' p])
    with eq show ?thesis
      by (simp add: Some nex_handle_def same_atD split: file_result.splits)
  qed (simp add: nex_handle_def)
qed

section \<open>Properties\<close>

text \<open>
  (C30) Nex from end to end: the client that asks for a selector the server admits receives exactly
  what the handler answers for that selector (or the size-cap error); a selector that, with
  its carriage return, reaches the server's limit is answered with an empty body, whatever the
  handler.
\<close>

theorem nex_exchange_correct:
  assumes "valid_utf8 p" "LF \<notin> set p" "p = [] \<or> last p \<noteq> CR" "0 < nx_max_request_line cfg"
  shows "nex_fetch_path max_body (as_peer (nex_handle_connection cfg handler)) p =
    (if Suc (length p) < nx_max_request_line cfg then
       (if length (handler p) \<le> max_body then Inr (handler p) else Inl (NexTooLarge max_body))
     else Inr [])"
proof (cases "Suc (length p) < nx_max_request_line cfg")
  case True
  with assms have "nex_admits cfg p" by (simp add: nex_admits_def)
  with True show ?thesis
    using nex.peer_answers [of cfg p handler] by (simp add: nex_fetch_path_def read_within_def)
next
  case False
  then have "closing_line (nx_max_request_line cfg) [] ((p @ [CR]) @ [LF]) Eof = PushOverlong"
    using assms by (intro closing_line_overlong) auto
  with False show ?thesis
    by (simp add: nex_fetch_path_def as_peer_def nex_handle_connection_def)
qed

text \<open>How the reader sees the lines of a generated listing.\<close>

lemma trim_crs_visible_end: "visible b \<Longrightarrow> b \<noteq> [] \<Longrightarrow> trim_crs (a @ b) = a @ b"
  by (intro trim_crs_id) (metis last_appendR last_in_set visible_not_sp(3))

lemma link_line_visible:
  assumes "visible n" "n \<noteq> []"
  shows "listing_line_of (''=> '' @ n) = ListLink n None"
  using assms trim_crs_visible_end [OF assms, of "''=> ''"] trim_start_visible [OF assms, of "[]"]
  by (simp add: listing_line_of_def Let_def visible_trim)

lemma link_line_spaced:
  assumes "visible a" "a \<noteq> []" "visible b" "b \<noteq> []"
  shows "listing_line_of (''=> '' @ a @ CHR '' '' # b) = ListLink a (Some b)"
proof -
  have "trim_crs (''=> '' @ a @ CHR '' '' # b) = ''=> '' @ a @ CHR '' '' # b"
    using trim_crs_visible_end [OF assms(3,4), of "''=> '' @ a @ '' ''"] by simp
  moreover have "trim (a @ CHR '' '' # b) \<noteq> []"
    using assms(1,2) by (cases a) (simp_all add: trim_visible_head)
  ultimately show ?thesis
    using assms trim_start_visible [of a "CHR '' '' # b"]
    by (simp add: listing_line_of_def Let_def visible_trim)
qed

lemma str_lines_links:
  "\<forall>n \<in> set ns. LF \<notin> set n \<and> (n = [] \<or> last n \<noteq> CR) \<Longrightarrow>
     str_lines (concat (map (\<lambda>n. ''=> '' @ n @ [LF]) ns)) = map ((@) ''=> '') ns"
proof (induction ns)
  case (Cons n ns)
  then have "str_lines ((''=> '' @ n) @ LF # concat (map (\<lambda>n. ''=> '' @ n @ [LF]) ns)) =
      strip_cr (''=> '' @ n) # map ((@) ''=> '') ns"
    by (subst str_lines_lf) auto
  moreover have "strip_cr (''=> '' @ n) = ''=> '' @ n"
    using Cons.prems by (intro strip_cr_id) auto
  ultimately show ?case by simp
qed simp

lemma listing_lines:
  assumes "visible p" "\<forall>e \<in> set (entries_at fs dir). LF \<notin> set (shown_name e) \<and>
    (shown_name e = [] \<or> last (shown_name e) \<noteq> CR)"
  shows "parse_listing (listing_for fs dir p) =
    listing_line_of p # listing_line_of [] #
      map (\<lambda>n. listing_line_of (''=> '' @ n)) (sort (map shown_name (entries_at fs dir)))"
proof -
  let ?ns = "sort (map shown_name (entries_at fs dir))"
  have "str_lines (listing_for fs dir p) = strip_cr p # strip_cr [] # map ((@) ''=> '') ?ns"
    using assms str_lines_links [of ?ns] str_lines_lf [of p] str_lines_lf [of "[]"]
    by (auto simp: listing_for_def)
  moreover have "strip_cr p = p" "strip_cr ([] :: string) = []"
    using assms(1) by (auto intro!: strip_cr_id) (metis last_in_set visible_not_sp(3))
  ultimately show ?thesis by (simp add: parse_listing_def)
qed

lemma text_line_visible: "visible p \<Longrightarrow> listing_line_of p = ListText p"
proof -
  assume p: "visible p"
  then have "strip_prefix ''=> '' p = None"
    using visible_not_sp(1) [OF p] by (cases "strip_prefix ''=> '' p") (auto dest!: strip_prefix_SomeD)
  with p show ?thesis by (simp add: listing_line_of_def)
qed

lemma visible_shown_name:
  "visible (fst e) \<Longrightarrow> shown_name e = fst e @ (if snd e then ''/'' else []) \<and> visible (shown_name e)"
  by (cases e) (simp add: shown_name_def from_utf8_lossy_valid visible_valid_utf8 ascii_def ascii_ws_def between_def)

lemma nex_handle_listing:
  assumes "nex_resolve pct root p = Some q" "is_directory_path p \<or> is_dir_at fs q"
    "\<And>body. read_at fs (q @ [''index.nex'']) \<noteq> FileBytes body"
  shows "nex_handle pct fs root p = listing_for fs q (if p = [] then ''/'' else p)"
  using assms by (cases "read_at fs (q @ [''index.nex''])") (auto simp: nex_handle_def)

text \<open>
  A generated listing is read back by the client: for a directory without \<open>index.nex\<close> whose
  entries have visible ASCII names, \<open>parse_listing\<close> of the handler's answer is the request path,
  a blank line and one link per entry, sorted, with a slash after directories.
\<close>

theorem nex_listing_read_back:
  assumes "nex_resolve pct root p = Some q" "is_directory_path p \<or> is_dir_at fs q"
    and "\<And>body. read_at fs (q @ [''index.nex'']) \<noteq> FileBytes body"
    and "visible p" "\<forall>(name, dir) \<in> set (entries_at fs q). name \<noteq> [] \<and> visible name"
  shows "parse_listing (nex_handle pct fs root p) =
    ListText (if p = [] then ''/'' else p) # ListText [] #
      map (\<lambda>name. ListLink name None)
        (sort (map (\<lambda>(name, dir). name @ (if dir then ''/'' else [])) (entries_at fs q)))"
proof -
  have names: "shown_name e = fst e @ (if snd e then ''/'' else [])" "visible (shown_name e)" "shown_name e \<noteq> []"
    if "e \<in> set (entries_at fs q)" for e
    using bspec [OF assms(5) that] visible_shown_name [of e] by (simp_all add: case_prod_beta)
  let ?ns = "map shown_name (entries_at fs q)"
  have eq: "?ns = map (\<lambda>(name, dir). name @ (if dir then ''/'' else [])) (entries_at fs q)"
    using names(1) by (auto simp: case_prod_beta)
  have p: "visible (if p = [] then ''/'' else p)"
    using assms(4) by simp
  have plain: "\<forall>e \<in> set (entries_at fs q). LF \<notin> set (shown_name e) \<and> (shown_name e = [] \<or> last (shown_name e) \<noteq> CR)"
    using names(2,3) visible_not_sp(2,3) by (metis last_in_set)
  have links: "map (\<lambda>n. listing_line_of (''=> '' @ n)) (sort ?ns) = map (\<lambda>n. ListLink n None) (sort ?ns)"
  proof (rule map_cong [OF refl])
    fix n assume "n \<in> set (sort ?ns)"
    then obtain e where "e \<in> set (entries_at fs q)" "n = shown_name e" by auto
    with names(2,3) [of e] show "listing_line_of (''=> '' @ n) = ListLink n None"
      by (blast intro: link_line_visible)
  qed
  show ?thesis
    unfolding nex_handle_listing [OF assms(1-3)] listing_lines [OF p plain] links
    unfolding eq text_line_visible [OF p] using text_line_visible [of "[]"] by simp
qed

text \<open>
  A file name with a space is not: the listing links to the part before the space and shows the
  rest as a label, because the name is written unencoded.
\<close>

theorem nex_spaced_name_misread:
  assumes "nex_resolve pct root p = Some q" "is_directory_path p \<or> is_dir_at fs q"
    and "\<And>body. read_at fs (q @ [''index.nex'']) \<noteq> FileBytes body"
    and "visible p" "entries_at fs q = [(a @ CHR '' '' # b, False)]"
    and "visible a" "a \<noteq> []" "visible b" "b \<noteq> []"
  shows "parse_listing (nex_handle pct fs root p) =
    [ListText (if p = [] then ''/'' else p), ListText [], ListLink a (Some b)]"
proof -
  have "valid_utf8 (a @ CHR '' '' # b)"
    using assms(6,8) by (intro valid_utf8_append) (auto simp: visible_valid_utf8 ascii_def)
  then have name: "shown_name (a @ CHR '' '' # b, False) = a @ CHR '' '' # b"
    by (simp add: shown_name_def from_utf8_lossy_valid)
  have "visible (if p = [] then ''/'' else p)"
    using assms(4) by (simp add: ascii_def ascii_ws_def between_def)
  moreover have "LF \<notin> set (a @ CHR '' '' # b)" "last (a @ CHR '' '' # b) \<noteq> CR"
    using assms(6-9) visible_not_sp(2,3) by (auto, metis last_in_set)
  ultimately show ?thesis
    using nex_handle_listing [OF assms(1-3)] text_line_visible link_line_spaced [OF assms(6-9)]
    by (simp add: listing_lines assms(5) name)
qed

section \<open>Concrete runs\<close>

definition demo_site :: file_system where
  "demo_site = \<lparr>is_dir_at = (\<lambda>p. p = [''srv''] \<or> p = [''srv'', ''log'']),
     read_at = (\<lambda>p. if p = [''srv'', ''a.txt''] then FileBytes ''hi'' else FileMissing),
     entries_at = (\<lambda>p. if p = [''srv''] then [(''log'', True), (''a.txt'', False)]
                        else if p = [''srv'', ''log''] then [(''my day.txt'', False)] else [])\<rparr>"

lemma nex_exchange_witness:
  "nex_fetch_path 100 (as_peer (nex_handle_connection default_nex_config (nex_handle id demo_site [''srv''])))
     ''/a.txt'' = Inr ''hi''"
proof -
  have "nex_handle id demo_site [''srv''] ''/a.txt'' = ''hi''" by code_simp
  moreover have "valid_utf8 ''/a.txt''" by code_simp
  ultimately show ?thesis
    by (subst nex_exchange_correct) (simp_all add: default_nex_config_def)
qed

lemma nex_listing_witness:
  "parse_listing (nex_handle id demo_site [''srv''] ''/'') =
     [ListText ''/'', ListText [], ListLink ''a.txt'' None, ListLink ''log/'' None]"
proof -
  have q: "nex_resolve id [''srv''] ''/'' = Some [''srv'']" by code_simp
  have s: "sort (map (\<lambda>(name, dir). name @ (if dir then ''/'' else [])) (entries_at demo_site [''srv'']))
      = [''a.txt'', ''log/'']" by code_simp
  show ?thesis
    by (subst nex_listing_read_back [OF q])
      (simp_all add: s, simp_all add: is_directory_path_def ends_with_def demo_site_def ascii_def ascii_ws_def between_def)
qed

lemma nex_spaced_name_witness:
  "parse_listing (nex_handle id demo_site [''srv''] ''/log/'') =
     [ListText ''/log/'', ListText [], ListLink ''my'' (Some ''day.txt'')]"
proof -
  have q: "nex_resolve id [''srv''] ''/log/'' = Some [''srv'', ''log'']" by code_simp
  show ?thesis
    by (subst nex_spaced_name_misread [OF q, where a = "''my''" and b = "''day.txt''"])
      (simp_all add: is_directory_path_def ends_with_def demo_site_def ascii_def ascii_ws_def between_def)
qed

end
