(* ===== verification/Spartan.thy ===== *)
theory Spartan
  imports File_Serving Accept_Loop
begin

text \<open>
  Spartan (\<open>crates/spartan-protocol/src\<close>): statuses and prompt lines, the client, one server
  connection and the static-directory handler. A connection is a byte stream; the URL parser
  (\<open>up\<close>), percent decoding (\<open>pct\<close>) and IDNA (\<open>idna\<close>) are parameters, and a handler is a
  function of the request (the peer's address is fixed per connection).
\<close>

section \<open>Statuses and prompt lines\<close>

datatype spartan_status = SpaSuccess | SpaRedirect | SpaClientError | SpaServerError

fun spartan_code :: "spartan_status \<Rightarrow> nat" where
  "spartan_code SpaSuccess = 2"
| "spartan_code SpaRedirect = 3"
| "spartan_code SpaClientError = 4"
| "spartan_code SpaServerError = 5"

definition spartan_from_code :: "nat \<Rightarrow> spartan_status option" where
  "spartan_from_code c =
     (if c = 2 then Some SpaSuccess else if c = 3 then Some SpaRedirect
      else if c = 4 then Some SpaClientError else if c = 5 then Some SpaServerError else None)"

definition parse_prompt_line :: "string \<Rightarrow> (string \<times> string option) option" where
  "parse_prompt_line line =
     (case strip_prefix ''=:'' line of None \<Rightarrow> None
      | Some rest0 \<Rightarrow>
          let rest = trim_start rest0 in
          if rest = [] then None
          else (case split_ws rest of
                  Some (target, label) \<Rightarrow> Some (target, if trim label \<noteq> [] then Some (trim label) else None)
                | None \<Rightarrow> Some (rest, None)))"

section \<open>The client\<close>

record spartan_reply =
  sp_status :: spartan_status
  sp_meta :: string
  sp_body :: string

definition redirect_path :: "spartan_reply \<Rightarrow> string option" where
  "redirect_path r = (if sp_status r = SpaRedirect then Some (sp_meta r) else None)"

text \<open>The errors; each reason of \<open>Protocol\<close> is a constructor.\<close>

datatype spartan_error =
    SpaBadUrl | SpaIo | SpaNoCrlf | SpaLineNotUtf8 | SpaBadStatusLine string | SpaUnknownDigit nat
  | SpaTooLarge nat

definition SPARTAN_PORT :: nat where "SPARTAN_PORT = 300"

definition spartan_parse_response :: "string \<Rightarrow> spartan_error + spartan_reply" where
  "spartan_parse_response raw =
     (case split_crlf raw of None \<Rightarrow> Inl SpaNoCrlf
      | Some (bytes, body) \<Rightarrow>
        (case from_utf8 bytes of None \<Rightarrow> Inl SpaLineNotUtf8
         | Some line \<Rightarrow>
           (case (case split_once (CHR '' '') line of
                    Some (code, meta) \<Rightarrow> (code, trim meta) | None \<Rightarrow> (line, [])) of
              (code_text, meta) \<Rightarrow>
                (case parse_uint u8_max code_text of None \<Rightarrow> Inl (SpaBadStatusLine line)
                 | Some code \<Rightarrow>
                   (case spartan_from_code code of None \<Rightarrow> Inl (SpaUnknownDigit code)
                    | Some st \<Rightarrow> Inr \<lparr>sp_status = st, sp_meta = meta,
                                      sp_body = if st = SpaSuccess then body else []\<rparr>)))))"

definition spartan_request_line :: "string \<Rightarrow> string \<Rightarrow> string \<Rightarrow> string" where
  "spartan_request_line host p data = host @ '' '' @ p @ '' '' @ show_nat (length data) @ CRLF"

definition spartan_request ::
    "nat \<Rightarrow> (string \<Rightarrow> string \<times> stream_end) \<Rightarrow> string \<Rightarrow> string \<Rightarrow> string \<Rightarrow> spartan_error + spartan_reply" where
  "spartan_request max_body answer host p data =
     (case read_within max_body (answer (spartan_request_line host p data @ data)) of
        Whole raw \<Rightarrow> spartan_parse_response raw
      | Exceeds \<Rightarrow> Inl (SpaTooLarge max_body)
      | ReadBroken \<Rightarrow> Inl SpaIo)"

definition request_host :: "(string \<Rightarrow> string) \<Rightarrow> (string \<Rightarrow> string option) \<Rightarrow> string \<Rightarrow> spartan_error + string" where
  "request_host pct idna raw =
     (if list_all ascii raw \<and> CHR ''%'' \<notin> set raw then Inr raw
      else case from_utf8 (pct raw) of None \<Rightarrow> Inl SpaBadUrl
        | Some decoded \<Rightarrow>
            if list_all ascii decoded then Inr decoded
            else (case idna decoded of None \<Rightarrow> Inl SpaBadUrl | Some h \<Rightarrow> Inr h))"

definition split_url ::
    "url_parser \<Rightarrow> (string \<Rightarrow> string) \<Rightarrow> (string \<Rightarrow> string option) \<Rightarrow> string \<Rightarrow>
     spartan_error + string \<times> nat \<times> string \<times> string option" where
  "split_url up pct idna input =
     (case up input of None \<Rightarrow> Inl SpaBadUrl
      | Some u \<Rightarrow>
          if url_scheme u \<noteq> ''spartan'' then Inl SpaBadUrl
          else (case url_host u of None \<Rightarrow> Inl SpaBadUrl
           | Some raw \<Rightarrow>
             (case request_host pct idna raw of Inl x \<Rightarrow> Inl x
              | Inr host \<Rightarrow>
                  Inr (host, case url_port u of Some n \<Rightarrow> n | None \<Rightarrow> SPARTAN_PORT,
                       if url_path u = [] then ''/'' else url_path u, map_option pct (url_query u)))))"

text \<open>\<open>dial host port\<close> is the connected peer, or \<open>None\<close> when connecting fails.\<close>

type_synonym dialler = "string \<Rightarrow> nat \<Rightarrow> (string \<Rightarrow> string \<times> stream_end) option"

definition spartan_dialled ::
    "dialler \<Rightarrow> nat \<Rightarrow> string \<Rightarrow> nat \<Rightarrow> string \<Rightarrow> string \<Rightarrow> spartan_error + spartan_reply" where
  "spartan_dialled dial max_body host port p data =
     (case dial host port of None \<Rightarrow> Inl SpaIo
      | Some answer \<Rightarrow> spartan_request max_body answer host p data)"

definition spartan_fetch ::
    "url_parser \<Rightarrow> (string \<Rightarrow> string) \<Rightarrow> (string \<Rightarrow> string option) \<Rightarrow> dialler \<Rightarrow> nat \<Rightarrow> string \<Rightarrow>
     spartan_error + spartan_reply" where
  "spartan_fetch up pct idna dial max_body input =
     (case split_url up pct idna input of Inl x \<Rightarrow> Inl x
      | Inr (host, port, p, query_data) \<Rightarrow>
          spartan_dialled dial max_body host port p (case query_data of Some d \<Rightarrow> d | None \<Rightarrow> []))"

definition spartan_submit ::
    "url_parser \<Rightarrow> (string \<Rightarrow> string) \<Rightarrow> (string \<Rightarrow> string option) \<Rightarrow> dialler \<Rightarrow> nat \<Rightarrow> string \<Rightarrow> string \<Rightarrow>
     spartan_error + spartan_reply" where
  "spartan_submit up pct idna dial max_body input data =
     (case split_url up pct idna input of Inl x \<Rightarrow> Inl x
      | Inr (host, port, p, _) \<Rightarrow> spartan_dialled dial max_body host port p data)"

section \<open>The server\<close>

record spartan_query =
  pq_host :: string
  pq_path :: string
  pq_data :: string

datatype spartan_answer =
    SendSuccess string string | SendRedirect string | SendClientError string | SendServerError string

fun answer_status :: "spartan_answer \<Rightarrow> spartan_status" where
  "answer_status (SendSuccess _ _) = SpaSuccess"
| "answer_status (SendRedirect _) = SpaRedirect"
| "answer_status (SendClientError _) = SpaClientError"
| "answer_status (SendServerError _) = SpaServerError"

fun answer_parts :: "spartan_answer \<Rightarrow> string \<times> string" where
  "answer_parts (SendSuccess mime body) = (mime, body)"
| "answer_parts (SendRedirect p) = (p, [])"
| "answer_parts (SendClientError message) = (message, [])"
| "answer_parts (SendServerError message) = (message, [])"

definition spartan_encode :: "spartan_answer \<Rightarrow> string" where
  "spartan_encode a =
     (case answer_parts a of (meta, body) \<Rightarrow>
        show_nat (spartan_code (answer_status a)) @ '' '' @ meta @ CRLF @ body)"

record spartan_config =
  sc_max_request_line :: nat
  sc_max_upload :: nat

definition default_spartan_config :: spartan_config where
  "default_spartan_config = \<lparr>sc_max_request_line = 4096, sc_max_upload = 4194304\<rparr>"

fun spartan_line :: "nat \<Rightarrow> string \<Rightarrow> string \<Rightarrow> stream_end \<Rightarrow> pushed \<times> string" where
  "spartan_line limit line [] e = (case e of Eof \<Rightarrow> Pushed line | Broken \<Rightarrow> PushFailed, [])"
| "spartan_line limit line (c # cs) e =
     (if ends_with CRLF (line @ [c]) then (Pushed (line @ [c]), cs)
      else if limit \<le> length (line @ [c]) then (PushOverlong, cs)
      else spartan_line limit (line @ [c]) cs e)"

definition host_refused :: "string \<Rightarrow> bool" where
  "host_refused host \<longleftrightarrow>
     (host = [] \<or> CHR '':'' \<in> set host) \<and> \<not> (starts_with ''['' host \<and> ends_with '']'' host)"

text \<open>\<open>None\<close> is an I/O error, \<open>Inl\<close> a violation that is answered with a message.\<close>

definition spartan_read_request ::
    "spartan_config \<Rightarrow> string \<Rightarrow> stream_end \<Rightarrow> (string + spartan_query) option" where
  "spartan_read_request cfg input e =
     (case spartan_line (sc_max_request_line cfg) [] input e of
        (PushFailed, _) \<Rightarrow> None
      | (PushOverlong, _) \<Rightarrow> Some (Inl ''Request line too long.'')
      | (Pushed bytes, rest) \<Rightarrow>
        (case from_utf8 bytes of None \<Rightarrow> Some (Inl ''Request line is not ASCII.'')
         | Some line \<Rightarrow>
           (case split_all (CHR '' '') (trim_newlines line) of
              [host, p, length_text] \<Rightarrow>
                if host_refused host then Some (Inl ''Malformed host.'')
                else if \<not> starts_with ''/'' p then Some (Inl ''Path must be absolute.'')
                else (case parse_uint u64_max length_text of
                        None \<Rightarrow> Some (Inl ''Malformed content-length.'')
                      | Some len \<Rightarrow>
                          if sc_max_upload cfg < len
                          then Some (Inl (''Data block exceeds this server's limit of '' @
                                          show_nat (sc_max_upload cfg) @ '' bytes.''))
                          else (case read_exact len rest e of
                                  (Inl _, _) \<Rightarrow> None
                                | (Inr data, _) \<Rightarrow>
                                    Some (Inr \<lparr>pq_host = host, pq_path = p, pq_data = data\<rparr>)))
            | _ \<Rightarrow> Some (Inl ''Malformed request line.''))))"

definition spartan_handle_connection ::
    "spartan_config \<Rightarrow> (spartan_query \<Rightarrow> spartan_answer) \<Rightarrow> string \<Rightarrow> stream_end \<Rightarrow> string option" where
  "spartan_handle_connection cfg handler input e =
     (case spartan_read_request cfg input e of
        None \<Rightarrow> None
      | Some (Inr q) \<Rightarrow> Some (spartan_encode (handler q))
      | Some (Inl message) \<Rightarrow> Some (spartan_encode (SendClientError message)))"

section \<open>The static-directory handler\<close>

definition spartan_resolve :: "(string \<Rightarrow> string) \<Rightarrow> path \<Rightarrow> string \<Rightarrow> path option" where
  "spartan_resolve pct root p =
     (case from_utf8 (pct p) of None \<Rightarrow> None
      | Some decoded \<Rightarrow>
        (case push_segments root (split_all (CHR ''/'') decoded) of None \<Rightarrow> None
         | Some resolved \<Rightarrow>
             Some (if ends_with ''/'' decoded \<or> decoded = [] then resolved @ [''index.gmi''] else resolved)))"

definition spartan_mime_for :: "path \<Rightarrow> string" where
  "spartan_mime_for p =
     (let ext = extension p in
      if ext = ''gmi'' \<or> ext = ''gemini'' then ''text/gemini''
      else if ext = ''txt'' \<or> ext = [] then ''text/plain''
      else if ext = ''md'' then ''text/markdown''
      else if ext = ''html'' \<or> ext = ''htm'' then ''text/html''
      else if ext = ''png'' then ''image/png''
      else if ext = ''jpg'' \<or> ext = ''jpeg'' then ''image/jpeg''
      else if ext = ''gif'' then ''image/gif''
      else if ext = ''mp3'' then ''audio/mpeg''
      else if ext = ''ogg'' then ''audio/ogg''
      else ''application/octet-stream'')"

definition spartan_handle :: "(string \<Rightarrow> string) \<Rightarrow> file_system \<Rightarrow> path \<Rightarrow> spartan_query \<Rightarrow> spartan_answer" where
  "spartan_handle pct fs root q =
     (if pq_data q \<noteq> [] then SendClientError ''This server does not accept uploads.''
      else case spartan_resolve pct root (pq_path q) of None \<Rightarrow> SendClientError ''Bad path.''
        | Some p \<Rightarrow>
            if is_dir_at fs p then SendRedirect (pq_path q @ ''/'')
            else (case read_at fs p of
                    FileBytes body \<Rightarrow> SendSuccess (spartan_mime_for p) body
                  | FileMissing \<Rightarrow> SendClientError (''File '' @ pq_path q @ '' not found.'')
                  | FileUnreadable \<Rightarrow> SendServerError ''Could not read file.''))"

section \<open>The request line\<close>

definition sendable :: "spartan_query \<Rightarrow> bool" where
  "sendable q \<longleftrightarrow>
     valid_utf8 (pq_host q) \<and> CHR '' '' \<notin> set (pq_host q) \<and> CR \<notin> set (pq_host q) \<and> \<not> host_refused (pq_host q) \<and>
     valid_utf8 (pq_path q) \<and> CHR '' '' \<notin> set (pq_path q) \<and> CR \<notin> set (pq_path q) \<and> starts_with ''/'' (pq_path q) \<and>
     length (pq_data q) \<le> u64_max"

definition query_line :: "spartan_query \<Rightarrow> string" where
  "query_line q = spartan_request_line (pq_host q) (pq_path q) (pq_data q)"

definition spartan_admits :: "spartan_config \<Rightarrow> spartan_query \<Rightarrow> bool" where
  "spartan_admits cfg q \<longleftrightarrow>
     sendable q \<and> length (query_line q) \<le> sc_max_request_line cfg \<and> length (pq_data q) \<le> sc_max_upload cfg"

lemma ends_crlf_snoc: "ends_with CRLF (l @ [c]) \<longleftrightarrow> c = LF \<and> l \<noteq> [] \<and> last l = CR"
  by (cases l rule: rev_cases) (auto simp: ends_with_iff)

lemma no_crlf_end: "CR \<notin> set acc \<Longrightarrow> \<not> ends_with CRLF (acc @ [c])"
  using last_in_set by (fastforce simp: ends_crlf_snoc)

lemma spartan_line_append:
  "CR \<notin> set l \<Longrightarrow> CR \<notin> set acc \<Longrightarrow> length acc + length l + 2 \<le> limit \<Longrightarrow>
     spartan_line limit acc (l @ CR # LF # rest) e = (Pushed (acc @ l @ CRLF), rest)"
proof (induction l arbitrary: acc)
  case Nil
  then show ?case using ends_crlf_snoc [of "acc @ [CR]" LF] by (simp add: ends_crlf_snoc)
next
  case (Cons c l)
  then have "\<not> ends_with CRLF (acc @ [c])" by (intro no_crlf_end) auto
  with Cons show ?case by simp
qed

lemma spartan_line_overlong:
  "CR \<notin> set l \<Longrightarrow> CR \<notin> set acc \<Longrightarrow> length acc < limit \<Longrightarrow> limit \<le> length acc + length l + 1 \<Longrightarrow>
     fst (spartan_line limit acc (l @ CR # rest) e) = PushOverlong"
proof (induction l arbitrary: acc)
  case Nil
  then show ?case by (auto simp: ends_crlf_snoc)
next
  case (Cons c l)
  then have "\<not> ends_with CRLF (acc @ [c])" by (intro no_crlf_end) auto
  with Cons show ?case by auto
qed

lemma split_request_line:
  assumes "CHR '' '' \<notin> set host" "CHR '' '' \<notin> set p"
  shows "split_all (CHR '' '') (trim_newlines (spartan_request_line host p data)) =
    [host, p, show_nat (length data)]"
proof -
  have "last (show_nat (length data)) \<in> set (show_nat (length data))" by simp
  then have "last (show_nat (length data)) \<noteq> CR" "last (show_nat (length data)) \<noteq> LF"
    using show_nat_notin(2,3) by metis+
  then have "trim_newlines (host @ '' '' @ p @ '' '' @ show_nat (length data)) =
      host @ '' '' @ p @ '' '' @ show_nat (length data)"
    by (intro trim_newlines_id) simp
  then have "trim_newlines (spartan_request_line host p data) = host @ '' '' @ p @ '' '' @ show_nat (length data)"
    using trim_newlines_crlf [of "host @ '' '' @ p @ '' '' @ show_nat (length data)"]
    by (simp add: spartan_request_line_def)
  with assms show ?thesis by simp
qed

text \<open>What the server makes of a well-formed request line that fits.\<close>

lemma spartan_read_sendable:
  assumes "sendable q" "length (query_line q) \<le> sc_max_request_line cfg"
  shows "spartan_read_request cfg (query_line q @ pq_data q) Eof =
    Some (if length (pq_data q) \<le> sc_max_upload cfg then Inr q
          else Inl (''Data block exceeds this server's limit of '' @ show_nat (sc_max_upload cfg) @ '' bytes.''))"
proof -
  let ?l = "pq_host q @ '' '' @ pq_path q @ '' '' @ show_nat (length (pq_data q))"
  have line: "query_line q = ?l @ CRLF" by (simp add: query_line_def spartan_request_line_def)
  have cr: "CR \<notin> set ?l" using assms(1) by (auto simp: sendable_def)
  have utf8: "valid_utf8 (query_line q)"
    using assms(1) unfolding line sendable_def by (intro valid_utf8_append) (auto simp: ascii_def)
  have "spartan_line (sc_max_request_line cfg) [] (query_line q @ pq_data q) Eof =
      (Pushed (query_line q), pq_data q)"
    using spartan_line_append [OF cr, of "[]" "sc_max_request_line cfg" "pq_data q" Eof] assms(2)
    by (simp add: line)
  with utf8 show ?thesis
    using assms(1) split_request_line [of "pq_host q" "pq_path q" "pq_data q"]
    by (simp add: spartan_read_request_def sendable_def query_line_def)
qed

lemma spartan_server_answers:
  assumes "spartan_admits cfg q"
  shows "spartan_handle_connection cfg handler (query_line q @ pq_data q) Eof = Some (spartan_encode (handler q))"
  using assms spartan_read_sendable [of q cfg] by (simp add: spartan_handle_connection_def spartan_admits_def)

interpretation spartan: one_shot "\<lambda>q. query_line q @ pq_data q" spartan_admits spartan_encode spartan_handle_connection
proof unfold_locales
  show "\<exists>a b. spartan_encode a \<noteq> spartan_encode b"
    by (rule exI [of _ "SendRedirect []"], rule exI [of _ "SendClientError []"]) (simp add: spartan_encode_def)
qed (rule spartan_server_answers)

interpretation spartan_files: directory_handler "spartan_resolve pct" pq_path "spartan_handle pct" "''index.gmi''" for pct
proof (unfold_locales, goal_cases)
  case (1 root w p)
  then obtain d r where d: "push_segments root (split_all (CHR ''/'') d) = Some r" "p = r \<or> p = r @ [''index.gmi'']"
    by (auto simp: spartan_resolve_def split: option.splits if_splits)
  then have "below root r" using push_segments_below split_slash_no_slash by blast
  with d(2) show ?case by (auto simp: safe_segment_def)
next
  case 2
  show ?case by (simp add: safe_segment_def)
next
  case (3 root q fs fs')
  show ?case
  proof (cases "spartan_resolve pct root (pq_path q)")
    case (Some p)
    with 3 have "same_at fs fs' p" by blast
    then show ?thesis by (simp add: Some spartan_handle_def same_atD)
  qed (simp add: spartan_handle_def)
qed

section \<open>The response\<close>

lemma spartan_from_code_code [simp]: "spartan_from_code (spartan_code st) = Some st"
  by (cases st) (simp_all add: spartan_from_code_def)

lemma spartan_code_text: "parse_uint u8_max (show_nat (spartan_code st)) = Some (spartan_code st)"
  by (cases st) (simp_all add: parse_show_nat)

lemma spartan_parse_encoded:
  assumes "valid_utf8 (fst (answer_parts a))" "split_crlf (fst (answer_parts a)) = None"
  shows "spartan_parse_response (spartan_encode a) =
    Inr \<lparr>sp_status = answer_status a, sp_meta = trim (fst (answer_parts a)), sp_body = snd (answer_parts a)\<rparr>"
proof -
  obtain meta body where m: "answer_parts a = (meta, body)" by (cases "answer_parts a")
  let ?h = "show_nat (spartan_code (answer_status a)) @ CHR '' '' # meta"
  have "split_crlf ?h = None"
    using assms(2) split_crlf_prefix [of "show_nat (spartan_code (answer_status a))" "CHR '' '' # meta"]
    by (simp add: m)
  then have "split_crlf (?h @ CR # LF # body) = Some (?h, body)" by (rule split_crlf_append)
  moreover have "valid_utf8 ?h"
    using assms(1) by (intro valid_utf8_append) (simp_all add: m ascii_def)
  moreover have "spartan_encode a = ?h @ CR # LF # body" by (simp add: spartan_encode_def m)
  moreover have "answer_status a \<noteq> SpaSuccess \<Longrightarrow> body = []" using m by (cases a) auto
  ultimately show ?thesis
    by (simp add: spartan_parse_response_def m spartan_code_text)
qed

section \<open>Properties\<close>

definition limit_answer :: "spartan_config \<Rightarrow> spartan_answer" where
  "limit_answer cfg =
     SendClientError (''Data block exceeds this server's limit of '' @ show_nat (sc_max_upload cfg) @ '' bytes.'')"

lemma limit_answer_line:
  "valid_utf8 (fst (answer_parts (limit_answer cfg)))" "split_crlf (fst (answer_parts (limit_answer cfg))) = None"
proof -
  let ?a = "''Data block exceeds this server's limit of ''"
  have "valid_utf8 ?a" "valid_utf8 '' bytes.''" by code_simp+
  then show "valid_utf8 (fst (answer_parts (limit_answer cfg)))"
    unfolding limit_answer_def answer_parts.simps fst_conv by (intro valid_utf8_append valid_utf8_show_nat)
  show "split_crlf (fst (answer_parts (limit_answer cfg))) = None"
    by (rule split_crlf_no_CR) (simp add: limit_answer_def)
qed

text \<open>
  (C13) Spartan from end to end: for a well-formed request that fits the server's line limit, the
  client receives the status, the trimmed META and, on success, the body of the handler's answer to
  exactly the host, path and data block it sent; an upload beyond the limit is answered with the
  client error instead, without running the handler; the client's own cap is the only other outcome.
\<close>

theorem spartan_exchange_correct:
  fixes q :: spartan_query
  assumes "sendable q" "length (query_line q) \<le> sc_max_request_line cfg"
    and "valid_utf8 (fst (answer_parts (handler q)))" "split_crlf (fst (answer_parts (handler q))) = None"
  shows "spartan_request max_body (as_peer (spartan_handle_connection cfg handler)) (pq_host q) (pq_path q) (pq_data q) =
    (let a = (if length (pq_data q) \<le> sc_max_upload cfg then handler q else limit_answer cfg) in
     if length (spartan_encode a) \<le> max_body
     then Inr \<lparr>sp_status = answer_status a, sp_meta = trim (fst (answer_parts a)), sp_body = snd (answer_parts a)\<rparr>
     else Inl (SpaTooLarge max_body))"
proof -
  let ?a = "if length (pq_data q) \<le> sc_max_upload cfg then handler q else limit_answer cfg"
  have "spartan_handle_connection cfg handler (query_line q @ pq_data q) Eof = Some (spartan_encode ?a)"
    using spartan_read_sendable [OF assms(1,2)]
    by (simp add: spartan_handle_connection_def limit_answer_def)
  then have "spartan_request max_body (as_peer (spartan_handle_connection cfg handler)) (pq_host q) (pq_path q) (pq_data q) =
      (case read_within max_body (spartan_encode ?a, Eof) of
        Whole raw \<Rightarrow> spartan_parse_response raw
      | Exceeds \<Rightarrow> Inl (SpaTooLarge max_body) | ReadBroken \<Rightarrow> Inl SpaIo)"
    by (simp add: spartan_request_def as_peer_def query_line_def)
  moreover have "spartan_parse_response (spartan_encode ?a) =
      Inr \<lparr>sp_status = answer_status ?a, sp_meta = trim (fst (answer_parts ?a)), sp_body = snd (answer_parts ?a)\<rparr>"
    using assms(3,4) limit_answer_line by (intro spartan_parse_encoded) simp_all
  ultimately show ?thesis by (simp add: read_within_def Let_def)
qed

definition demo_capsule :: file_system where
  "demo_capsule = \<lparr>is_dir_at = (\<lambda>p. p = [''srv'']),
     read_at = (\<lambda>p. if p = [''srv'', ''a.txt''] then FileBytes ''hi'' else FileMissing), entries_at = (\<lambda>p. [])\<rparr>"

lemma spartan_exchange_witness:
  "spartan_request 100 (as_peer (spartan_handle_connection default_spartan_config (spartan_handle id demo_capsule [''srv''])))
     ''example.org'' ''/a.txt'' [] = Inr \<lparr>sp_status = SpaSuccess, sp_meta = ''text/plain'', sp_body = ''hi''\<rparr>"
proof -
  let ?q = "\<lparr>pq_host = ''example.org'', pq_path = ''/a.txt'', pq_data = []\<rparr>"
  have h: "spartan_handle id demo_capsule [''srv''] ?q = SendSuccess ''text/plain'' ''hi''" by code_simp
  have "valid_utf8 ''example.org''" "valid_utf8 ''/a.txt''" "valid_utf8 ''text/plain''" by code_simp+
  then show ?thesis
    using spartan_exchange_correct [of ?q default_spartan_config "spartan_handle id demo_capsule [''srv'']" 100]
    unfolding h
    by (simp add: sendable_def host_refused_def starts_with_def query_line_def spartan_request_line_def
        default_spartan_config_def show_nat.simps spartan_encode_def trim_id ws_head_def ws_last_def byte_at_def
        ascii_ws_def ws2_def ws3_def between_def)
qed

end
