(* ===== verification/Gopher_Menu.thy ===== *)
theory Gopher_Menu
  imports Rust_Words Line_Server
begin

text \<open>
  Gopher's documents: RFC 1436 menus (\<open>crates/gopher-protocol/src/menu.rs\<close>) and what Gopher+ adds
  (\<open>plus.rs\<close>): response headers, request tokens, attribute blocks, views and ASK forms.
\<close>

abbreviation TAB :: char where "TAB \<equiv> CHR 0x09"

section \<open>Menus\<close>

text \<open>A character of the source is its UTF-8 bytes: \<open>other\<close> item types are kept as such.\<close>

datatype gopher_kind =
    GkInfo | GkError | GkText | GkSubmenu | GkSearch | GkBinary | GkImage | GkSound | GkTelnet | GkUrl
  | GkOther string

datatype gopher_plus = PlusSupported | PlusForm

definition plus_from_field :: "string \<Rightarrow> gopher_plus option" where
  "plus_from_field f =
     (if trim f = ''+'' then Some PlusSupported else if trim f = ''?'' then Some PlusForm else None)"

record gopher_item =
  gi_kind :: gopher_kind
  gi_display :: string
  gi_url :: "string option"
  gi_plus :: "gopher_plus option"

definition first_char_len :: "string \<Rightarrow> nat" where
  "first_char_len s = (case utf8_step s of Inr n \<Rightarrow> n | Inl n \<Rightarrow> n)"

definition kind_of :: "string \<Rightarrow> gopher_kind" where
  "kind_of t =
     (if t = ''0'' then GkText else if t = ''1'' then GkSubmenu else if t = ''7'' then GkSearch
      else if t = ''9'' then GkBinary else if t = ''g'' \<or> t = ''I'' then GkImage
      else if t = ''s'' then GkSound else if t = ''T'' then GkTelnet else GkOther t)"

definition synthesise_gopher_url :: "string \<Rightarrow> string \<Rightarrow> string \<Rightarrow> string \<Rightarrow> string" where
  "synthesise_gopher_url t host port selector =
     ''gopher://'' @ host @ (if port = [] \<or> port = ''70'' then [] else CHR '':'' # port) @ ''/'' @ t @ selector"

definition part_or :: "string list \<Rightarrow> nat \<Rightarrow> string \<Rightarrow> string" where
  "part_or ps i d = (if i < length ps then ps ! i else d)"

definition menu_line :: "string \<Rightarrow> gopher_item option" where
  "menu_line line =
     (if line = [] then None
      else let t = take (first_char_len line) line;
               parts = splitn 5 TAB (drop (first_char_len line) line);
               display = part_or parts 0 []; selector = part_or parts 1 []; host = part_or parts 2 [];
               port = part_or parts 3 ''70'';
               plus = (if 4 < length parts then plus_from_field (parts ! 4) else None)
      in if t = ''i'' then Some \<lparr>gi_kind = GkInfo, gi_display = display, gi_url = None, gi_plus = plus\<rparr>
         else if t = ''3'' then Some \<lparr>gi_kind = GkError, gi_display = display, gi_url = None, gi_plus = plus\<rparr>
         else if t = ''h'' then
           (let u = trim (case strip_prefix ''URL:'' selector of Some r \<Rightarrow> r | None \<Rightarrow> selector) in
            if u = [] then None
            else Some \<lparr>gi_kind = GkUrl, gi_display = display, gi_url = Some u, gi_plus = plus\<rparr>)
         else if host = [] then None
         else Some \<lparr>gi_kind = kind_of t, gi_display = display,
                    gi_url = Some (synthesise_gopher_url t host port selector), gi_plus = plus\<rparr>)"

fun menu_lines :: "string list \<Rightarrow> gopher_item list" where
  "menu_lines [] = []"
| "menu_lines (line # ls) =
     (if line = ''.'' then []
      else if line = [] then menu_lines ls
      else case menu_line line of Some i \<Rightarrow> i # menu_lines ls | None \<Rightarrow> menu_lines ls)"

definition parse_menu :: "string \<Rightarrow> gopher_item list" where
  "parse_menu body = menu_lines (str_lines body)"

section \<open>Gopher+ headers and requests\<close>

datatype plus_header = PlusLength nat | PeriodTerminated | UntilClose | PlusFailed

definition plus_parse_header :: "string \<Rightarrow> string + plus_header" where
  "plus_parse_header line0 =
     (let line = trim_newlines line0 in
      case line of
        [] \<Rightarrow> Inl line
      | sign # rest \<Rightarrow>
          let token = (case split_whitespace rest of [] \<Rightarrow> [] | w # _ \<Rightarrow> w) in
          if sign = CHR ''-'' then Inr PlusFailed
          else if sign = CHR ''+'' then
            (if token = ''-1'' then Inr PeriodTerminated
             else if token = ''-2'' then Inr UntilClose
             else case parse_uint u64_max token of Some n \<Rightarrow> Inr (PlusLength n) | None \<Rightarrow> Inl line)
          else Inl line)"

datatype plus_request = PlusItem "string option" | PlusAttributes | PlusDirectory

fun plus_token :: "plus_request \<Rightarrow> string" where
  "plus_token (PlusItem None) = ''+''"
| "plus_token (PlusItem (Some view)) = CHR ''+'' # view"
| "plus_token PlusAttributes = ''!''"
| "plus_token PlusDirectory = ''$''"

definition plus_from_token :: "string \<Rightarrow> plus_request option" where
  "plus_from_token t0 =
     (case trim_newlines t0 of
        [] \<Rightarrow> None
      | c # view \<Rightarrow>
          if c = CHR ''+'' then Some (PlusItem (if view \<noteq> [] then Some view else None))
          else if c = CHR ''!'' then Some PlusAttributes
          else if c = CHR ''$'' then Some PlusDirectory else None)"

section \<open>Attribute blocks\<close>

record attribute_block =
  ab_name :: string
  ab_head :: "string option"
  ab_lines :: "string list"

definition block_pairs :: "attribute_block \<Rightarrow> (string \<times> string) list" where
  "block_pairs b =
     List.map_filter (\<lambda>line. map_option (\<lambda>(k, v). (trim k, trim v)) (split_once (CHR '':'') line)) (ab_lines b)"

text \<open>One line of the loop over an attribute response.\<close>

definition attribute_line :: "attribute_block list \<Rightarrow> string \<Rightarrow> attribute_block list" where
  "attribute_line blocks line =
     (case strip_prefix ''+'' line of
        Some rest \<Rightarrow>
          let (name, head) = (case split_once (CHR '':'') rest of Some (n, h) \<Rightarrow> (n, trim h) | None \<Rightarrow> (rest, []))
          in blocks @ [\<lparr>ab_name = trim name, ab_head = (if head \<noteq> [] then Some head else None), ab_lines = []\<rparr>]
      | None \<Rightarrow>
          (case strip_prefix '' '' line of
             Some content \<Rightarrow>
               (if blocks = [] then blocks
                else butlast blocks @ [(last blocks)\<lparr>ab_lines := ab_lines (last blocks) @ [content]\<rparr>])
           | None \<Rightarrow> blocks))"

definition parse_attributes :: "string \<Rightarrow> attribute_block list" where
  "parse_attributes t = foldl attribute_line [] (takeWhile (\<lambda>l. l \<noteq> ''.'') (str_lines t))"

record view =
  vw_mime :: string
  vw_language :: "string option"
  vw_size :: "string option"

definition view_of :: "string \<Rightarrow> view option" where
  "view_of line =
     (let (label, size) = (case split_once (CHR '':'') line of
                             Some (l, s) \<Rightarrow> (trim l, trim s) | None \<Rightarrow> (trim line, [])) in
      if label = [] then None
      else let (mime, language) = (case split_ws label of
                                     Some (m, l) \<Rightarrow> (trim m, Some (trim l)) | None \<Rightarrow> (label, None))
           in Some \<lparr>vw_mime = mime, vw_language = language, vw_size = (if size \<noteq> [] then Some size else None)\<rparr>)"

definition parse_views :: "attribute_block \<Rightarrow> view list" where
  "parse_views b = List.map_filter view_of (ab_lines b)"

section \<open>ASK forms\<close>

datatype ask_directive =
    Ask string "string option" | AskPassword string "string option" | AskLong string "string option"
  | AskFile string "string option" | AskSelect string "string list" | AskChoose string "string list"
  | AskChooseFile string | AskNote string | AskUnknown string string

definition parse_ask_line :: "string \<Rightarrow> ask_directive" where
  "parse_ask_line line =
     (let (directive, rest) = (case split_once (CHR '':'') line of
                                 Some (d, r) \<Rightarrow> (trim d, trim_start r) | None \<Rightarrow> (trim line, []));
          fields = split_all TAB rest;
          prompt = trim (hd fields);
          tail = filter (\<lambda>f. f \<noteq> []) (map trim (tl fields));
          default = (case tail of [] \<Rightarrow> None | d # _ \<Rightarrow> Some d)
      in if directive = ''Ask'' then Ask prompt default
         else if directive = ''AskP'' then AskPassword prompt default
         else if directive = ''AskL'' then AskLong prompt default
         else if directive = ''AskF'' then AskFile prompt default
         else if directive = ''Select'' then AskSelect prompt tail
         else if directive = ''Choose'' then AskChoose prompt tail
         else if directive = ''ChooseF'' then AskChooseFile prompt
         else if directive = ''Note'' then AskNote (trim rest)
         else AskUnknown directive rest)"

definition parse_ask :: "attribute_block \<Rightarrow> ask_directive list" where
  "parse_ask b = map parse_ask_line (ab_lines b)"

section \<open>Writing attribute blocks\<close>

definition block_lines :: "attribute_block \<Rightarrow> string list" where
  "block_lines b =
     (CHR ''+'' # ab_name b @ CHR '':'' # (case ab_head b of Some h \<Rightarrow> CHR '' '' # h | None \<Rightarrow> []))
     # map (Cons (CHR '' '')) (ab_lines b)"

definition block_ok :: "attribute_block \<Rightarrow> bool" where
  "block_ok b \<longleftrightarrow>
     trim (ab_name b) = ab_name b \<and> CHR '':'' \<notin> set (ab_name b) \<and> LF \<notin> set (ab_name b) \<and>
     (case ab_head b of None \<Rightarrow> True | Some h \<Rightarrow> h \<noteq> [] \<and> trim h = h \<and> LF \<notin> set h) \<and>
     (\<forall>l \<in> set (ab_lines b). line_safe l)"

lemma attribute_first_line:
  assumes "block_ok b"
  shows "attribute_line bs (hd (block_lines b)) = bs @ [b\<lparr>ab_lines := []\<rparr>]"
  using assms by (cases b) (auto simp: attribute_line_def block_lines_def block_ok_def trim_ws_Cons split: option.split)

lemma attribute_more_lines:
  "foldl attribute_line (bs @ [b]) (map (Cons (CHR '' '')) ls) = bs @ [b\<lparr>ab_lines := ab_lines b @ ls\<rparr>]"
  by (induction ls arbitrary: b) (simp_all add: attribute_line_def)

lemma attribute_block_lines: "block_ok b \<Longrightarrow> foldl attribute_line bs (block_lines b) = bs @ [b]"
  using attribute_first_line [of b bs] attribute_more_lines [of bs "b\<lparr>ab_lines := []\<rparr>" "ab_lines b"]
  by (cases b) (simp add: block_lines_def)

lemma attribute_blocks_lines:
  "\<forall>b \<in> set bs. block_ok b \<Longrightarrow> foldl attribute_line acc (concat (map block_lines bs)) = acc @ bs"
  by (induction bs arbitrary: acc) (simp_all add: attribute_block_lines)

definition blocks_text :: "attribute_block list \<Rightarrow> string" where
  "blocks_text bs = concat (map (\<lambda>l. l @ [LF]) (concat (map block_lines bs)))"

lemma block_lines_safe: "block_ok b \<Longrightarrow> l \<in> set (block_lines b) \<Longrightarrow> line_safe l \<and> l \<noteq> ''.''"
  using trimmed_ends(2) [of "the (ab_head b)"]
  by (auto simp: block_lines_def block_ok_def line_safe_def split: option.splits if_splits)

text \<open>
  Gopher+ attribute blocks are read back: for blocks with a trimmed name without a colon, an
  optional trimmed head and any content lines, \<open>parse_attributes\<close> of their text, ended or not by a
  line with a lone period, is exactly the list of blocks.
\<close>

theorem gopher_attributes_roundtrip:
  assumes "\<forall>b \<in> set bs. block_ok b"
  shows "parse_attributes (blocks_text bs) = bs \<and> parse_attributes (blocks_text bs @ ''.'' @ LF # junk) = bs"
proof -
  let ?ls = "concat (map block_lines bs)"
  have safe: "\<forall>l \<in> set ?ls. line_safe l" "\<forall>l \<in> set ?ls. l \<noteq> ''.''"
    using assms block_lines_safe by fastforce+
  have whole: "str_lines (blocks_text bs) = ?ls"
    using str_lines_all [OF safe(1), of "[]"] by (simp add: blocks_text_def)
  have ended: "str_lines (blocks_text bs @ ''.'' @ LF # junk) = ?ls @ ''.'' # str_lines junk"
    using str_lines_all [OF safe(1), of "''.'' @ LF # junk"] str_lines_lf [of "''.''" junk]
    by (simp add: blocks_text_def strip_cr_id)
  have all_kept: "takeWhile (\<lambda>l. l \<noteq> ''.'') ?ls = ?ls" using safe(2) by (simp only: takeWhile_eq_all_conv)
  have up_to_dot: "takeWhile (\<lambda>l. l \<noteq> ''.'') (?ls @ ''.'' # str_lines junk) = ?ls"
    using takeWhile_append2 [of ?ls "\<lambda>l. l \<noteq> ''.''" "''.'' # str_lines junk"] safe(2) by simp
  show ?thesis
    unfolding parse_attributes_def whole ended all_kept up_to_dot
    using attribute_blocks_lines [OF assms, of "[]"] by simp
qed

lemma gopher_attributes_witness:
  "parse_attributes (''+ADMIN: x'' @ [LF] @ '' Admin: y'' @ [LF] @ ''.'' @ [LF]) =
     [\<lparr>ab_name = ''ADMIN'', ab_head = Some ''x'', ab_lines = [''Admin: y'']\<rparr>]"
proof -
  have "trim ''ADMIN'' = ''ADMIN''" "trim ''x'' = ''x''"
    by (intro visible_trim; simp add: ascii_def ascii_ws_def between_def)+
  then show ?thesis
    using gopher_attributes_roundtrip [of "[\<lparr>ab_name = ''ADMIN'', ab_head = Some ''x'', ab_lines = [''Admin: y'']\<rparr>]" "[]"]
    by (simp add: block_ok_def block_lines_def blocks_text_def line_safe_def)
qed

end
