(* ===== verification/Gopher_Net.thy ===== *)
theory Gopher_Net
  imports Gopher_Menu Url_Iface
begin

text \<open>
  The gopher client and one connection of the gopher server (\<open>crates/gopher-protocol/src/client.rs\<close>,
  \<open>server.rs\<close>), plain and Gopher+. The URL parser, the TCP dialler and the TLS connector of
  \<open>gophers://\<close> (absent when the feature is off) are parameters.
\<close>

section \<open>The client\<close>

definition GOPHER_PORT :: nat where "GOPHER_PORT = 70"

datatype gopher_error =
    GopherBadUrl | GopherConnect | GopherIo | GopherBadPlusHeader string | GopherPlusError string

record gopher_response =
  gr_mime :: string
  gr_body :: string

type_synonym peer = "string \<Rightarrow> string \<times> stream_end"

definition gopher_split_path :: "url \<Rightarrow> string \<times> string" where
  "gopher_split_path u =
     (let path = url_path u;
          trimmed = (case strip_prefix ''/'' path of Some r \<Rightarrow> r | None \<Rightarrow> path);
          n = first_char_len trimmed
      in if trimmed = [] then (''1'', []) else (take n trimmed, drop n trimmed))"

definition mime_for_item_type :: "string \<Rightarrow> string" where
  "mime_for_item_type t =
     (if t = ''0'' then ''text/plain''
      else if t = ''1'' \<or> t = ''7'' then ''application/gopher-menu''
      else if t = ''h'' then ''text/html''
      else if t = ''g'' then ''image/gif''
      else if t = ''I'' \<or> t = '':'' then ''image/*''
      else if t = ''s'' \<or> t = ''<'' then ''audio/*''
      else ''application/octet-stream'')"

definition gopher_send_and_read :: "peer \<Rightarrow> string \<Rightarrow> gopher_error + string" where
  "gopher_send_and_read stream request =
     (case stream request of (body, Eof) \<Rightarrow> Inr body | (_, Broken) \<Rightarrow> Inl GopherIo)"

text \<open>
  The stream both transactions run over: the TLS connector for \<open>gophers\<close>, TCP otherwise.
\<close>

definition gopher_connect ::
    "(string \<Rightarrow> nat \<Rightarrow> peer option) option \<Rightarrow> (string \<Rightarrow> nat \<Rightarrow> peer option) \<Rightarrow> url \<Rightarrow> string \<Rightarrow> nat \<Rightarrow> gopher_error + peer" where
  "gopher_connect tls tcp u host port =
     (if url_scheme u = ''gophers'' then
        (case tls of None \<Rightarrow> Inl GopherBadUrl
         | Some connect \<Rightarrow> (case connect host port of None \<Rightarrow> Inl GopherConnect | Some s \<Rightarrow> Inr s))
      else case tcp host port of None \<Rightarrow> Inl GopherConnect | Some s \<Rightarrow> Inr s)"

definition gopher_exchange ::
    "(string \<Rightarrow> nat \<Rightarrow> peer option) option \<Rightarrow> (string \<Rightarrow> nat \<Rightarrow> peer option) \<Rightarrow> url \<Rightarrow> string \<Rightarrow> nat \<Rightarrow> string
     \<Rightarrow> gopher_error + string" where
  "gopher_exchange tls tcp u host port request =
     (case gopher_connect tls tcp u host port of Inl e \<Rightarrow> Inl e | Inr s \<Rightarrow> gopher_send_and_read s request)"

definition gopher_fetch ::
    "url_parser \<Rightarrow> (string \<Rightarrow> nat \<Rightarrow> peer option) option \<Rightarrow> (string \<Rightarrow> nat \<Rightarrow> peer option) \<Rightarrow> string
     \<Rightarrow> gopher_error + gopher_response" where
  "gopher_fetch up tls tcp url =
     (case up url of None \<Rightarrow> Inl GopherBadUrl
      | Some u \<Rightarrow>
        (case url_host u of None \<Rightarrow> Inl GopherBadUrl
         | Some host \<Rightarrow>
             let port = (case url_port u of Some p \<Rightarrow> p | None \<Rightarrow> GOPHER_PORT);
                 (item_type, selector) = gopher_split_path u;
                 request = selector @ (case url_query u of Some q \<Rightarrow> TAB # q | None \<Rightarrow> []) @ CRLF
             in case gopher_exchange tls tcp u host port request of
                  Inl e \<Rightarrow> Inl e
                | Inr body \<Rightarrow> Inr \<lparr>gr_mime = mime_for_item_type item_type, gr_body = body\<rparr>))"

section \<open>Gopher+ transactions\<close>

record plus_reply =
  pr_header :: plus_header
  pr_body :: string

fun strip_terminators :: "string list \<Rightarrow> string \<Rightarrow> string" where
  "strip_terminators [] body = body"
| "strip_terminators (t # ts) body =
     (if ends_with t body
      then take (length body - length t + (if starts_with CRLF t then 2 else 1)) body
      else strip_terminators ts body)"

definition strip_period_terminator :: "string \<Rightarrow> string" where
  "strip_period_terminator body =
     strip_terminators [CRLF @ ''.'' @ CRLF, [LF] @ ''.'' @ [LF], CRLF @ ''.'', [LF] @ ''.''] body"

definition plus_over :: "peer \<Rightarrow> string \<Rightarrow> gopher_error + plus_header \<times> string" where
  "plus_over stream request =
     (let (raw, e) = stream request in
      case read_text_line raw e of
        (Inl _, _) \<Rightarrow> Inl GopherIo
      | (Inr header_line, rest) \<Rightarrow>
          if header_line = [] then Inl (GopherBadPlusHeader ''the server closed without a header'')
          else case plus_parse_header header_line of
            Inl bad \<Rightarrow> Inl (GopherBadPlusHeader bad)
          | Inr header \<Rightarrow>
              (case (case header of
                       PlusLength count \<Rightarrow> read_capped count rest e
                     | _ \<Rightarrow> (case e of Eof \<Rightarrow> Inr rest | Broken \<Rightarrow> Inl ReadError)) of
                 Inl _ \<Rightarrow> Inl GopherIo
               | Inr body \<Rightarrow>
                   Inr (header, if header = PeriodTerminated \<or> header = PlusFailed
                                then strip_period_terminator body else body)))"

definition gopher_fetch_plus ::
    "url_parser \<Rightarrow> (string \<Rightarrow> nat \<Rightarrow> peer option) option \<Rightarrow> (string \<Rightarrow> nat \<Rightarrow> peer option) \<Rightarrow> string \<Rightarrow> plus_request
     \<Rightarrow> gopher_error + plus_reply" where
  "gopher_fetch_plus up tls tcp url request =
     (case up url of None \<Rightarrow> Inl GopherBadUrl
      | Some u \<Rightarrow>
        (case url_host u of None \<Rightarrow> Inl GopherBadUrl
         | Some host \<Rightarrow>
             let port = (case url_port u of Some p \<Rightarrow> p | None \<Rightarrow> GOPHER_PORT);
                 (_, selector) = gopher_split_path u;
                 search = (case url_query u of Some q \<Rightarrow> q | None \<Rightarrow> []);
                 line = selector @ TAB # search @ TAB # plus_token request @ CRLF
             in case gopher_connect tls tcp u host port of
                  Inl e \<Rightarrow> Inl e
                | Inr s \<Rightarrow>
                    (case plus_over s line of
                       Inl e \<Rightarrow> Inl e
                     | Inr (header, body) \<Rightarrow>
                         if header = PlusFailed then Inl (GopherPlusError (trim (from_utf8_lossy body)))
                         else Inr \<lparr>pr_header = header, pr_body = body\<rparr>)))"

definition fetch_attributes ::
    "url_parser \<Rightarrow> (string \<Rightarrow> nat \<Rightarrow> peer option) option \<Rightarrow> (string \<Rightarrow> nat \<Rightarrow> peer option) \<Rightarrow> string
     \<Rightarrow> gopher_error + attribute_block list" where
  "fetch_attributes up tls tcp url =
     (case gopher_fetch_plus up tls tcp url PlusAttributes of
        Inl e \<Rightarrow> Inl e | Inr reply \<Rightarrow> Inr (parse_attributes (from_utf8_lossy (pr_body reply))))"

definition fetch_directory_attributes ::
    "url_parser \<Rightarrow> (string \<Rightarrow> nat \<Rightarrow> peer option) option \<Rightarrow> (string \<Rightarrow> nat \<Rightarrow> peer option) \<Rightarrow> string
     \<Rightarrow> gopher_error + attribute_block list" where
  "fetch_directory_attributes up tls tcp url =
     (case gopher_fetch_plus up tls tcp url PlusDirectory of
        Inl e \<Rightarrow> Inl e | Inr reply \<Rightarrow> Inr (parse_attributes (from_utf8_lossy (pr_body reply))))"

section \<open>The server\<close>

text \<open>The peer's address, which the request also carries, is the handler's to know.\<close>

record gopher_request =
  gq_selector :: string
  gq_search :: "string option"
  gq_plus :: "plus_request option"

record gopher_config =
  gp_max_request_line :: nat

definition default_gopher_config :: gopher_config where
  "default_gopher_config = \<lparr>gp_max_request_line = 2048\<rparr>"

definition gopher_parse_request :: "string \<Rightarrow> string \<times> string option \<times> plus_request option" where
  "gopher_parse_request line =
     (let fields = split_all TAB (trim_newlines (from_utf8_lossy line)) in
      (hd fields,
       if 1 < length fields \<and> fields ! 1 \<noteq> [] then Some (fields ! 1) else None,
       if 2 < length fields then plus_from_token (fields ! 2) else None))"

definition gopher_handle_connection ::
    "gopher_config \<Rightarrow> (gopher_request \<Rightarrow> string) \<Rightarrow> string \<Rightarrow> stream_end \<Rightarrow> string option" where
  "gopher_handle_connection cfg handler input e =
     (case closing_line (gp_max_request_line cfg) [] input e of
        PushFailed \<Rightarrow> None
      | PushOverlong \<Rightarrow> Some []
      | Pushed line \<Rightarrow>
          let (selector, search, plus) = gopher_parse_request line;
              body = handler \<lparr>gq_selector = selector, gq_search = search, gq_plus = plus\<rparr>
          in Some ((if plus \<noteq> None then CHR ''+'' # show_nat (length body) @ CRLF else []) @ body))"

section \<open>The request line\<close>

text \<open>Text that can be a field of a request line: the URL crate removes tabs and line ends from URLs.\<close>

definition field_text :: "string \<Rightarrow> bool" where
  "field_text s \<longleftrightarrow> valid_utf8 s \<and> TAB \<notin> set s \<and> CR \<notin> set s \<and> LF \<notin> set s"

definition form_ok :: "plus_request \<Rightarrow> bool" where
  "form_ok r \<longleftrightarrow> field_text (plus_token r) \<and> r \<noteq> PlusItem (Some [])"

definition given :: "string option \<Rightarrow> string option" where
  "given s = (if s = Some [] then None else s)"

definition plain_line :: "string \<Rightarrow> string option \<Rightarrow> string" where
  "plain_line selector query = selector @ (case query of Some q \<Rightarrow> TAB # q | None \<Rightarrow> [])"

definition plus_line :: "string \<Rightarrow> string option \<Rightarrow> plus_request \<Rightarrow> string" where
  "plus_line selector query r = selector @ TAB # (case query of Some q \<Rightarrow> q | None \<Rightarrow> []) @ TAB # plus_token r"

lemma field_text_tab: "field_text a \<Longrightarrow> valid_utf8 b \<Longrightarrow> valid_utf8 (a @ TAB # b)"
  by (simp add: field_text_def valid_utf8_append ascii_def)

lemma trim_newlines_no_eol: "CR \<notin> set l \<Longrightarrow> LF \<notin> set l \<Longrightarrow> trim_newlines l = l"
  by (intro trim_newlines_id) (metis last_in_set)

lemma lossy_line: "valid_utf8 l \<Longrightarrow> from_utf8_lossy (l @ [CR]) = l @ [CR]"
  by (intro from_utf8_lossy_valid valid_utf8_append) (simp_all add: ascii_def)

lemma plus_token_read: "form_ok r \<Longrightarrow> plus_from_token (plus_token r) = Some r"
  using trim_newlines_no_eol [of "plus_token r"]
  by (cases r rule: plus_token.cases) (auto simp: form_ok_def field_text_def plus_from_token_def)

lemma parse_plain_line:
  assumes "field_text sel" "\<forall>q. query = Some q \<longrightarrow> field_text q"
  shows "gopher_parse_request (plain_line sel query @ [CR]) = (sel, given query, None)"
proof -
  have "valid_utf8 (plain_line sel query)" "CR \<notin> set (plain_line sel query)" "LF \<notin> set (plain_line sel query)"
    using assms field_text_tab by (auto simp: plain_line_def field_text_def split: option.split)
  then have "gopher_parse_request (plain_line sel query @ [CR]) = gopher_parse_request (plain_line sel query)"
    and "trim_newlines (from_utf8_lossy (plain_line sel query)) = plain_line sel query"
    by (simp_all add: gopher_parse_request_def lossy_line from_utf8_lossy_valid trim_newlines_no_eol)
  with assms show ?thesis
    by (auto simp: gopher_parse_request_def plain_line_def field_text_def given_def split: option.split)
qed

lemma parse_plus_line:
  assumes "field_text sel" "\<forall>q. query = Some q \<longrightarrow> field_text q" "form_ok r"
  shows "gopher_parse_request (plus_line sel query r @ [CR]) = (sel, given query, Some r)"
proof -
  have r: "field_text (plus_token r)" using assms(3) by (simp add: form_ok_def)
  then have "valid_utf8 (plus_line sel query r)" "CR \<notin> set (plus_line sel query r)" "LF \<notin> set (plus_line sel query r)"
    using assms(1,2) field_text_tab valid_utf8_append [of "[TAB]" "TAB # plus_token r"]
    by (auto simp: plus_line_def field_text_def ascii_def valid_utf8_append split: option.split)
  then have "gopher_parse_request (plus_line sel query r @ [CR]) = gopher_parse_request (plus_line sel query r)"
    and "trim_newlines (from_utf8_lossy (plus_line sel query r)) = plus_line sel query r"
    by (simp_all add: gopher_parse_request_def lossy_line from_utf8_lossy_valid trim_newlines_no_eol)
  with assms r show ?thesis
    using plus_token_read [OF assms(3)]
    by (auto simp: gopher_parse_request_def plus_line_def field_text_def given_def split: option.split)
qed

section \<open>The server's answers\<close>

definition gopher_wire :: "gopher_request \<Rightarrow> string" where
  "gopher_wire q =
     (case gq_plus q of None \<Rightarrow> plain_line (gq_selector q) (gq_search q)
      | Some r \<Rightarrow> plus_line (gq_selector q) (gq_search q) r) @ CRLF"

definition gopher_framed :: "gopher_request \<Rightarrow> string \<Rightarrow> string" where
  "gopher_framed q body = (if gq_plus q \<noteq> None then CHR ''+'' # show_nat (length body) @ CRLF else []) @ body"

definition fields_ok :: "gopher_request \<Rightarrow> bool" where
  "fields_ok q \<longleftrightarrow>
     field_text (gq_selector q) \<and> (\<forall>s. gq_search q = Some s \<longrightarrow> field_text s) \<and> (\<forall>r. gq_plus q = Some r \<longrightarrow> form_ok r)"

lemma gopher_server_answers:
  assumes "fields_ok q" "length (gopher_wire q) \<le> gp_max_request_line cfg"
  shows "gopher_handle_connection cfg handler (gopher_wire q) Eof =
    Some (gopher_framed q (handler (q\<lparr>gq_search := given (gq_search q)\<rparr>)))"
proof -
  obtain l where l: "gopher_wire q = l @ CRLF" "LF \<notin> set l"
    "gopher_parse_request (l @ [CR]) = (gq_selector q, given (gq_search q), gq_plus q)"
  proof (cases "gq_plus q")
    case None
    show ?thesis
      by (rule that [of "plain_line (gq_selector q) (gq_search q)"])
        (use assms(1) None parse_plain_line [of "gq_selector q" "gq_search q"]
          in \<open>auto simp: gopher_wire_def fields_ok_def plain_line_def field_text_def split: option.split\<close>)
  next
    case (Some r)
    show ?thesis
      by (rule that [of "plus_line (gq_selector q) (gq_search q) r"])
        (use assms(1) Some parse_plus_line [of "gq_selector q" "gq_search q" r]
          in \<open>auto simp: gopher_wire_def fields_ok_def plus_line_def field_text_def form_ok_def split: option.split\<close>)
  qed
  have read: "closing_line (gp_max_request_line cfg) [] (l @ CRLF) Eof = Pushed (l @ [CR])"
    using closing_line_crlf [of l "gp_max_request_line cfg" "[]" Eof] l(1,2) assms(2) by simp
  show ?thesis
    unfolding gopher_handle_connection_def l(1) read
    using l(3) by (cases q) (simp add: gopher_framed_def Let_def)
qed

text \<open>The two generations the server answers, as interfaces of the same connection.\<close>

definition gopher_admits :: "bool \<Rightarrow> gopher_config \<Rightarrow> gopher_request \<Rightarrow> bool" where
  "gopher_admits is_plus cfg q \<longleftrightarrow>
     fields_ok q \<and> given (gq_search q) = gq_search q \<and> (gq_plus q \<noteq> None) = is_plus \<and>
     length (gopher_wire q) \<le> gp_max_request_line cfg"

lemma admitted_answer:
  assumes "gopher_admits is_plus cfg q"
  shows "gopher_handle_connection cfg h (gopher_wire q) Eof = Some (gopher_framed q (h q))"
proof -
  have "q\<lparr>gq_search := given (gq_search q)\<rparr> = q" using assms by (cases q) (simp add: gopher_admits_def)
  with assms show ?thesis using gopher_server_answers [of q cfg h] by (simp add: gopher_admits_def)
qed

interpretation gopher: one_shot gopher_wire "gopher_admits False" "\<lambda>body. body" gopher_handle_connection
proof (unfold_locales, goal_cases)
  case (1 cfg q h)
  then show ?case using admitted_answer [OF 1, of h] by (simp add: gopher_admits_def gopher_framed_def)
next
  case 2
  show ?case by (rule exI [of _ "[]"], rule exI [of _ "''a''"]) simp
qed

interpretation gopher_plus: one_shot gopher_wire "gopher_admits True"
  "\<lambda>body. CHR ''+'' # show_nat (length body) @ CRLF @ body" gopher_handle_connection
proof (unfold_locales, goal_cases)
  case (1 cfg q h)
  then show ?case using admitted_answer [OF 1, of h] by (simp add: gopher_admits_def gopher_framed_def)
next
  case 2
  show ?case by (rule exI [of _ "''a''"], rule exI [of _ "''b''"]) simp
qed

section \<open>Properties\<close>

definition menu_entry :: "char \<Rightarrow> string \<Rightarrow> string \<Rightarrow> string \<Rightarrow> nat \<Rightarrow> string" where
  "menu_entry c display selector host port =
     c # display @ TAB # selector @ TAB # host @ TAB # show_nat port"

text \<open>What the URL crate makes of the entry's URL when no character of it needs escaping.\<close>

definition entry_url :: "char \<Rightarrow> string \<Rightarrow> string \<Rightarrow> nat \<Rightarrow> url" where
  "entry_url c selector host port =
     (let (path, query) = (case split_once (CHR ''?'') selector of Some (p, q) \<Rightarrow> (p, Some q) | None \<Rightarrow> (selector, None)) in
      \<lparr>url_scheme = ''gopher'', url_host = Some host, url_port = (if port = 70 then None else Some port),
       url_path = CHR ''/'' # c # path, url_query = query, url_fragment = None, url_username = []\<rparr>)"

definition sent_selector :: "string \<Rightarrow> string" where
  "sent_selector selector =
     (case split_once (CHR ''?'') selector of Some (p, q) \<Rightarrow> p @ TAB # q | None \<Rightarrow> selector)"

lemma show_nat_70: "show_nat n = ''70'' \<longleftrightarrow> n = 70"
proof -
  have "[digit_char 7, digit_char 0] = ''70''" by code_simp
  then show ?thesis using show_nat_inject [of n 70] two_digits(1) [of 70] by simp
qed

text \<open>
  Following a menu: an entry of a retrievable type is parsed to an item whose URL, once parsed
  back, makes the client dial the entry's host and port and send the entry's selector; but a
  question mark in the selector is sent as the tab of a search.
\<close>

theorem gopher_menu_follow:
  assumes "ascii c" "c \<notin> {CHR ''i'', CHR ''3'', CHR ''h'', LF}" "host \<noteq> []"
    and "field_text display" "field_text selector" "field_text host"
    and "up (synthesise_gopher_url [c] host (show_nat port) selector) = Some (entry_url c selector host port)"
  shows "\<exists>item. parse_menu (menu_entry c display selector host port @ CRLF @ rest) = item # parse_menu rest \<and>
    gi_kind item = kind_of [c] \<and> gi_display item = display \<and>
    gopher_fetch up tls tcp (the (gi_url item)) =
      (case tcp host port of
         None \<Rightarrow> Inl GopherConnect
       | Some stream \<Rightarrow>
           (case gopher_send_and_read stream (sent_selector selector @ CRLF) of
              Inl e \<Rightarrow> Inl e
            | Inr body \<Rightarrow> Inr \<lparr>gr_mime = mime_for_item_type [c], gr_body = body\<rparr>))"
proof -
  let ?e = "menu_entry c display selector host port"
  let ?item = "\<lparr>gi_kind = kind_of [c], gi_display = display,
    gi_url = Some (synthesise_gopher_url [c] host (show_nat port) selector), gi_plus = None\<rparr>"
  have one: "first_char_len (c # s) = 1" for s
    using assms(1) by (simp add: first_char_len_def utf8_step_ascii)
  have "menu_line ?e = Some ?item"
    using assms(2-6) one by (simp add: menu_line_def menu_entry_def field_text_def part_or_def eval_nat_numeral Let_def)
  moreover have "LF \<noteq> c" using assms(2) by auto
  then have "str_lines (?e @ CRLF @ rest) = ?e # str_lines rest"
    using assms(2,4-6) str_lines_crlf [of ?e rest] by (simp add: menu_entry_def field_text_def)
  moreover have "?e \<noteq> ''.''" "?e \<noteq> []" using assms(2) by (auto simp: menu_entry_def)
  ultimately have "parse_menu (?e @ CRLF @ rest) = ?item # parse_menu rest"
    by (simp add: parse_menu_def)
  moreover have "gopher_fetch up tls tcp (the (gi_url ?item)) =
      (case tcp host port of
         None \<Rightarrow> Inl GopherConnect
       | Some stream \<Rightarrow>
           (case gopher_send_and_read stream (sent_selector selector @ CRLF) of
              Inl e \<Rightarrow> Inl e
            | Inr body \<Rightarrow> Inr \<lparr>gr_mime = mime_for_item_type [c], gr_body = body\<rparr>))"
    using assms(7) one
    by (simp add: gopher_fetch_def entry_url_def gopher_split_path_def gopher_exchange_def gopher_connect_def
        sent_selector_def GOPHER_PORT_def split: option.split)
  ultimately show ?thesis by (intro exI [of _ ?item]) simp
qed

lemma gopher_menu_witness:
  "\<exists>item. parse_menu (menu_entry (CHR ''0'') ''Log'' ''/log?day'' ''h'' 71 @ CRLF @ []) = item # parse_menu [] \<and>
    gi_kind item = GkText \<and> gi_display item = ''Log'' \<and>
    gopher_fetch (\<lambda>s. Some (entry_url (CHR ''0'') ''/log?day'' ''h'' 71)) None
      (\<lambda>host port. Some (\<lambda>w. (w, Eof))) (the (gi_url item)) =
    Inr \<lparr>gr_mime = ''text/plain'', gr_body = ''/log'' @ TAB # ''day'' @ CRLF\<rparr>"
proof -
  have "field_text ''Log''" "field_text ''/log?day''" "field_text ''h''" by code_simp+
  then show ?thesis
    using gopher_menu_follow [of "CHR ''0''" "''h''" "''Log''" "''/log?day''"
        "\<lambda>s. Some (entry_url (CHR ''0'') ''/log?day'' ''h'' 71)" 71 "[]" None "\<lambda>host port. Some (\<lambda>w. (w, Eof))"]
    by (simp add: ascii_def kind_of_def mime_for_item_type_def gopher_send_and_read_def sent_selector_def)
qed

lemma ends_with_rev: "ends_with p s \<longleftrightarrow> starts_with (rev p) (rev s)"
  unfolding ends_with_iff starts_with_iff by (metis rev_append rev_rev_ident)

lemma starts_with_Cons [simp]: "starts_with (a # p) (b # s) \<longleftrightarrow> a = b \<and> starts_with p s"
  by (auto simp: starts_with_def)

text \<open>
  A \<open>.\<close> and the line end \<open>nl\<close> after \<open>data\<close> are taken for the terminator: the data ends in a newline, the
  line end is CRLF, LF or missing, and a CRLF after the period goes with a CRLF before it.
\<close>

definition terminates :: "string \<Rightarrow> string \<Rightarrow> bool" where
  "terminates data nl \<longleftrightarrow>
     ends_with [LF] data \<and> nl \<in> {CRLF, [LF], []} \<and> (nl = CRLF \<longrightarrow> ends_with CRLF data)"

lemma strip_terminated:
  assumes "terminates data nl"
  shows "strip_period_terminator (data @ ''.'' @ nl) = data"
proof -
  obtain d where d: "data = d @ [LF]" using assms by (auto simp: terminates_def ends_with_iff)
  show ?thesis
  proof (cases "ends_with CRLF data")
    case True
    then obtain e where "data = e @ CRLF" by (auto simp: ends_with_iff)
    then show ?thesis
      using assms by (auto simp: terminates_def strip_period_terminator_def ends_with_rev starts_with_iff)
  next
    case False
    with assms d show ?thesis
      by (auto simp: terminates_def strip_period_terminator_def ends_with_rev starts_with_iff)
  qed
qed

lemma strip_unterminated:
  assumes "\<nexists>data nl. body = data @ ''.'' @ nl \<and> terminates data nl"
  shows "strip_period_terminator body = body"
proof -
  have "\<not> ends_with (nl1 @ ''.'' @ nl2) body"
    if "(nl1, nl2) \<in> {(CRLF, CRLF), ([LF], [LF]), (CRLF, []), ([LF], [])}" for nl1 nl2
  proof
    assume "ends_with (nl1 @ ''.'' @ nl2) body"
    then obtain t where "body = (t @ nl1) @ ''.'' @ nl2" by (auto simp: ends_with_iff)
    moreover have "terminates (t @ nl1) nl2" using that by (auto simp: terminates_def ends_with_iff)
    ultimately show False using assms by blast
  qed
  from this [of CRLF CRLF] this [of "[LF]" "[LF]"] this [of CRLF "[]"] this [of "[LF]" "[]"] show ?thesis
    by (simp add: strip_period_terminator_def)
qed

lemma plus_over_header:
  assumes "stream w = (h @ CRLF @ raw, Eof)" "LF \<notin> set h" "valid_utf8 h" "h \<noteq> []"
  shows "plus_over stream w =
    (case plus_parse_header h of
       Inl bad \<Rightarrow> Inl (GopherBadPlusHeader bad)
     | Inr (PlusLength n) \<Rightarrow> Inr (PlusLength n, take n raw)
     | Inr UntilClose \<Rightarrow> Inr (UntilClose, raw)
     | Inr header \<Rightarrow> Inr (header, strip_period_terminator raw))"
proof -
  have "plus_parse_header (h @ CRLF) = plus_parse_header h" by (simp add: plus_parse_header_def del: append_Cons)
  moreover have "read_text_line (h @ CRLF @ raw) Eof = (Inr (h @ CRLF), raw)"
    using assms(2,3) by (simp del: read_text_line_crlf add: read_text_line_crlf)
  ultimately show ?thesis
    using assms(1) by (auto simp: plus_over_def read_capped_def split: sum.split plus_header.split)
qed

lemma signed_word: "is_word w \<Longrightarrow> \<forall>c \<in> set w. c \<noteq> CR \<and> c \<noteq> LF \<Longrightarrow>
  plus_parse_header (c # w) =
    (if c = CHR ''-'' then Inr PlusFailed
     else if c = CHR ''+'' then
       (if w = ''-1'' then Inr PeriodTerminated
        else if w = ''-2'' then Inr UntilClose
        else case parse_uint u64_max w of Some n \<Rightarrow> Inr (PlusLength n) | None \<Rightarrow> Inl (c # w))
     else Inl (c # w))"
  using trim_newlines_id [of "c # w"] split_whitespace_word [of w] last_in_set [of w]
  by (auto simp: plus_parse_header_def is_word_def)

lemma plus_number_header:
  assumes "n \<le> u64_max"
  shows "plus_parse_header (CHR ''+'' # show_nat n) = Inr (PlusLength n)"
proof -
  have "CHR ''-'' \<notin> set (show_nat n)" "CR \<notin> set (show_nat n)" "LF \<notin> set (show_nat n)" by simp_all
  then have "show_nat n \<noteq> ''-1''" "show_nat n \<noteq> ''-2''" "\<forall>c \<in> set (show_nat n). c \<noteq> CR \<and> c \<noteq> LF"
    by (metis list.set_intros(1), metis list.set_intros(1), metis)
  with assms show ?thesis by (subst signed_word) (simp_all add: is_word_def)
qed

lemma plus_sign_headers:
  "plus_parse_header ''+-1'' = Inr PeriodTerminated" "plus_parse_header ''+-2'' = Inr UntilClose"
  "plus_parse_header ''--1'' = Inr PlusFailed"
  by (subst signed_word; simp add: is_word_def ascii_def ascii_ws_def between_def)+

text \<open>
  (C21) Gopher+ framing, for a reply that reaches its end: a counted body is cut at its count (and a
  body shorter than its count is returned as it is, without an error), and a body ended by the close
  is returned whole. From a body or an error text ended by a period, the last line is removed
  exactly when it is a period after data that ends in a newline, and a CRLF after the period comes
  with a CRLF before it; the newline stays with the data. So a period line that is the whole body
  stays, and so does a period with CRLF after a line that ends in LF only.
\<close>

theorem gopher_plus_framing:
  assumes "n \<le> u64_max"
  shows "plus_over (\<lambda>_. (CHR ''+'' # show_nat n @ CRLF @ body, Eof)) w = Inr (PlusLength n, take n body) \<and>
    plus_over (\<lambda>_. (''+-2'' @ CRLF @ body, Eof)) w = Inr (UntilClose, body) \<and>
    (\<forall>(sign, kind) \<in> {(''+-1'', PeriodTerminated), (''--1'', PlusFailed)}.
      (\<forall>data nl. terminates data nl \<longrightarrow>
        plus_over (\<lambda>_. (sign @ CRLF @ data @ ''.'' @ nl, Eof)) w = Inr (kind, data)) \<and>
      ((\<nexists>data nl. body = data @ ''.'' @ nl \<and> terminates data nl) \<longrightarrow>
        plus_over (\<lambda>_. (sign @ CRLF @ body, Eof)) w = Inr (kind, body)))"
proof -
  have v: "valid_utf8 (CHR ''+'' # show_nat n)" "valid_utf8 ''+-1''" "valid_utf8 ''--1''" "valid_utf8 ''+-2''"
    using valid_utf8_append [of "''+''" "show_nat n"] by (simp_all add: ascii_def ascii_valid_utf8)
  have period: "plus_over (\<lambda>_. (sign @ CRLF @ raw, Eof)) w = Inr (kind, strip_period_terminator raw)"
    if "(sign, kind) \<in> {(''+-1'', PeriodTerminated), (''--1'', PlusFailed)}" for sign kind raw
    using that plus_over_header [of "\<lambda>_. (sign @ CRLF @ raw, Eof)" w sign raw] plus_sign_headers v by auto
  let ?signs = "{(''+-1'', PeriodTerminated), (''--1'', PlusFailed)}"
  have goes: "plus_over (\<lambda>_. (sign @ CRLF @ data @ ''.'' @ nl, Eof)) w = Inr (kind, data)"
    if "(sign, kind) \<in> ?signs" "terminates data nl" for sign kind data nl
    by (simp only: period [OF that(1)] strip_terminated [OF that(2)])
  have stays: "plus_over (\<lambda>_. (sign @ CRLF @ body, Eof)) w = Inr (kind, body)"
    if "(sign, kind) \<in> ?signs" "\<nexists>data nl. body = data @ ''.'' @ nl \<and> terminates data nl" for sign kind
    by (simp only: period [OF that(1)] strip_unterminated [OF that(2)])
  have "plus_over (\<lambda>_. (CHR ''+'' # show_nat n @ CRLF @ body, Eof)) w = Inr (PlusLength n, take n body)"
    "plus_over (\<lambda>_. (''+-2'' @ CRLF @ body, Eof)) w = Inr (UntilClose, body)"
    using plus_over_header [of "\<lambda>_. (CHR ''+'' # show_nat n @ CRLF @ body, Eof)" w "CHR ''+'' # show_nat n" body]
      plus_over_header [of "\<lambda>_. (''+-2'' @ CRLF @ body, Eof)" w "''+-2''" body]
      plus_number_header [OF assms] plus_sign_headers v by simp_all
  then show ?thesis
  proof (intro conjI ballI, goal_cases)
    case (3 x)
    obtain sign kind where "x = (sign, kind)" by (cases x)
    with 3 goes [of sign kind] stays [of sign kind] show ?case by (simp only: prod.case) blast
  qed
qed

text \<open>A short body, and a period line that goes and one that stays.\<close>

lemma gopher_framing_witness:
  "plus_over (\<lambda>_. (CHR ''+'' # show_nat 3 @ CRLF @ ''ab'', Eof)) [] = Inr (PlusLength 3, ''ab'') \<and>
    plus_over (\<lambda>_. (''+-1'' @ CRLF @ (''ab'' @ [LF]) @ ''.'' @ [LF], Eof)) [] = Inr (PeriodTerminated, ''ab'' @ [LF]) \<and>
    plus_over (\<lambda>_. (''--1'' @ CRLF @ ''.'' @ CRLF, Eof)) [] = Inr (PlusFailed, ''.'' @ CRLF)"
proof -
  have "terminates (''ab'' @ [LF]) [LF]" by code_simp
  moreover have "\<nexists>data nl. ''.'' @ CRLF = data @ ''.'' @ nl \<and> terminates data nl"
    by (auto simp: terminates_def ends_with_iff append_eq_Cons_conv Cons_eq_append_conv)
  ultimately show ?thesis
    using gopher_plus_framing [of 3 "''ab''" "[]", THEN conjunct1]
      gopher_plus_framing [of 3 "''ab''" "[]", THEN conjunct2, THEN conjunct2, THEN bspec, of "(''+-1'', PeriodTerminated)",
        unfolded prod.case, THEN conjunct1, rule_format, of "''ab'' @ [LF]" "[LF]"]
      gopher_plus_framing [of 3 "''.'' @ CRLF" "[]", THEN conjunct2, THEN conjunct2, THEN bspec, of "(''--1'', PlusFailed)",
        unfolded prod.case, THEN conjunct2, rule_format]
    by (simp only: insert_iff simp_thms numeral_le_iff) simp
qed

text \<open>
  (C32) Gopher from end to end, both generations: fetching a URL whose path and query are plain text
  from a server of this crate hands the handler the selector after the item type, the query as the
  search (none when it is empty) and the Gopher+ form asked for, and returns the handler's bytes:
  as the body with the item type's MIME type, or as a Gopher+ body with its length.
\<close>

theorem gopher_exchange_correct:
  assumes url: "up url = Some u" "url_scheme u = ''gopher''" "url_host u = Some host"
    and port: "port = (case url_port u of Some p \<Rightarrow> p | None \<Rightarrow> GOPHER_PORT)"
    and dial: "tcp host port = Some (as_peer (gopher_handle_connection cfg handler))"
    and parts: "gopher_split_path u = (item_type, selector)"
    and fields: "field_text selector" "\<forall>q. url_query u = Some q \<longrightarrow> field_text q" "form_ok r"
    and fits: "length (plus_line selector (url_query u) r) + 2 \<le> gp_max_request_line cfg"
    and size: "length (handler \<lparr>gq_selector = selector, gq_search = given (url_query u), gq_plus = Some r\<rparr>) \<le> u64_max"
  shows "gopher_fetch up tls tcp url =
      Inr \<lparr>gr_mime = mime_for_item_type item_type,
           gr_body = handler \<lparr>gq_selector = selector, gq_search = given (url_query u), gq_plus = None\<rparr>\<rparr> \<and>
    (let body = handler \<lparr>gq_selector = selector, gq_search = given (url_query u), gq_plus = Some r\<rparr> in
     gopher_fetch_plus up tls tcp url r = Inr \<lparr>pr_header = PlusLength (length body), pr_body = body\<rparr>)"
proof -
  let ?q = "\<lambda>p. \<lparr>gq_selector = selector, gq_search = url_query u, gq_plus = p\<rparr>"
  have ok: "fields_ok (?q None)" "fields_ok (?q (Some r))" using fields by (simp_all add: fields_ok_def)
  have "length (plain_line selector (url_query u)) \<le> length (plus_line selector (url_query u) r)"
    by (simp add: plain_line_def plus_line_def split: option.split)
  then have len: "length (gopher_wire (?q p)) \<le> gp_max_request_line cfg" if "p \<in> {None, Some r}" for p
    using that fits by (auto simp: gopher_wire_def)
  have plain: "gopher_handle_connection cfg handler (plain_line selector (url_query u) @ CRLF) Eof =
      Some (handler \<lparr>gq_selector = selector, gq_search = given (url_query u), gq_plus = None\<rparr>)"
    using gopher_server_answers [OF ok(1) len, of handler] by (simp add: gopher_wire_def gopher_framed_def)
  define body where "body = handler \<lparr>gq_selector = selector, gq_search = given (url_query u), gq_plus = Some r\<rparr>"
  have framed: "gopher_handle_connection cfg handler (plus_line selector (url_query u) r @ CRLF) Eof =
      Some (CHR ''+'' # show_nat (length body) @ CRLF @ body)"
    using gopher_server_answers [OF ok(2) len, of handler] by (simp add: gopher_wire_def gopher_framed_def body_def)
  have "gopher_fetch up tls tcp url =
      Inr \<lparr>gr_mime = mime_for_item_type item_type,
           gr_body = handler \<lparr>gq_selector = selector, gq_search = given (url_query u), gq_plus = None\<rparr>\<rparr>"
    using url dial parts plain
    by (simp add: gopher_fetch_def port gopher_exchange_def gopher_connect_def
        gopher_send_and_read_def as_peer_def plain_line_def)
  moreover have "plus_over (as_peer (gopher_handle_connection cfg handler)) (plus_line selector (url_query u) r @ CRLF) =
      Inr (PlusLength (length body), body)"
    using plus_over_header [of "as_peer (gopher_handle_connection cfg handler)"
        "plus_line selector (url_query u) r @ CRLF" "CHR ''+'' # show_nat (length body)" body]
      framed plus_number_header [of "length body"] size valid_utf8_append [of "''+''" "show_nat (length body)"]
    by (simp add: as_peer_def ascii_def ascii_valid_utf8 body_def)
  then have "gopher_fetch_plus up tls tcp url r = Inr \<lparr>pr_header = PlusLength (length body), pr_body = body\<rparr>"
    using url dial parts
    by (simp add: gopher_fetch_plus_def port gopher_connect_def plus_line_def)
  ultimately show ?thesis by (simp add: body_def Let_def)
qed

lemma gopher_exchange_witness:
  "let u = \<lparr>url_scheme = ''gopher'', url_host = Some ''h'', url_port = None, url_path = ''/0/a'',
            url_query = Some ''b'', url_fragment = None, url_username = []\<rparr>;
       tcp = (\<lambda>host port. Some (as_peer (gopher_handle_connection default_gopher_config
               (\<lambda>q. gq_selector q @ (case gq_search q of Some s \<Rightarrow> s | None \<Rightarrow> [])))))
   in gopher_fetch (\<lambda>_. Some u) None tcp ''gopher://h/0/a?b'' =
        Inr \<lparr>gr_mime = ''text/plain'', gr_body = ''/ab''\<rparr> \<and>
      gopher_fetch_plus (\<lambda>_. Some u) None tcp ''gopher://h/0/a?b'' PlusAttributes =
        Inr \<lparr>pr_header = PlusLength 3, pr_body = ''/ab''\<rparr>"
proof -
  let ?u = "\<lparr>url_scheme = ''gopher'', url_host = Some ''h'', url_port = None, url_path = ''/0/a'',
            url_query = Some ''b'', url_fragment = None, url_username = []\<rparr>"
  have "gopher_split_path ?u = (''0'', ''/a'')" "field_text ''/a''" "field_text ''b''" "form_ok PlusAttributes"
    by code_simp+
  then show ?thesis
    using gopher_exchange_correct [of "\<lambda>_. Some ?u" "''gopher://h/0/a?b''" ?u "''h''" GOPHER_PORT
        "\<lambda>host port. Some (as_peer (gopher_handle_connection default_gopher_config
               (\<lambda>q. gq_selector q @ (case gq_search q of Some s \<Rightarrow> s | None \<Rightarrow> []))))"
        default_gopher_config "\<lambda>q. gq_selector q @ (case gq_search q of Some s \<Rightarrow> s | None \<Rightarrow> [])"
        "''0''" "''/a''" PlusAttributes None]
    by (simp add: plus_line_def default_gopher_config_def mime_for_item_type_def given_def)
qed

end
