(* ===== verification/Serving.thy ===== *)
theory Serving
  imports Accept_Loop Finger Nex Spartan Gopher_Net Gemini_Net
begin

text \<open>
  The running servers of finger, gopher, nex, spartan and gemini: each crate's \<open>serve\<close> is the accept
  loop over its own task, given as the byte-by-byte reader of its request. The interpretations of
  \<open>task_reader\<close> show that reader and \<open>handle_connection\<close> agree. A gemini task reads once the TLS
  handshake is through; a handshake that fails is \<open>ReadFails\<close> before the first byte.
\<close>

section \<open>Line protocols\<close>

definition line_reader :: "nat \<Rightarrow> (string \<Rightarrow> 'q) \<Rightarrow> (string, 'q) reader" where
  "line_reader limit parse =
     \<lparr>rd_start = [],
      rd_feed = (\<lambda>line c. if c = LF then Inr (Consult (parse line))
                          else if limit \<le> length (line @ [c]) then Inr (Tell [])
                          else Inl (line @ [c])),
      rd_finish = (\<lambda>line. Consult (parse line))\<rparr>"

lemma line_reader_start [simp]: "rd_start (line_reader limit parse) = []"
  by (simp add: line_reader_def)









section \<open>Gemini\<close>





section \<open>Spartan\<close>











section \<open>The servers\<close>










end
