(* ===== verification/Webfinger.thy ===== *)
theory Webfinger
  imports Rust_Ascii
begin

text \<open>
  WebFinger (\<open>crates/finger-protocol/src/webfinger.rs\<close>): the request URL, the JSON Resource
  Descriptor and the lookups in it. Percent encoding is a parameter, known by its documentation only.
  Reading and writing the descriptor's JSON is serde's, from the attributes of the two structs, and is
  not modelled; a \<open>BTreeMap\<close> of the descriptor is the list of its entries in ascending key order.
\<close>

section \<open>Requests\<close>

definition MEDIA_TYPE :: string where "MEDIA_TYPE = ''application/jrd+json''"
definition WELL_KNOWN_PATH :: string where "WELL_KNOWN_PATH = ''/.well-known/webfinger''"

text \<open>The bytes that are sent as they are.\<close>

definition resource_plain :: "char \<Rightarrow> bool" where
  "resource_plain c \<longleftrightarrow> is_ascii_alnum c \<or> c \<in> {CHR ''-'', CHR ''.'', CHR ''_'', CHR ''~''}"

definition acct :: "string \<Rightarrow> string \<Rightarrow> string" where
  "acct user host = ''acct:'' @ user @ ''@'' @ host"

text \<open>\<open>enc plain s\<close> is \<open>utf8_percent_encode\<close> of \<open>s\<close> with the bytes \<open>plain\<close> left alone.\<close>

definition request_url :: "((char \<Rightarrow> bool) \<Rightarrow> string \<Rightarrow> string) \<Rightarrow> string \<Rightarrow> string \<Rightarrow> string list \<Rightarrow> string" where
  "request_url enc host resource rels =
     foldl (\<lambda>u rel. u @ ''&rel='' @ enc resource_plain rel)
       (''https://'' @ host @ WELL_KNOWN_PATH @ ''?resource='' @ enc resource_plain resource) rels"

section \<open>Descriptors\<close>

record jrd_link =
  jl_rel :: string
  jl_media_type :: "string option"
  jl_href :: "string option"
  jl_template :: "string option"
  jl_titles :: "(string \<times> string) list"
  jl_properties :: "(string \<times> string option) list"

record jrd =
  jrd_subject :: "string option"
  jrd_aliases :: "string list"
  jrd_properties :: "(string \<times> string option) list"
  jrd_links :: "jrd_link list"

definition jrd_find_link :: "jrd \<Rightarrow> string \<Rightarrow> jrd_link option" where
  "jrd_find_link j rel = find (\<lambda>l. jl_rel l = rel) (jrd_links j)"

definition jrd_links_with :: "jrd \<Rightarrow> string \<Rightarrow> jrd_link list" where
  "jrd_links_with j rel = filter (\<lambda>l. jl_rel l = rel) (jrd_links j)"

lemma find_filter_hd: "find P xs = (case filter P xs of [] \<Rightarrow> None | l # _ \<Rightarrow> Some l)"
  by (induction xs) auto

lemma jrd_find_link_hd:
  "jrd_find_link j rel = (case jrd_links_with j rel of [] \<Rightarrow> None | l # _ \<Rightarrow> Some l)"
  by (simp add: jrd_find_link_def jrd_links_with_def find_filter_hd)

section \<open>What a server reads\<close>

text \<open>
  The documentation of \<open>percent-encoding\<close>: encoding leaves \<open>plain\<close> characters and percent signs with
  two hex digits, and decoding gives the text back when the percent sign itself is encoded.
\<close>

definition percent_coding :: "((char \<Rightarrow> bool) \<Rightarrow> string \<Rightarrow> string) \<Rightarrow> (string \<Rightarrow> string) \<Rightarrow> bool" where
  "percent_coding enc pct \<longleftrightarrow>
     (\<forall>plain s. (\<forall>c \<in> set (enc plain s). plain c \<or> c \<in> set ''%0123456789ABCDEF'') \<and>
        (\<not> plain (CHR ''%'') \<longrightarrow> pct (enc plain s) = s))"

text \<open>The parameters of a URL by the usual reading: name and decoded value of each, and what precedes them.\<close>

definition query_read :: "(string \<Rightarrow> string) \<Rightarrow> string \<Rightarrow> (string \<times> (string \<times> string) list) option" where
  "query_read pct u =
     (case split_once (CHR ''?'') u of None \<Rightarrow> None
      | Some (before, query) \<Rightarrow>
          Some (before, map (\<lambda>p. case split_once (CHR ''='') p of None \<Rightarrow> (p, []) | Some (k, v) \<Rightarrow> (k, pct v))
                          (split_all (CHR ''&'') query)))"

definition delimiter :: "char \<Rightarrow> bool" where
  "delimiter c \<longleftrightarrow> c \<in> {CHR ''&'', CHR ''='', CHR ''?'', CHR ''#''}"

lemma delimiter_encoded: "delimiter c \<Longrightarrow> \<not> resource_plain c \<and> c \<notin> set ''%0123456789ABCDEF''"
  by (auto simp: delimiter_def resource_plain_def is_ascii_alnum_def is_ascii_alpha_def is_ascii_upper_def is_ascii_lower_def is_digit_def between_def)

lemma percent_sign_encoded: "\<not> resource_plain (CHR ''%'')"
  by (simp add: resource_plain_def is_ascii_alnum_def is_ascii_alpha_def is_ascii_upper_def is_ascii_lower_def is_digit_def between_def)

lemma value_coded:
  assumes "percent_coding enc pct"
  shows "delimiter c \<Longrightarrow> c \<notin> set (enc resource_plain s)" "pct (enc resource_plain s) = s"
proof -
  have doc: "\<forall>c \<in> set (enc resource_plain s). resource_plain c \<or> c \<in> set ''%0123456789ABCDEF''"
    "\<not> resource_plain (CHR ''%'') \<longrightarrow> pct (enc resource_plain s) = s"
    using assms [unfolded percent_coding_def, rule_format, of resource_plain s] by blast+
  show "delimiter c \<Longrightarrow> c \<notin> set (enc resource_plain s)" using doc(1) delimiter_encoded [of c] by blast
  show "pct (enc resource_plain s) = s" using doc(2) percent_sign_encoded by (rule mp)
qed

lemma foldl_rels:
  "foldl (\<lambda>u rel. u @ ''&rel='' @ e rel) u rels = u @ concat (map (\<lambda>rel. ''&rel='' @ e rel) rels)"
  by (induction rels arbitrary: u) simp_all

lemma split_rels:
  assumes "CHR ''&'' \<notin> set a" "\<And>rel. CHR ''&'' \<notin> set (e rel)"
  shows "split_all (CHR ''&'') (a @ concat (map (\<lambda>rel. ''&rel='' @ e rel) rels)) = a # map (\<lambda>rel. ''rel='' @ e rel) rels"
  using assms(1)
proof (induction rels arbitrary: a)
  case (Cons rel rels)
  then show ?case using Cons.IH [of "''rel='' @ e rel"] assms(2) [of rel] by simp
qed simp

section \<open>Properties\<close>

text \<open>
  (C31) The request asks for exactly the resource and the relations given: with a percent encoder as it
  is documented, and a host that is not itself a piece of query, the URL leads to the well-known path of
  the host, and a server that splits its query and decodes the values reads one \<open>resource\<close>, the one
  given, and then the \<open>rel\<close>s given, in order and none other, whatever delimiters, percent signs or
  other characters they contain; nothing is left for a fragment.
\<close>

theorem webfinger_query_read:
  assumes "percent_coding enc pct" "\<forall>c \<in> set host. \<not> delimiter c"
  shows "query_read pct (request_url enc host resource rels) =
      Some (''https://'' @ host @ ''/.well-known/webfinger'', (''resource'', resource) # map (Pair ''rel'') rels) \<and>
    CHR ''#'' \<notin> set (request_url enc host resource rels)"
proof -
  let ?e = "enc resource_plain"
  let ?query = "(''resource='' @ ?e resource) @ concat (map (\<lambda>rel. ''&rel='' @ ?e rel) rels)"
  have no: "CHR ''&'' \<notin> set (?e s)" "CHR ''#'' \<notin> set (?e s)" for s
    using value_coded(1) [OF assms(1)] by (simp_all add: delimiter_def)
  have host: "CHR ''?'' \<notin> set host" "CHR ''#'' \<notin> set host"
    using assms(2) by (auto simp: delimiter_def)
  have u: "request_url enc host resource rels = (''https://'' @ host @ ''/.well-known/webfinger'') @ CHR ''?'' # ?query"
    unfolding request_url_def foldl_rels by (simp add: WELL_KNOWN_PATH_def)
  have "split_all (CHR ''&'') ?query = (''resource='' @ ?e resource) # map (\<lambda>rel. ''rel='' @ ?e rel) rels"
    using no by (intro split_rels) simp_all
  moreover have "split_once (CHR ''?'') (request_url enc host resource rels) =
      Some (''https://'' @ host @ ''/.well-known/webfinger'', ?query)"
    unfolding u using host by (intro split_once_append) simp
  ultimately have "query_read pct (request_url enc host resource rels) =
      Some (''https://'' @ host @ ''/.well-known/webfinger'', (''resource'', resource) # map (Pair ''rel'') rels)"
    using value_coded(2) [OF assms(1)] by (simp add: query_read_def)
  moreover have "CHR ''#'' \<notin> set (request_url enc host resource rels)"
    unfolding u using host no by auto
  ultimately show ?thesis by simp
qed

text \<open>An encoder and its decoder; the resource and the relation contain every delimiter.\<close>

definition demo_digit :: "nat \<Rightarrow> char" where
  "demo_digit n = ''0123456789ABCDEF'' ! n"

definition demo_value :: "char \<Rightarrow> nat" where
  "demo_value d = length (takeWhile (\<lambda>c. c \<noteq> d) ''0123456789ABCDEF'')"

definition demo_encode :: "(char \<Rightarrow> bool) \<Rightarrow> string \<Rightarrow> string" where
  "demo_encode plain s = concat (map (\<lambda>c. if plain c then [c]
     else [CHR ''%'', demo_digit (of_char c div 16), demo_digit (of_char c mod 16)]) s)"

fun demo_decode :: "string \<Rightarrow> string" where
  "demo_decode [] = []"
| "demo_decode (c # cs) =
     (case (c = CHR ''%'', cs) of
        (True, h # l # rest) \<Rightarrow> char_of (16 * demo_value h + demo_value l) # demo_decode rest
      | _ \<Rightarrow> c # demo_decode cs)"

lemma demo_hex: "n < 16 \<Longrightarrow> demo_value (demo_digit n) = n \<and> demo_digit n \<in> set ''%0123456789ABCDEF''"
proof -
  have "\<forall>n \<in> set [0..<16]. demo_value (demo_digit n) = n \<and> demo_digit n \<in> set ''%0123456789ABCDEF''" by code_simp
  moreover assume "n < 16"
  ultimately show ?thesis by (simp only: set_upt) (meson atLeastLessThan_iff le0)
qed

lemma demo_nibbles: "(of_char (c :: char) :: nat) div 16 < 16" "(of_char c :: nat) mod 16 < 16"
proof -
  have "(of_char c :: nat) mod 256 < 256" by (rule mod_less_divisor) simp
  then show "(of_char c :: nat) div 16 < 16" by (intro less_mult_imp_div_less) simp
qed simp

lemma demo_decode_triplet:
  "demo_decode (CHR ''%'' # demo_digit (of_char c div 16) # demo_digit (of_char c mod 16) # s) = c # demo_decode s"
  using demo_hex [OF demo_nibbles(1) [of c]] demo_hex [OF demo_nibbles(2) [of c]] by simp

lemma demo_percent_coding: "percent_coding demo_encode demo_decode"
proof -
  have "plain c \<or> c \<in> set ''%0123456789ABCDEF''" if "c \<in> set (demo_encode plain s)" for plain s c
  proof -
    from that obtain x where x: "c \<in> set (if plain x then [x] else [CHR ''%'', demo_digit (of_char x div 16), demo_digit (of_char x mod 16)])"
      by (auto simp only: demo_encode_def set_concat set_map)
    show ?thesis
    proof (cases "plain x")
      case False
      then have "c = CHR ''%'' \<or> c = demo_digit (of_char x div 16) \<or> c = demo_digit (of_char x mod 16)" using x by auto
      moreover have "CHR ''%'' \<in> set ''%0123456789ABCDEF''" by simp
      ultimately show ?thesis
        using demo_hex [OF demo_nibbles(1) [of x]] demo_hex [OF demo_nibbles(2) [of x]] by blast
    qed (use x in auto)
  qed
  moreover have "demo_decode (demo_encode plain s) = s" if "\<not> plain (CHR ''%'')" for plain s
  proof (induction s)
    case (Cons c s)
    show ?case
    proof (cases "plain c")
      case True
      then have "c \<noteq> CHR ''%''" using that by auto
      with True Cons show ?thesis by (simp add: demo_encode_def)
    next
      case False
      with Cons demo_decode_triplet [of c "demo_encode plain s"] show ?thesis
        by (simp add: demo_encode_def del: demo_decode.simps)
    qed
  qed (simp add: demo_encode_def)
  ultimately show ?thesis unfolding percent_coding_def by blast
qed

lemma webfinger_query_witness:
  "query_read demo_decode (request_url demo_encode ''h.example'' (acct ''a&rel=x'' ''b#?'') [''self'', ''http://x/?y=1%26'']) =
     Some (''https://h.example/.well-known/webfinger'',
       [(''resource'', ''acct:a&rel=x@b#?''), (''rel'', ''self''), (''rel'', ''http://x/?y=1%26'')])"
proof -
  have "\<forall>c \<in> set ''h.example''. \<not> delimiter c" by (simp add: delimiter_def)
  from webfinger_query_read [OF demo_percent_coding this] show ?thesis by (simp add: acct_def)
qed

end
