(* ===== verification/Kepler.thy ===== *)
theory Kepler
  imports Rust_Int Url_Iface Codec
begin

text \<open>
  Kepler (\<open>crates/kepler-protocol/src/wire.rs\<close>, \<open>client.rs\<close>): the request line with its
  last-cached time and language, the response header with its cache metadata, and the client's
  exchange. The URL parser is the parameter \<open>up\<close>; a malformed header carries the offending line.
\<close>

section \<open>Headers\<close>

datatype kepler_status =
    KInput | KSuccess | KRedirect | KTemporaryFailure | KPermanentFailure | KAuthRequired | KUnchanged

definition kepler_from_code :: "nat \<Rightarrow> kepler_status option" where
  "kepler_from_code code =
     (let d = code div 10 in
      if d = 1 then Some KInput else if d = 2 then Some KSuccess else if d = 3 then Some KRedirect
      else if d = 4 then Some KTemporaryFailure else if d = 5 then Some KPermanentFailure
      else if d = 6 then Some KAuthRequired else if d = 7 then Some KUnchanged else None)"

record cache_info =
  ci_length :: int
  ci_last_updated :: int
  ci_expires :: int

definition has_length :: "cache_info \<Rightarrow> bool" where
  "has_length c \<longleftrightarrow> 0 \<le> ci_length c"

datatype kepler_header =
    KHSuccess nat cache_info string
  | KHUnchanged nat int
  | KHMeta nat kepler_status string

fun kepler_code :: "kepler_header \<Rightarrow> nat" where
  "kepler_code (KHSuccess code _ _) = code"
| "kepler_code (KHUnchanged code _) = code"
| "kepler_code (KHMeta code _ _) = code"

fun kheader_status :: "kepler_header \<Rightarrow> kepler_status" where
  "kheader_status (KHSuccess _ _ _) = KSuccess"
| "kheader_status (KHUnchanged _ _) = KUnchanged"
| "kheader_status (KHMeta _ st _) = st"

type_synonym malformed_header = string

definition MAX_URI :: nat where "MAX_URI = 1024"

definition kepler_request_line :: "string \<Rightarrow> int \<Rightarrow> string \<Rightarrow> string" where
  "kepler_request_line uri last_cached language =
     uri @ '' '' @ show_int last_cached @ '' '' @ language @ CRLF"

record kepler_request =
  kq_uri :: string
  kq_last_cached :: int
  kq_language :: string

definition kepler_parse_request :: "string \<Rightarrow> malformed_header + kepler_request" where
  "kepler_parse_request line0 =
     (let line = trim_newlines line0 in
      if MAX_URI < length line then Inl (''request exceeds '' @ show_nat MAX_URI @ '' bytes'')
      else case split_all (CHR '' '') line of
        [] \<Rightarrow> Inl line
      | uri # fs \<Rightarrow>
          if uri = [] then Inl line
          else (case fs of
                  [] \<Rightarrow> Inr \<lparr>kq_uri = uri, kq_last_cached = 0, kq_language = []\<rparr>
                | t # ms \<Rightarrow>
                    (case parse_i64 t of None \<Rightarrow> Inl line
                     | Some n \<Rightarrow> Inr \<lparr>kq_uri = uri, kq_last_cached = n,
                                      kq_language = case ms of [] \<Rightarrow> [] | l # _ \<Rightarrow> l\<rparr>)))"

text \<open>The fields of a success: three numbers, then the MIME type.\<close>

definition parse_success_fields :: "string \<Rightarrow> nat \<Rightarrow> string \<Rightarrow> malformed_header + kepler_header" where
  "parse_success_fields line code rest =
     (case splitn 4 (CHR '' '') rest of
        a # b # c # ms \<Rightarrow>
          (case (parse_i64 a, parse_i64 b, parse_i64 c) of
             (Some n, Some u, Some x) \<Rightarrow>
               (case ms of [] \<Rightarrow> Inl line
                | m # _ \<Rightarrow>
                    let mime = trim m in
                    if mime = [] then Inl line
                    else Inr (KHSuccess code \<lparr>ci_length = n, ci_last_updated = u, ci_expires = x\<rparr> mime))
           | _ \<Rightarrow> Inl line)
      | _ \<Rightarrow> Inl line)"

definition kepler_parse_header :: "string \<Rightarrow> malformed_header + kepler_header" where
  "kepler_parse_header line0 =
     (let line = trim_newlines line0 in
      case line of
        d0 # d1 # tail \<Rightarrow>
          if \<not> is_digit d0 \<or> \<not> is_digit d1 then Inl line
          else let code = digit_val d0 * 10 + digit_val d1 in
          (case kepler_from_code code of None \<Rightarrow> Inl line
           | Some st \<Rightarrow>
               let rest = trim_start tail in
               if st = KSuccess then parse_success_fields line code rest
               else if st = KUnchanged then
                 (case parse_i64 (hd (split_all (CHR '' '') rest)) of
                    None \<Rightarrow> Inl line | Some x \<Rightarrow> Inr (KHUnchanged code x))
               else Inr (KHMeta code st rest))
      | _ \<Rightarrow> Inl line)"

fun format_header :: "kepler_header \<Rightarrow> string" where
  "format_header (KHSuccess code c mime) =
     show_nat code @ '' '' @ show_int (ci_length c) @ '' '' @ show_int (ci_last_updated c) @ '' ''
     @ show_int (ci_expires c) @ '' '' @ mime @ CRLF"
| "format_header (KHUnchanged code x) = show_nat code @ '' '' @ show_int x @ CRLF"
| "format_header (KHMeta code st meta) =
     (if meta = [] then show_nat code @ CRLF else show_nat code @ '' '' @ meta @ CRLF)"

section \<open>The client\<close>

datatype kepler_error = KpBadUrl string | KpConnect | KpIo | KpProtocol string

record kepler_response =
  kr_header :: kepler_header
  kr_body :: string

fun response_cache :: "kepler_response \<Rightarrow> cache_info option" where
  "response_cache r = (case kr_header r of KHSuccess _ c _ \<Rightarrow> Some c | _ \<Rightarrow> None)"

fun response_mime :: "kepler_response \<Rightarrow> string option" where
  "response_mime r = (case kr_header r of KHSuccess _ _ m \<Rightarrow> Some m | _ \<Rightarrow> None)"

definition kepler_read_body :: "kepler_header \<Rightarrow> string \<Rightarrow> stream_end \<Rightarrow> kepler_error + string" where
  "kepler_read_body h rest e =
     (case h of
        KHSuccess _ c _ \<Rightarrow>
          if has_length c then
            (case read_capped (nat (ci_length c)) rest e of Inl _ \<Rightarrow> Inl KpIo | Inr b \<Rightarrow> Inr b)
          else (case e of Eof \<Rightarrow> Inr rest | Broken \<Rightarrow> Inl KpIo)
      | _ \<Rightarrow> Inr [])"

text \<open>\<open>exchange\<close> against a peer that answers \<open>answer w\<close> to the bytes \<open>w\<close>.\<close>

definition kepler_exchange ::
    "(string \<Rightarrow> string \<times> stream_end) \<Rightarrow> string \<Rightarrow> kepler_error + kepler_response" where
  "kepler_exchange answer request =
     (case answer request of (input, e) \<Rightarrow>
        (case push_line MAX_URI [] input e of
           (PushFailed, _) \<Rightarrow> Inl KpIo
         | (PushOverlong, _) \<Rightarrow> Inl (KpProtocol ''header line is unreasonable'')
         | (Pushed line, rest) \<Rightarrow>
             (case from_utf8 line of None \<Rightarrow> Inl (KpProtocol ''header is not UTF-8'')
              | Some t \<Rightarrow>
                (case kepler_parse_header t of Inl m \<Rightarrow> Inl (KpProtocol m)
                 | Inr h \<Rightarrow>
                   (case kepler_read_body h rest e of Inl x \<Rightarrow> Inl x
                    | Inr b \<Rightarrow> Inr \<lparr>kr_header = h, kr_body = b\<rparr>)))))"

definition KEPLER_PORT :: nat where "KEPLER_PORT = 2009"
definition KEPLER_TLS_PORT :: nat where "KEPLER_TLS_PORT = 10009"

text \<open>
  \<open>fetch\<close>: dialling is the environment, \<open>dial secure host port\<close> being the peer reached
  (\<open>None\<close> when the connection fails).
\<close>

definition kepler_fetch ::
    "url_parser \<Rightarrow> (bool \<Rightarrow> string \<Rightarrow> nat \<Rightarrow> (string \<Rightarrow> string \<times> stream_end) option) \<Rightarrow>
     string \<Rightarrow> int \<Rightarrow> string \<Rightarrow> kepler_error + kepler_response" where
  "kepler_fetch up dial u last_cached language =
     (case up u of None \<Rightarrow> Inl (KpBadUrl [])
      | Some p \<Rightarrow>
          if MAX_URI < length u then Inl (KpBadUrl (''URI exceeds '' @ show_nat MAX_URI @ '' bytes''))
          else if url_fragment p \<noteq> None then Inl (KpBadUrl ''kepler URIs carry no fragment'')
          else (case url_host p of None \<Rightarrow> Inl (KpBadUrl ''kepler URL has no host'')
           | Some host \<Rightarrow>
               if url_scheme p \<noteq> ''kepler'' \<and> url_scheme p \<noteq> ''keplers''
               then Inl (KpBadUrl (''scheme '' @ url_scheme p @ '' is not kepler''))
               else let secure = (url_scheme p = ''keplers'');
                        port = (case url_port p of Some n \<Rightarrow> n
                                | None \<Rightarrow> if secure then KEPLER_TLS_PORT else KEPLER_PORT) in
                    (case dial secure host port of None \<Rightarrow> Inl KpConnect
                     | Some answer \<Rightarrow> kepler_exchange answer (kepler_request_line u last_cached language))))"

section \<open>Header round trip\<close>

definition i64_ok :: "int \<Rightarrow> bool" where
  "i64_ok i \<longleftrightarrow> i64_min \<le> i \<and> i \<le> i64_max"

definition text_ok :: "string \<Rightarrow> bool" where
  "text_ok t \<longleftrightarrow> ws_head t = 0 \<and> (t = [] \<or> last t \<noteq> CR \<and> last t \<noteq> LF)"

fun kheader_ok :: "kepler_header \<Rightarrow> bool" where
  "kheader_ok (KHSuccess code c mime) \<longleftrightarrow> 20 \<le> code \<and> code < 30 \<and> i64_ok (ci_length c) \<and>
     i64_ok (ci_last_updated c) \<and> i64_ok (ci_expires c) \<and> mime \<noteq> [] \<and> trim mime = mime \<and> text_ok mime"
| "kheader_ok (KHUnchanged code x) \<longleftrightarrow> 70 \<le> code \<and> code < 80 \<and> i64_ok x"
| "kheader_ok (KHMeta code st meta) \<longleftrightarrow> kepler_from_code code = Some st \<and> st \<notin> {KSuccess, KUnchanged} \<and> text_ok meta"

text \<open>What follows the code.\<close>

fun kheader_rest :: "kepler_header \<Rightarrow> string" where
  "kheader_rest (KHSuccess code c mime) = show_int (ci_length c) @ '' '' @ show_int (ci_last_updated c) @ '' ''
     @ show_int (ci_expires c) @ '' '' @ mime"
| "kheader_rest (KHUnchanged code x) = show_int x"
| "kheader_rest (KHMeta code st meta) = meta"

text \<open>The header line without its line ending.\<close>

definition kheader_line :: "kepler_header \<Rightarrow> string" where
  "kheader_line h = show_nat (kepler_code h) @ (if kheader_rest h = [] then [] else CHR '' '' # kheader_rest h)"

lemma format_header_line: "format_header h = kheader_line h @ CRLF"
  by (cases h) (auto simp: kheader_line_def)

lemma kepler_from_code_range: "kepler_from_code code = Some st \<Longrightarrow> 10 \<le> code \<and> code < 80"
  by (auto simp: kepler_from_code_def Let_def split: if_splits)

lemma kepler_code_range: "kheader_ok h \<Longrightarrow> 10 \<le> kepler_code h \<and> kepler_code h < 100 \<and>
   kepler_from_code (kepler_code h) = Some (kheader_status h)"
proof (cases h)
  case (KHSuccess code c mime)
  assume "kheader_ok h"
  with KHSuccess have "code div 10 = 2" by auto
  with KHSuccess \<open>kheader_ok h\<close> show ?thesis by (simp add: kepler_from_code_def)
next
  case (KHUnchanged code x)
  assume "kheader_ok h"
  with KHUnchanged have "code div 10 = 7" by auto
  with KHUnchanged \<open>kheader_ok h\<close> show ?thesis by (simp add: kepler_from_code_def)
qed (use kepler_from_code_range in \<open>fastforce dest: kepler_from_code_range\<close>)

lemma last_visible: "visible s \<Longrightarrow> s \<noteq> [] \<Longrightarrow> last s \<noteq> CR \<and> last s \<noteq> LF"
  by (metis last_in_set visible_not_sp(2,3))

lemma kheader_last: "kheader_ok h \<Longrightarrow> last (kheader_line h) \<noteq> CR \<and> last (kheader_line h) \<noteq> LF \<and> kheader_line h \<noteq> []"
  by (cases h) (auto simp: kheader_line_def text_ok_def last_visible)

lemma ws_head_visible: "visible s \<Longrightarrow> s \<noteq> [] \<Longrightarrow> ws_head (s @ t) = 0"
  by (cases s) (auto intro: ws_head_ascii)

lemma kheader_rest_start: "kheader_ok h \<Longrightarrow> ws_head (kheader_rest h) = 0"
proof (cases h)
  case (KHUnchanged code x)
  show ?thesis using ws_head_visible [of "show_int x" "[]"] by (simp add: KHUnchanged)
qed (auto simp: text_ok_def ws_head_visible)

lemma parse_success_rest:
  assumes "kheader_ok (KHSuccess code c mime)"
  shows "parse_success_fields line code (kheader_rest (KHSuccess code c mime)) = Inr (KHSuccess code c mime)"
proof -
  have "splitn 4 (CHR '' '') (kheader_rest (KHSuccess code c mime)) =
      [show_int (ci_length c), show_int (ci_last_updated c), show_int (ci_expires c), mime]"
    by (simp add: eval_nat_numeral)
  then show ?thesis
    using assms by (simp add: parse_success_fields_def i64_ok_def del: kheader_rest.simps)
qed

lemma kepler_parse_line:
  assumes "kheader_ok h" "trim_newlines l = kheader_line h"
  shows "kepler_parse_header l = Inr h"
proof -
  note code = kepler_code_range [OF assms(1)]
  note digits = two_digits [OF code [THEN conjunct1] code [THEN conjunct2, THEN conjunct1]]
  have line: "kheader_line h = digit_char (kepler_code h div 10) # digit_char (kepler_code h mod 10)
      # (if kheader_rest h = [] then [] else CHR '' '' # kheader_rest h)"
    by (simp add: kheader_line_def digits(1))
  have rest: "trim_start (if kheader_rest h = [] then [] else CHR '' '' # kheader_rest h) = kheader_rest h"
    using kheader_rest_start [OF assms(1)] by (simp add: trim_start_ws trim_start_id)
  have "kepler_parse_header l = (if kheader_status h = KSuccess
      then parse_success_fields (kheader_line h) (kepler_code h) (kheader_rest h)
      else if kheader_status h = KUnchanged then
        (case parse_i64 (hd (split_all (CHR '' '') (kheader_rest h))) of
           None \<Rightarrow> Inl (kheader_line h) | Some x \<Rightarrow> Inr (KHUnchanged (kepler_code h) x))
      else Inr (KHMeta (kepler_code h) (kheader_status h) (kheader_rest h)))"
    unfolding kepler_parse_header_def assms(2) Let_def line list.case digits(4) rest
    using digits(2,3) code by simp
  then show ?thesis
    using assms(1) parse_success_rest [of "kepler_code h"]
    by (cases h) (auto simp: i64_ok_def simp del: kheader_rest.simps(1))
qed

lemma trim_newlines_line: "kheader_ok h \<Longrightarrow> trim_newlines (kheader_line h) = kheader_line h"
  using kheader_last [of h] by (auto intro: trim_newlines_id)

interpretation kepler_header: wire_codec kheader_ok format_header kepler_parse_header
proof
  fix h assume "kheader_ok h"
  then show "kepler_parse_header (format_header h) = Inr h"
    by (intro kepler_parse_line) (simp_all add: format_header_line trim_newlines_line)
qed

section \<open>The exchange\<close>

text \<open>The body the client takes from the bytes after the header.\<close>

fun kepler_body :: "kepler_header \<Rightarrow> string \<Rightarrow> string" where
  "kepler_body (KHSuccess _ c _) body = (if has_length c then take (nat (ci_length c)) body else body)"
| "kepler_body _ body = []"

text \<open>
  (C16) The client's exchange reads what a server writes with \<open>format_header\<close>: for every well-formed
  header, whatever its class, the same header comes back, with its code, cache metadata (the -1 of
  an unknown value included), MIME type or message; the body is the declared number of bytes, or
  everything up to the end of the stream when no length is declared, or nothing for the classes
  without body. A stream that ends early is no error: the bytes that came are the body, although
  the code documents that a declared length is read exactly.
\<close>

theorem kepler_exchange_correct:
  assumes "kheader_ok h" "valid_utf8 (kheader_line h)" "LF \<notin> set (kheader_line h)"
    and "length (kheader_line h) < MAX_URI" "answer request = (format_header h @ body, Eof)"
  shows "kepler_exchange answer request = Inr \<lparr>kr_header = h, kr_body = kepler_body h body\<rparr>"
proof -
  have line: "push_line MAX_URI [] (format_header h @ body) Eof = (Pushed (kheader_line h @ [CR]), body)"
    using push_line_crlf [OF assms(3,4), of body Eof] by (simp add: format_header_line)
  have utf8: "from_utf8 (kheader_line h @ [CR]) = Some (kheader_line h @ [CR])"
    using valid_utf8_append [OF assms(2), of "[CR]"] by (simp add: ascii_def)
  have parse: "kepler_parse_header (kheader_line h @ [CR]) = Inr h"
    using assms(1) by (intro kepler_parse_line) (simp_all add: trim_newlines_line)
  have "kepler_read_body h body Eof = Inr (kepler_body h body)"
    by (cases h) (auto simp: kepler_read_body_def read_capped_def)
  then show ?thesis
    using assms(5) by (simp add: kepler_exchange_def line utf8 parse)
qed

definition demo_kepler :: kepler_header where
  "demo_kepler = KHSuccess 20 \<lparr>ci_length = 5, ci_last_updated = -1, ci_expires = 9\<rparr> ''text/x''"

lemma demo_kepler_line: "kheader_line demo_kepler = ''20 5 -1 9 text/x''"
  by (simp add: demo_kepler_def kheader_line_def show_int_def show_nat.simps)

lemma kepler_exchange_witness:
  "kepler_exchange (\<lambda>_. (format_header demo_kepler @ ''abc'', Eof)) ''q'' = Inr \<lparr>kr_header = demo_kepler, kr_body = ''abc''\<rparr>"
proof -
  have "kheader_ok demo_kepler"
    using trim_visible [of "''text/x''"]
    by (simp add: demo_kepler_def i64_ok_def text_ok_def ws_head_ascii ascii_def ascii_ws_def between_def)
  moreover have "valid_utf8 (kheader_line demo_kepler)"
    unfolding demo_kepler_line by (rule ascii_valid_utf8) (simp add: ascii_def)
  ultimately have "kepler_exchange (\<lambda>_. (format_header demo_kepler @ ''abc'', Eof)) ''q''
      = Inr \<lparr>kr_header = demo_kepler, kr_body = kepler_body demo_kepler ''abc''\<rparr>"
    by (rule kepler_exchange_correct) (simp_all add: demo_kepler_line MAX_URI_def)
  then show ?thesis by (simp add: demo_kepler_def has_length_def)
qed

section \<open>Requests\<close>

lemma kepler_parse_request_line:
  assumes "uri \<noteq> []" "visible uri" "i64_ok t" "CHR '' '' \<notin> set l"
    and "m = [] \<and> (l = [] \<or> last l \<noteq> CR \<and> last l \<noteq> LF) \<or>
         (\<exists>x. m = CHR '' '' # x \<and> x \<noteq> [] \<and> last x \<noteq> CR \<and> last x \<noteq> LF)"
    and "length (kepler_request_line uri t (l @ m)) \<le> MAX_URI + 2"
  shows "kepler_parse_request (kepler_request_line uri t (l @ m)) =
    Inr \<lparr>kq_uri = uri, kq_last_cached = t, kq_language = l\<rparr>"
proof -
  let ?line = "uri @ CHR '' '' # show_int t @ CHR '' '' # l @ m"
  have wire: "kepler_request_line uri t (l @ m) = ?line @ CRLF"
    by (simp add: kepler_request_line_def)
  have "?line \<noteq> [] \<and> last ?line \<noteq> CR \<and> last ?line \<noteq> LF"
    using assms(5) by (cases "l = []") auto
  then have trim: "trim_newlines (?line @ CRLF) = ?line"
    unfolding trim_newlines_crlf by (intro trim_newlines_id) simp
  have "split_all (CHR '' '') (l @ m) = l # tl (split_all (CHR '' '') (l @ m))"
    using assms(4,5) by auto
  then obtain ps where "split_all (CHR '' '') (l @ m) = l # ps" by blast
  then have split: "split_all (CHR '' '') ?line = uri # show_int t # l # ps"
    using assms(2) by simp
  have "length ?line \<le> MAX_URI"
    using assms(6) unfolding wire by simp
  then show ?thesis
    unfolding kepler_parse_request_def wire trim Let_def split
    using assms(1,3) by (simp add: i64_ok_def)
qed

text \<open>
  The server's reading of a request inverts the client's writing of it when the language is
  one token, and cuts the language at its first space otherwise, so of an accept-language value
  with a list (\<open>da, en;q=0.7\<close>) only the first entry and its comma arrive.
\<close>

theorem kepler_request_language:
  assumes "uri \<noteq> []" "visible uri" "i64_ok t" "visible l"
    and "more_languages = [] \<or>
      (\<exists>x. more_languages = CHR '' '' # x \<and> x \<noteq> [] \<and> last x \<noteq> CR \<and> last x \<noteq> LF)"
    and "length (kepler_request_line uri t (l @ more_languages)) \<le> MAX_URI + 2"
  shows "kepler_parse_request (kepler_request_line uri t (l @ more_languages)) =
    Inr \<lparr>kq_uri = uri, kq_last_cached = t, kq_language = l\<rparr>"
  using assms last_visible [OF assms(4)] visible_not_sp(1) [OF assms(4)]
  by (intro kepler_parse_request_line) blast+

lemma kepler_request_language_witness:
  "kepler_parse_request (kepler_request_line ''kepler://h/'' 0 (''da,'' @ '' en'')) =
     Inr \<lparr>kq_uri = ''kepler://h/'', kq_last_cached = 0, kq_language = ''da,''\<rparr>"
  by (rule kepler_request_language)
    (simp_all add: ascii_def ascii_ws_def between_def i64_ok_def kepler_request_line_def MAX_URI_def
      show_int_def show_nat.simps)

text \<open>
  The limit of 1024 bytes is one on the URI for the client and one on the whole line for the
  server: a URI of 1021 to 1024 bytes, which \<open>fetch\<close> sends, is refused by \<open>parse_request\<close>.
\<close>

theorem kepler_long_uri_refused:
  assumes "visible uri" "1021 \<le> length uri" "length uri \<le> MAX_URI" "visible l" "l \<noteq> []"
  shows "kepler_parse_request (kepler_request_line uri t l) = Inl ''request exceeds 1024 bytes''"
proof -
  let ?line = "uri @ CHR '' '' # show_int t @ CHR '' '' # l"
  have "1 \<le> length (show_int t)" "1 \<le> length l"
    using assms(5) show_int_not_Nil [of t] by (auto simp: Suc_le_eq simp del: show_int_not_Nil)
  then have len: "MAX_URI < length ?line"
    using assms(2) by (simp add: MAX_URI_def)
  have "last ?line = last l" using assms(5) by simp
  then have trim: "trim_newlines (?line @ CRLF) = ?line"
    using last_visible [OF assms(4,5)] unfolding trim_newlines_crlf by (intro trim_newlines_id) simp
  have wire: "kepler_request_line uri t l = ?line @ CRLF"
    by (simp add: kepler_request_line_def)
  show ?thesis
    unfolding kepler_parse_request_def wire trim Let_def
    using len by (simp add: MAX_URI_def show_nat.simps)
qed

lemma kepler_long_uri_witness:
  "kepler_parse_request (kepler_request_line (replicate 1024 (CHR ''a'')) 0 ''en'') = Inl ''request exceeds 1024 bytes''"
  by (rule kepler_long_uri_refused) (simp_all add: visible_def ascii_def ascii_ws_def between_def MAX_URI_def)

end
