(* ===== verification/Text_Protocol.thy ===== *)
theory Text_Protocol
  imports Rust_Words Line_Server Url_Iface
begin

text \<open>
  The Text protocol (\<open>crates/text-protocol/src/lib.rs\<close>): the three statuses, the response header,
  the body grammar with its link lines, and the exchange. The URL parser is a parameter; dialling,
  plain or TLS, is the environment.
\<close>

section \<open>Grammar\<close>

definition TEXT_PORT :: nat where "TEXT_PORT = 1961"
definition TEXT_TLS_PORT :: nat where "TEXT_TLS_PORT = 1965"
definition NOISE_PORT :: nat where "NOISE_PORT = 1968"

datatype text_status = TxOk | TxRedirect | TxNok

definition text_from_code :: "string \<Rightarrow> text_status option" where
  "text_from_code c =
     (if c = ''20'' then Some TxOk else if c = ''30'' then Some TxRedirect
      else if c = ''40'' then Some TxNok else None)"

record text_header =
  th_status :: text_status
  th_meta :: string

definition text_parse_header :: "string \<Rightarrow> text_header option" where
  "text_parse_header line0 =
     (let line = trim_newlines line0;
          (code, meta) = (case split_once (CHR '' '') line of Some p \<Rightarrow> p | None \<Rightarrow> (line, []))
      in map_option (\<lambda>st. \<lparr>th_status = st, th_meta = trim meta\<rparr>) (text_from_code code))"

definition text_request_line :: "string \<Rightarrow> string" where
  "text_request_line iri = iri @ CRLF"

record text_link =
  tl_url :: string
  tl_attributes :: "(string \<times> string) list"
  tl_label :: "string option"

datatype text_line = TxText string | TxLink text_link

text \<open>One token of the loop over a link line, with the attributes and label parts so far.\<close>

definition link_token ::
    "(string \<times> string) list \<times> string list \<Rightarrow> string \<Rightarrow> (string \<times> string) list \<times> string list" where
  "link_token = (\<lambda>(attributes, label_parts) token.
     case split_once (CHR ''='') token of
       Some (key, val) \<Rightarrow>
         if label_parts = [] \<and> key \<noteq> [] then (attributes @ [(key, val)], label_parts)
         else (attributes, label_parts @ [token])
     | None \<Rightarrow> (attributes, label_parts @ [token]))"

definition text_parse_link :: "string \<Rightarrow> text_link" where
  "text_parse_link rest =
     (let tokens = split_whitespace rest;
          (attributes, label_parts) = foldl link_token ([], []) (drop 1 tokens)
      in \<lparr>tl_url = (case tokens of [] \<Rightarrow> [] | t # _ \<Rightarrow> t), tl_attributes = attributes,
          tl_label = (if label_parts \<noteq> [] then Some (join_with '' '' label_parts) else None)\<rparr>)"

definition parse_body_line :: "string \<Rightarrow> text_line" where
  "parse_body_line line =
     (case strip_prefix ''=>'' line of Some rest \<Rightarrow> TxLink (text_parse_link rest) | None \<Rightarrow> TxText line)"

definition parse_body :: "string \<Rightarrow> text_line list" where
  "parse_body body = map parse_body_line (str_lines body)"

section \<open>The client\<close>

datatype text_error = TxBadUrl | TxConnect | TxIo | TxLineTooLong | TxHeaderNotUtf8 | TxNotAStatus string

record text_response =
  tr_header :: text_header
  tr_body :: string

definition text_exchange :: "(string \<Rightarrow> string \<times> stream_end) \<Rightarrow> string \<Rightarrow> text_error + text_response" where
  "text_exchange answer iri =
     (case answer (text_request_line iri) of (input, e) \<Rightarrow>
      case push_line 4096 [] input e of
        (PushFailed, _) \<Rightarrow> Inl TxIo
      | (PushOverlong, _) \<Rightarrow> Inl TxLineTooLong
      | (Pushed line, body) \<Rightarrow>
        (case from_utf8 line of None \<Rightarrow> Inl TxHeaderNotUtf8
         | Some t \<Rightarrow>
           (case text_parse_header t of None \<Rightarrow> Inl (TxNotAStatus t)
            | Some h \<Rightarrow>
                if th_status h \<noteq> TxOk then Inr \<lparr>tr_header = h, tr_body = []\<rparr>
                else (case e of Broken \<Rightarrow> Inl TxIo | Eof \<Rightarrow> Inr \<lparr>tr_header = h, tr_body = body\<rparr>))))"

text \<open>
  \<open>fetch\<close> and \<open>fetch_tls\<close> differ in the default port and in how the stream is connected: \<open>dial\<close>.
\<close>

definition text_fetch ::
    "nat \<Rightarrow> url_parser \<Rightarrow> (string \<Rightarrow> nat \<Rightarrow> (string \<Rightarrow> string \<times> stream_end) option) \<Rightarrow> string \<Rightarrow>
     text_error + text_response" where
  "text_fetch default_port up dial iri =
     (case up iri of None \<Rightarrow> Inl TxBadUrl
      | Some u \<Rightarrow>
          if url_scheme u \<noteq> ''text'' then Inl TxBadUrl
          else (case url_host u of None \<Rightarrow> Inl TxBadUrl
           | Some host \<Rightarrow>
             (case dial host (case url_port u of Some n \<Rightarrow> n | None \<Rightarrow> default_port) of
                None \<Rightarrow> Inl TxConnect
              | Some answer \<Rightarrow> text_exchange answer iri)))"

section \<open>Link lines\<close>

text \<open>The reference reading of a link line: the attributes are the leading \<open>key=value\<close> tokens.\<close>

definition attribute_of :: "string \<Rightarrow> (string \<times> string) option" where
  "attribute_of token =
     (case split_once (CHR ''='') token of Some (k, v) \<Rightarrow> if k \<noteq> [] then Some (k, v) else None | None \<Rightarrow> None)"

definition is_attribute :: "string \<Rightarrow> bool" where
  "is_attribute token \<longleftrightarrow> attribute_of token \<noteq> None"

lemma link_token_label: "ls \<noteq> [] \<Longrightarrow> foldl link_token (as, ls) ts = (as, ls @ ts)"
  by (induction ts arbitrary: ls) (auto simp: link_token_def split: option.splits)

lemma link_token_attributes:
  "foldl link_token (as, []) ts =
     (as @ map (the \<circ> attribute_of) (takeWhile is_attribute ts), dropWhile is_attribute ts)"
proof (induction ts arbitrary: as)
  case (Cons t ts)
  show ?case
  proof (cases "attribute_of t")
    case None
    then have "link_token (as, []) t = (as, [t])"
      by (auto simp: link_token_def attribute_of_def split: option.splits if_splits)
    with None show ?thesis by (simp add: link_token_label is_attribute_def)
  next
    case (Some kv)
    then have "link_token (as, []) t = (as @ [kv], [])"
      by (auto simp: link_token_def attribute_of_def split: option.splits if_splits dest!: split_once_SomeD)
    with Some Cons show ?thesis by (simp add: is_attribute_def)
  qed
qed simp

text \<open>
  (C18) The loop over the tokens of a link line computes the grammar's reading of it: the first token
  is the target, the longest run of \<open>key=value\<close> tokens after it (with a non-empty key) is the
  attributes, in order, and all the rest, \<open>=\<close> or not, is the label, its words joined by one space.
\<close>

theorem text_link_equivalence:
  "text_parse_link rest =
     (case split_whitespace rest of
        [] \<Rightarrow> \<lparr>tl_url = [], tl_attributes = [], tl_label = None\<rparr>
      | target # tokens \<Rightarrow>
          \<lparr>tl_url = target,
           tl_attributes = map (the \<circ> attribute_of) (takeWhile is_attribute tokens),
           tl_label = (let label = dropWhile is_attribute tokens
                       in if label = [] then None else Some (join_with '' '' label))\<rparr>)"
  by (cases "split_whitespace rest") (simp_all add: text_parse_link_def link_token_attributes Let_def)

section \<open>Writing a body\<close>

definition link_words :: "text_link \<Rightarrow> string list \<Rightarrow> string list" where
  "link_words l label = tl_url l # map (\<lambda>(k, v). k @ CHR ''='' # v) (tl_attributes l) @ label"

text \<open>
  A link line in the grammar: visible tokens, keys without \<open>=\<close>, and a label whose first word is no
  attribute.
\<close>

definition link_ok :: "text_link \<Rightarrow> string list \<Rightarrow> bool" where
  "link_ok l label \<longleftrightarrow>
     is_word (tl_url l) \<and> (\<forall>(k, v) \<in> set (tl_attributes l). is_word k \<and> CHR ''='' \<notin> set k \<and> visible v) \<and>
     (\<forall>w \<in> set label. is_word w) \<and> (label \<noteq> [] \<longrightarrow> \<not> is_attribute (hd label)) \<and>
     tl_label l = (if label = [] then None else Some (join_with '' '' label))"

datatype body_item = PlainItem string | LinkItem text_link "string list"

fun item_ok :: "body_item \<Rightarrow> bool" where
  "item_ok (PlainItem t) \<longleftrightarrow> LF \<notin> set t \<and> (t = [] \<or> last t \<noteq> CR) \<and> \<not> starts_with ''=>'' t"
| "item_ok (LinkItem l label) \<longleftrightarrow> link_ok l label"

fun item_text :: "body_item \<Rightarrow> string" where
  "item_text (PlainItem t) = t"
| "item_text (LinkItem l label) = ''=> '' @ join_with '' '' (link_words l label)"

fun item_line :: "body_item \<Rightarrow> text_line" where
  "item_line (PlainItem t) = TxText t"
| "item_line (LinkItem l _) = TxLink l"

lemma equals_visible [simp]: "ascii (CHR ''='')" "\<not> ascii_ws (CHR ''='')"
  by (simp_all add: ascii_def ascii_ws_def between_def)

lemma link_words_ok: "link_ok l label \<Longrightarrow> \<forall>w \<in> set (link_words l label). is_word w"
  by (auto simp: link_ok_def link_words_def is_word_def)

lemma attribute_words:
  assumes "\<forall>(k, v) \<in> set as. is_word k \<and> CHR ''='' \<notin> set k \<and> visible v" "ls \<noteq> [] \<longrightarrow> \<not> is_attribute (hd ls)"
  shows "takeWhile is_attribute (map (\<lambda>(k, v). k @ CHR ''='' # v) as @ ls) = map (\<lambda>(k, v). k @ CHR ''='' # v) as"
    "dropWhile is_attribute (map (\<lambda>(k, v). k @ CHR ''='' # v) as @ ls) = ls"
    "map (the \<circ> attribute_of) (map (\<lambda>(k, v). k @ CHR ''='' # v) as) = as"
proof -
  have kv: "attribute_of (k @ CHR ''='' # v) = Some (k, v)" if "(k, v) \<in> set as" for k v
    using that assms(1) by (auto simp: attribute_of_def is_word_def)
  then have all: "\<forall>w \<in> set (map (\<lambda>(k, v). k @ CHR ''='' # v) as). is_attribute w"
    by (auto simp: is_attribute_def)
  have "takeWhile is_attribute ls = []" "dropWhile is_attribute ls = ls"
    using assms(2) by (cases ls; simp)+
  then show "takeWhile is_attribute (map (\<lambda>(k, v). k @ CHR ''='' # v) as @ ls) = map (\<lambda>(k, v). k @ CHR ''='' # v) as"
    "dropWhile is_attribute (map (\<lambda>(k, v). k @ CHR ''='' # v) as @ ls) = ls"
    by (simp_all only: takeWhile_append2 [OF bspec [OF all]] dropWhile_append2 [OF bspec [OF all]]) simp_all
  show "map (the \<circ> attribute_of) (map (\<lambda>(k, v). k @ CHR ''='' # v) as) = as"
    using kv by (induction as) auto
qed

lemma link_token_words:
  assumes "link_ok l label"
  shows "foldl link_token ([], []) (map (\<lambda>(k, v). k @ CHR ''='' # v) (tl_attributes l) @ label) = (tl_attributes l, label)"
proof -
  have ok: "\<forall>(k, v) \<in> set (tl_attributes l). is_word k \<and> CHR ''='' \<notin> set k \<and> visible v"
    "label \<noteq> [] \<longrightarrow> \<not> is_attribute (hd label)"
    using assms unfolding link_ok_def by blast+
  show ?thesis
    unfolding link_token_attributes attribute_words [OF ok] by (simp only: append_Nil)
qed

lemma parse_item_line: "item_ok i \<Longrightarrow> parse_body_line (item_text i) = item_line i"
proof (cases i)
  case (PlainItem t)
  assume "item_ok i"
  with PlainItem have "strip_prefix ''=>'' t = None"
    by (simp add: strip_prefix_def starts_with_def)
  then show ?thesis by (simp add: PlainItem parse_body_line_def)
next
  case (LinkItem l label)
  assume "item_ok i"
  with LinkItem have ok: "link_ok l label" by simp
  have "split_whitespace (CHR '' '' # join_with '' '' (link_words l label)) = link_words l label"
    by (simp add: split_whitespace_ws split_whitespace_join link_words_ok [OF ok])
  then have "text_parse_link (CHR '' '' # join_with '' '' (link_words l label)) = l"
    using link_token_words [OF ok] ok
    by (cases l) (simp add: text_parse_link_def link_words_def link_ok_def)
  then show ?thesis by (simp add: LinkItem parse_body_line_def)
qed

lemma item_text_eol: "item_ok i \<Longrightarrow> LF \<notin> set (item_text i) \<and> (item_text i = [] \<or> last (item_text i) \<noteq> CR)"
proof (cases i)
  case (LinkItem l label)
  assume "item_ok i"
  with LinkItem have "\<forall>w \<in> set (link_words l label). is_word w" by (simp add: link_words_ok)
  then have "LF \<notin> set (item_text i)" "CR \<notin> set (item_text i)"
    using join_words_no_eol by (simp_all add: LinkItem)
  then show ?thesis by (metis last_in_set)
qed simp

lemma str_lines_terminated:
  "\<forall>l \<in> set ls. LF \<notin> set l \<and> (l = [] \<or> last l \<noteq> CR) \<Longrightarrow> str_lines (concat (map (\<lambda>l. l @ [LF]) ls)) = ls"
  by (induction ls) (simp_all add: str_lines_lf strip_cr_id)

text \<open>
  Whatever lines a body is written with, text lines that are not link lines and link lines in
  the grammar, \<open>parse_body\<close> gives exactly these lines back, with targets, attributes and labels.
\<close>

theorem text_body_roundtrip:
  assumes "\<forall>i \<in> set items. item_ok i"
  shows "parse_body (concat (map (\<lambda>i. item_text i @ [LF]) items)) = map item_line items"
proof -
  have "str_lines (concat (map (\<lambda>l. l @ [LF]) (map item_text items))) = map item_text items"
    using assms item_text_eol by (intro str_lines_terminated) auto
  then show ?thesis
    using assms parse_item_line by (simp add: parse_body_def comp_def)
qed

section \<open>The exchange\<close>

definition text_code :: "text_status \<Rightarrow> string" where
  "text_code st = (case st of TxOk \<Rightarrow> ''20'' | TxRedirect \<Rightarrow> ''30'' | TxNok \<Rightarrow> ''40'')"

definition text_response_bytes :: "text_header \<Rightarrow> string \<Rightarrow> string" where
  "text_response_bytes h body = text_code (th_status h) @ '' '' @ th_meta h @ CRLF @ body"

lemma code_parses: "text_from_code (text_code st) = Some st" "CHR '' '' \<notin> set (text_code st)"
    "\<forall>c \<in> set (text_code st). ascii c" "LF \<notin> set (text_code st)" "length (text_code st) = 2"
  by (cases st; simp add: text_code_def text_from_code_def ascii_def)+

lemma text_header_line_parses:
  assumes "trim (th_meta h) = th_meta h"
  shows "text_parse_header ((text_code (th_status h) @ CHR '' '' # th_meta h) @ [CR]) = Some h"
proof (cases "th_meta h = []")
  case True
  have "trim_newlines (text_code (th_status h) @ '' '') = text_code (th_status h) @ '' ''"
    by (intro trim_newlines_id) simp
  then have "trim_newlines ((text_code (th_status h) @ CHR '' '' # th_meta h) @ [CR]) = text_code (th_status h) @ '' ''"
    unfolding trim_newlines_cr by (simp add: True)
  then show ?thesis
    using code_parses(1,2) [of "th_status h"] True by (cases h) (simp add: text_parse_header_def)
next
  case False
  let ?l = "text_code (th_status h) @ CHR '' '' # th_meta h"
  have "trim_newlines ?l = ?l"
    using trimmed_ends(2) [OF assms False] False by (intro trim_newlines_id) auto
  then have "trim_newlines (?l @ [CR]) = ?l" unfolding trim_newlines_cr .
  then show ?thesis
    using code_parses(1,2) [of "th_status h"] assms by (cases h) (simp add: text_parse_header_def)
qed

text \<open>
  A response \<open>20\<close>, \<open>30\<close> or \<open>40\<close> with a trimmed one-line meta is read back with its status
  and meta; the body is returned, whole, for a success and only then; and a header beyond 4,096
  bytes is refused.
\<close>

theorem text_exchange_correct:
  assumes "valid_utf8 (th_meta h)" "trim (th_meta h) = th_meta h" "LF \<notin> set (th_meta h)"
    and "answer (text_request_line iri) = (text_response_bytes h body, Eof)"
  shows "text_exchange answer iri =
    (if length (th_meta h) + 4 \<le> 4096
     then Inr \<lparr>tr_header = h, tr_body = (if th_status h = TxOk then body else [])\<rparr>
     else Inl TxLineTooLong)"
proof -
  let ?l = "text_code (th_status h) @ CHR '' '' # th_meta h"
  have lf: "LF \<notin> set ?l" "length ?l = length (th_meta h) + 3"
    using assms(3) code_parses(4,5) by simp_all
  show ?thesis
  proof (cases "length (th_meta h) + 4 \<le> 4096")
    case True
    then have p: "push_line 4096 [] (text_response_bytes h body) Eof = (Pushed (?l @ [CR]), body)"
      using lf push_line_crlf [of ?l 4096 body Eof] by (simp add: text_response_bytes_def)
    have "valid_utf8 (?l @ [CR])"
      using assms(1) code_parses(3) [of "th_status h"]
      by (intro valid_utf8_append ascii_valid_utf8 [of "text_code (th_status h)"]) (simp_all add: ascii_def)
    then show ?thesis
      using True text_header_line_parses [OF assms(2)] by (simp add: text_exchange_def assms(4) p)
  next
    case False
    then have "fst (push_line 4096 [] ((?l @ [CR]) @ LF # body) Eof) = PushOverlong"
      using lf by (intro push_line_overlong) simp_all
    then have "fst (push_line 4096 [] (text_response_bytes h body) Eof) = PushOverlong"
      by (simp add: text_response_bytes_def)
    with False show ?thesis
      by (cases "push_line 4096 [] (text_response_bytes h body) Eof") (simp add: text_exchange_def assms(4))
  qed
qed

section \<open>Concrete runs\<close>

definition demo_link :: text_link where
  "demo_link = \<lparr>tl_url = ''text://a.b/c'', tl_attributes = [(''rel'', ''license'')], tl_label = Some ''CC0 a=b''\<rparr>"

lemma text_body_witness:
  "parse_body (''hi'' @ [LF] @ ''=> text://a.b/c rel=license CC0 a=b'' @ [LF]) = [TxText ''hi'', TxLink demo_link]"
proof -
  have "link_ok demo_link [''CC0'', ''a=b'']"
    by (simp add: link_ok_def demo_link_def is_word_def is_attribute_def attribute_of_def ascii_def ascii_ws_def between_def)
  then show ?thesis
    using text_body_roundtrip [of "[PlainItem ''hi'', LinkItem demo_link [''CC0'', ''a=b'']]"]
    by (simp add: starts_with_def link_words_def demo_link_def)
qed

lemma text_exchange_witness:
  "text_exchange (\<lambda>w. (''20 text/plain'' @ CRLF @ ''hello'', Eof)) ''text://a.b/c'' =
     Inr \<lparr>tr_header = \<lparr>th_status = TxOk, th_meta = ''text/plain''\<rparr>, tr_body = ''hello''\<rparr>"
proof -
  have "valid_utf8 ''text/plain''" by code_simp
  moreover have "trim ''text/plain'' = ''text/plain''"
    by (intro visible_trim) (simp add: ascii_def ascii_ws_def between_def)
  ultimately show ?thesis
    using text_exchange_correct [of "\<lparr>th_status = TxOk, th_meta = ''text/plain''\<rparr>"
        "\<lambda>w. (''20 text/plain'' @ CRLF @ ''hello'', Eof)" "''text://a.b/c''" "''hello''"]
    by (simp add: text_response_bytes_def text_code_def)
qed

end
