(* ===== verification/Scorpion_Status.thy ===== *)
theory Scorpion_Status
  imports Rust_Str
begin

text \<open>
  Scorpion status codes (\<open>crates/scorpion-protocol/src/status.rs\<close>): the major classes, the
  two-digit code and \<open>split_parameters\<close>, which cuts a status line into the number of parameters
  its class prescribes.
\<close>

datatype major =
    Interactive | Input | Success | Redirect | TemporaryError | PermanentError
  | CertificateRequired | ReadyToReceive | Accepted

fun major_digit :: "major \<Rightarrow> nat" where
  "major_digit Interactive = 0"
| "major_digit Input = 1"
| "major_digit Success = 2"
| "major_digit Redirect = 3"
| "major_digit TemporaryError = 4"
| "major_digit PermanentError = 5"
| "major_digit CertificateRequired = 6"
| "major_digit ReadyToReceive = 7"
| "major_digit Accepted = 8"

definition major_from_digit :: "nat \<Rightarrow> major option" where
  "major_from_digit d =
     (if d = 0 then Some Interactive else if d = 1 then Some Input
      else if d = 2 then Some Success else if d = 3 then Some Redirect
      else if d = 4 then Some TemporaryError else if d = 5 then Some PermanentError
      else if d = 6 then Some CertificateRequired else if d = 7 then Some ReadyToReceive
      else if d = 8 then Some Accepted else None)"

fun major_has_body :: "major \<Rightarrow> bool" where
  "major_has_body Success = True"
| "major_has_body _ = False"

fun leading_parameters :: "major \<Rightarrow> nat" where
  "leading_parameters Success = 2"
| "leading_parameters Accepted = 2"
| "leading_parameters TemporaryError = 1"
| "leading_parameters CertificateRequired = 1"
| "leading_parameters _ = 0"

text \<open>
  \<open>Status(u8)\<close>: the field is private and every value is built by \<open>new\<close> or is one of the
  constants, so it stays below 90 (\<open>status_ok\<close>); \<open>major\<close> unwraps with \<open>expect\<close>, which
  \<open>status_major_Some\<close> shows never panics on such a value.
\<close>

type_synonym scorpion_status = nat

definition status_new :: "nat \<Rightarrow> nat \<Rightarrow> scorpion_status option" where
  "status_new mj mn = (if 8 < mj \<or> 9 < mn then None else Some (mj * 10 + mn))"

definition status_major :: "scorpion_status \<Rightarrow> major" where
  "status_major s = the (major_from_digit (s div 10))"

definition status_minor :: "scorpion_status \<Rightarrow> nat" where
  "status_minor s = s mod 10"

definition status_has_body :: "scorpion_status \<Rightarrow> bool" where
  "status_has_body s = major_has_body (status_major s)"

definition status_to_ascii :: "scorpion_status \<Rightarrow> string" where
  "status_to_ascii s = [digit_char (s div 10), digit_char (s mod 10)]"

definition STATUS_INPUT :: scorpion_status where "STATUS_INPUT = 10"
definition STATUS_OK :: scorpion_status where "STATUS_OK = 20"
definition STATUS_PARTIAL :: scorpion_status where "STATUS_PARTIAL = 21"
definition STATUS_TEMPORARY_REDIRECT :: scorpion_status where "STATUS_TEMPORARY_REDIRECT = 30"
definition STATUS_PERMANENT_REDIRECT :: scorpion_status where "STATUS_PERMANENT_REDIRECT = 31"
definition STATUS_SLOW_DOWN :: scorpion_status where "STATUS_SLOW_DOWN = 44"
definition STATUS_NOT_FOUND :: scorpion_status where "STATUS_NOT_FOUND = 51"
definition STATUS_BAD_REQUEST :: scorpion_status where "STATUS_BAD_REQUEST = 59"

text \<open>All the named codes, in the order of their declaration.\<close>

definition named_statuses :: "scorpion_status list" where
  "named_statuses =
     [0, STATUS_INPUT, STATUS_OK, STATUS_PARTIAL, 22, STATUS_TEMPORARY_REDIRECT, STATUS_PERMANENT_REDIRECT,
      40, 41, 42, 43, STATUS_SLOW_DOWN, 45, 50, STATUS_NOT_FOUND, 52, 53, 54, 55, 56, STATUS_BAD_REQUEST,
      60, 61, 62, 70, 71, 72, 80, 81, 82]"

lemmas status_consts = STATUS_INPUT_def STATUS_OK_def STATUS_PARTIAL_def
  STATUS_TEMPORARY_REDIRECT_def STATUS_PERMANENT_REDIRECT_def STATUS_SLOW_DOWN_def
  STATUS_NOT_FOUND_def STATUS_BAD_REQUEST_def

text \<open>The loop of \<open>split_parameters\<close>: at most \<open>n\<close> heads, then the remainder unless it is empty.\<close>

fun split_leading :: "nat \<Rightarrow> string \<Rightarrow> string list" where
  "split_leading 0 remainder = (if remainder = [] then [] else [remainder])"
| "split_leading (Suc n) remainder =
     (case split_once (CHR '' '') remainder of
        Some (head, tail) \<Rightarrow> head # split_leading n tail
      | None \<Rightarrow> if remainder = [] then [] else [remainder])"

definition split_parameters :: "scorpion_status \<Rightarrow> string \<Rightarrow> string list" where
  "split_parameters s rest =
     (if rest = [] then [] else split_leading (leading_parameters (status_major s)) rest)"

section \<open>Codes\<close>

definition status_ok :: "scorpion_status \<Rightarrow> bool" where
  "status_ok s \<longleftrightarrow> s < 90"

lemma major_from_digit_digit [simp]: "major_from_digit (major_digit m) = Some m"
  by (cases m) (simp_all add: major_from_digit_def)

lemma major_digit_from: "major_from_digit d = Some m \<Longrightarrow> major_digit m = d"
  by (auto simp: major_from_digit_def split: if_splits)

lemma major_from_digit_Some: "d < 9 \<Longrightarrow> \<exists>m. major_from_digit d = Some m"
  by (auto simp: major_from_digit_def)

lemma status_new_iff: "status_new mj mn = Some s \<longleftrightarrow> mj \<le> 8 \<and> mn \<le> 9 \<and> s = mj * 10 + mn"
  by (auto simp: status_new_def)

lemma status_new_ok: "status_new mj mn = Some s \<Longrightarrow> status_ok s"
  by (auto simp: status_new_iff status_ok_def)

lemma status_major_Some: "status_ok s \<Longrightarrow> major_from_digit (s div 10) = Some (status_major s)"
  using major_from_digit_Some [of "s div 10"] by (auto simp: status_ok_def status_major_def)

lemma status_new_digits: "status_ok s \<Longrightarrow> status_new (s div 10) (s mod 10) = Some s"
  by (auto simp: status_new_iff status_ok_def)

section \<open>Parameters\<close>

text \<open>
  The parameter lists a class can carry: at most one more than its leading fields, no space
  except in a final one that has all its leading fields before it, and no empty final one.
\<close>

fun params_ok :: "nat \<Rightarrow> string list \<Rightarrow> bool" where
  "params_ok n [] \<longleftrightarrow> True"
| "params_ok n [p] \<longleftrightarrow> p \<noteq> [] \<and> (n = 0 \<or> CHR '' '' \<notin> set p)"
| "params_ok 0 (p # q # ps) \<longleftrightarrow> False"
| "params_ok (Suc n) (p # q # ps) \<longleftrightarrow> CHR '' '' \<notin> set p \<and> params_ok n (q # ps)"

fun join_params :: "string list \<Rightarrow> string" where
  "join_params [] = []"
| "join_params [p] = p"
| "join_params (p # q # ps) = p @ CHR '' '' # join_params (q # ps)"

lemma params_ok_2 [simp]:
  "params_ok 2 (p # q # ps) \<longleftrightarrow> CHR '' '' \<notin> set p \<and> params_ok 1 (q # ps)"
  by (simp add: numeral_2_eq_2)

lemma split_leading_join:
  "ps \<noteq> [] \<Longrightarrow> params_ok n ps \<Longrightarrow> split_leading n (join_params ps) = ps"
proof (induction n ps rule: params_ok.induct)
  case (2 n p)
  then show ?case by (cases n) auto
qed auto

lemma join_params_not_Nil: "ps \<noteq> [] \<Longrightarrow> params_ok n ps \<Longrightarrow> join_params ps \<noteq> []"
  by (induction n ps rule: params_ok.induct) auto

lemma split_parameters_join:
  "params_ok (leading_parameters (status_major s)) ps \<Longrightarrow> split_parameters s (join_params ps) = ps"
  by (cases "ps = []") (auto simp: split_parameters_def split_leading_join join_params_not_Nil)

section \<open>The derived order\<close>

text \<open>
  \<open>Major\<close> and \<open>Status\<close> derive \<open>Ord\<close>: classes are ordered as they are declared, which is the order of
  their digits, and codes by their number.
\<close>

instantiation major :: linorder
begin

definition less_eq_major :: "major \<Rightarrow> major \<Rightarrow> bool" where
  "less_eq_major a b \<longleftrightarrow> major_digit a \<le> major_digit b"

definition less_major :: "major \<Rightarrow> major \<Rightarrow> bool" where
  "less_major a b \<longleftrightarrow> major_digit a < major_digit b"

instance
proof
  fix a b :: major
  show "a = b" if "a \<le> b" "b \<le> a"
    using that by (cases a; cases b) (simp_all add: less_eq_major_def)
qed (auto simp: less_eq_major_def less_major_def)

end

lemma major_digit_status: "status_ok s \<Longrightarrow> major_digit (status_major s) = s div 10"
  by (rule major_digit_from [OF status_major_Some])

lemma status_major_mono:
  "status_ok s \<Longrightarrow> status_ok t \<Longrightarrow> s \<le> t \<Longrightarrow> status_major s \<le> status_major t"
  by (simp add: less_eq_major_def major_digit_status div_le_mono)

text \<open>The named codes are distinct, and each is one that \<open>Status::new\<close> builds from its two digits.\<close>

lemma named_statuses_new:
  "distinct named_statuses \<and> (\<forall>s \<in> set named_statuses. status_new (s div 10) (s mod 10) = Some s)"
  by code_simp

end
