(* ===== verification/Scorpion_Request.thy ===== *)
theory Scorpion_Request
  imports Rust_Ascii
begin

text \<open>
  Scorpion requests (\<open>crates/scorpion-protocol/src/request.rs\<close>): the subprotocol byte, byte
  ranges, the parameter that each subprotocol reads in its own way, and the request line in both
  directions. The first character of a line is compared by its byte: a line whose first character
  is not ASCII has a first byte above 127, which names no subprotocol either.
\<close>

datatype subprotocol = Receive | Send | Interactive_Sub | Meta

fun subprotocol_byte :: "subprotocol \<Rightarrow> char" where
  "subprotocol_byte Receive = CHR ''R''"
| "subprotocol_byte Send = CHR ''S''"
| "subprotocol_byte Interactive_Sub = CHR ''I''"
| "subprotocol_byte Meta = CHR ''M''"

definition subprotocol_from_byte :: "char \<Rightarrow> subprotocol option" where
  "subprotocol_from_byte c =
     (if c = CHR ''R'' then Some Receive else if c = CHR ''S'' then Some Send
      else if c = CHR ''I'' then Some Interactive_Sub else if c = CHR ''M'' then Some Meta
      else None)"

record byte_range =
  range_start :: nat
  range_end :: "nat option"

definition range_new :: "nat \<Rightarrow> nat \<Rightarrow> byte_range" where
  "range_new a b = \<lparr>range_start = a, range_end = Some b\<rparr>"

definition range_from :: "nat \<Rightarrow> byte_range" where
  "range_from a = \<lparr>range_start = a, range_end = None\<rparr>"

text \<open>\<open>saturating_sub\<close> is subtraction of natural numbers.\<close>

definition range_len :: "byte_range \<Rightarrow> nat option" where
  "range_len r = map_option (\<lambda>e. e - range_start r) (range_end r)"

definition range_is_empty :: "byte_range \<Rightarrow> bool" where
  "range_is_empty r \<longleftrightarrow> range_len r = Some 0"

definition range_parse :: "string \<Rightarrow> byte_range option" where
  "range_parse text =
     (case split_once (CHR ''-'') text of None \<Rightarrow> None
      | Some (s, e) \<Rightarrow>
          (case parse_uint u64_max s of None \<Rightarrow> None
           | Some start \<Rightarrow>
               if e = [] then Some \<lparr>range_start = start, range_end = None\<rparr>
               else (case parse_uint u64_max e of None \<Rightarrow> None
                     | Some n \<Rightarrow> Some \<lparr>range_start = start, range_end = Some n\<rparr>)))"

definition range_show :: "byte_range \<Rightarrow> string" where
  "range_show r =
     (case range_end r of
        Some e \<Rightarrow> show_nat (range_start r) @ ''-'' @ show_nat e
      | None \<Rightarrow> show_nat (range_start r) @ ''-'')"

datatype parameter =
    NoParameter | Range byte_range | Version string | Hmac (hmac: string) (hmac_version: string)
  | Capabilities string | DesiredType string

fun parameter_render :: "parameter \<Rightarrow> string" where
  "parameter_render NoParameter = []"
| "parameter_render (Range r) = range_show r"
| "parameter_render (Version v) = v"
| "parameter_render (Hmac h v) = h @ ''@'' @ v"
| "parameter_render (Capabilities c) = c"
| "parameter_render (DesiredType k) = k"

datatype request_error =
  RqMalformed | RqUnknownSubprotocol | RqMalformedRange | RqRelativeUrl | RqTooLong

fun request_error_show :: "request_error \<Rightarrow> string" where
  "request_error_show RqMalformed = ''request line is malformed''"
| "request_error_show RqUnknownSubprotocol = ''first byte is not a known subprotocol''"
| "request_error_show RqMalformedRange = ''range parameter is malformed''"
| "request_error_show RqRelativeUrl = ''request URL has no scheme, and the scheme is mandatory''"
| "request_error_show RqTooLong = ''request line exceeds the permitted length''"

definition parameter_parse :: "subprotocol \<Rightarrow> string \<Rightarrow> request_error + parameter" where
  "parameter_parse sp text =
     (if text = [] then Inr NoParameter
      else case sp of
        Receive \<Rightarrow> (case range_parse text of None \<Rightarrow> Inl RqMalformedRange | Some r \<Rightarrow> Inr (Range r))
      | Send \<Rightarrow> (case split_once (CHR ''@'') text of
                   Some (h, v) \<Rightarrow> Inr (Hmac h v) | None \<Rightarrow> Inr (Version text))
      | Interactive_Sub \<Rightarrow> Inr (Capabilities text)
      | Meta \<Rightarrow> Inr (DesiredType text))"

record scorpion_request =
  rq_subprotocol :: subprotocol
  rq_parameter :: parameter
  rq_url :: string

definition request_receive :: "string \<Rightarrow> scorpion_request" where
  "request_receive u = \<lparr>rq_subprotocol = Receive, rq_parameter = NoParameter, rq_url = u\<rparr>"

definition request_receive_range :: "string \<Rightarrow> byte_range \<Rightarrow> scorpion_request" where
  "request_receive_range u r = \<lparr>rq_subprotocol = Receive, rq_parameter = Range r, rq_url = u\<rparr>"

definition request_meta :: "string \<Rightarrow> scorpion_request" where
  "request_meta u = \<lparr>rq_subprotocol = Meta, rq_parameter = NoParameter, rq_url = u\<rparr>"

definition request_send :: "string \<Rightarrow> string option \<Rightarrow> scorpion_request" where
  "request_send u v = \<lparr>rq_subprotocol = Send,
     rq_parameter = (case v of None \<Rightarrow> NoParameter | Some x \<Rightarrow> Version x), rq_url = u\<rparr>"

definition request_interactive :: "string \<Rightarrow> string option \<Rightarrow> scorpion_request" where
  "request_interactive u c = \<lparr>rq_subprotocol = Interactive_Sub,
     rq_parameter = (case c of None \<Rightarrow> NoParameter | Some x \<Rightarrow> Capabilities x), rq_url = u\<rparr>"

definition strip_fragment :: "string \<Rightarrow> string" where
  "strip_fragment u = (case split_once (CHR ''#'') u of None \<Rightarrow> u | Some (h, _) \<Rightarrow> h)"

definition scheme_char :: "char \<Rightarrow> bool" where
  "scheme_char c \<longleftrightarrow> is_ascii_alnum c \<or> c = CHR ''+'' \<or> c = CHR ''-'' \<or> c = CHR ''.''"

definition has_scheme :: "string \<Rightarrow> bool" where
  "has_scheme u =
     (case split_once (CHR '':'') u of None \<Rightarrow> False
      | Some (scheme, _) \<Rightarrow>
          (case scheme of [] \<Rightarrow> False
           | c # cs \<Rightarrow> is_ascii_alpha c \<and> list_all scheme_char cs))"

definition request_to_wire :: "scorpion_request \<Rightarrow> string" where
  "request_to_wire r =
     [subprotocol_byte (rq_subprotocol r)] @ parameter_render (rq_parameter r) @ '' ''
     @ strip_fragment (rq_url r) @ CRLF"

definition strip_eol :: "string \<Rightarrow> string" where
  "strip_eol line =
     (case strip_suffix CRLF line of Some l \<Rightarrow> l
      | None \<Rightarrow> (case strip_suffix [LF] line of Some l \<Rightarrow> l | None \<Rightarrow> line))"

definition request_parse :: "string \<Rightarrow> request_error + scorpion_request" where
  "request_parse line0 =
     (let line = strip_eol line0 in
      case line of [] \<Rightarrow> Inl RqMalformed
      | first # rest \<Rightarrow>
        (case subprotocol_from_byte first of None \<Rightarrow> Inl RqUnknownSubprotocol
         | Some sp \<Rightarrow>
           (case split_once (CHR '' '') rest of None \<Rightarrow> Inl RqMalformed
            | Some (parameter, u) \<Rightarrow>
                if u = [] then Inl RqMalformed
                else if \<not> has_scheme u then Inl RqRelativeUrl
                else (case parameter_parse sp parameter of Inl e \<Rightarrow> Inl e
                      | Inr p \<Rightarrow> Inr \<lparr>rq_subprotocol = sp, rq_parameter = p, rq_url = u\<rparr>))))"

section \<open>Well-formed requests\<close>

text \<open>
  A parameter belongs to its subprotocol, contains no space, is not empty, and a version without
  HMAC contains no \<open>@\<close>.
\<close>

fun parameter_ok :: "subprotocol \<Rightarrow> parameter \<Rightarrow> bool" where
  "parameter_ok sp NoParameter \<longleftrightarrow> True"
| "parameter_ok sp (Range r) \<longleftrightarrow> sp = Receive \<and> range_start r \<le> u64_max \<and>
     (case range_end r of None \<Rightarrow> True | Some e \<Rightarrow> e \<le> u64_max)"
| "parameter_ok sp (Version v) \<longleftrightarrow> sp = Send \<and> v \<noteq> [] \<and> CHR '' '' \<notin> set v \<and> CHR ''@'' \<notin> set v"
| "parameter_ok sp (Hmac h v) \<longleftrightarrow> sp = Send \<and> CHR '' '' \<notin> set h \<union> set v \<and> CHR ''@'' \<notin> set h"
| "parameter_ok sp (Capabilities c) \<longleftrightarrow> sp = Interactive_Sub \<and> c \<noteq> [] \<and> CHR '' '' \<notin> set c"
| "parameter_ok sp (DesiredType k) \<longleftrightarrow> sp = Meta \<and> k \<noteq> [] \<and> CHR '' '' \<notin> set k"

definition request_ok :: "scorpion_request \<Rightarrow> bool" where
  "request_ok r \<longleftrightarrow> parameter_ok (rq_subprotocol r) (rq_parameter r) \<and> has_scheme (rq_url r)"

lemma subprotocol_from_byte [simp]: "subprotocol_from_byte (subprotocol_byte sp) = Some sp"
  by (cases sp) (simp_all add: subprotocol_from_byte_def)

lemma subprotocol_from_byte_SomeD: "subprotocol_from_byte c = Some sp \<Longrightarrow> subprotocol_byte sp = c"
  by (auto simp: subprotocol_from_byte_def split: if_splits)

lemma range_parse_show:
  assumes "range_start r \<le> u64_max" "case range_end r of None \<Rightarrow> True | Some e \<Rightarrow> e \<le> u64_max"
  shows "range_parse (range_show r) = Some r"
  using assms by (cases "range_end r") (auto simp: range_parse_def range_show_def)

lemma range_parse_ok:
  assumes "range_parse t = Some r"
  shows "range_start r \<le> u64_max \<and> (case range_end r of None \<Rightarrow> True | Some e \<Rightarrow> e \<le> u64_max)"
  using assms by (auto simp: range_parse_def dest!: parse_uint_le split: option.splits if_splits prod.splits)

lemma range_show_not_Nil: "range_show r \<noteq> []"
  by (auto simp: range_show_def split: option.splits)

lemma range_show_no_space: "CHR '' '' \<notin> set (range_show r)"
  by (auto simp: range_show_def split: option.splits)

lemma parameter_parse_render:
  "parameter_ok sp p \<Longrightarrow> parameter_parse sp (parameter_render p) = Inr p"
  by (cases p) (auto simp: parameter_parse_def range_parse_show range_show_not_Nil)

lemma parameter_render_no_space: "parameter_ok sp p \<Longrightarrow> CHR '' '' \<notin> set (parameter_render p)"
  by (cases p) (auto simp: range_show_no_space)

lemma parameter_parse_ok:
  assumes "parameter_parse sp t = Inr p" "CHR '' '' \<notin> set t"
  shows "parameter_ok sp p"
  using assms
  by (auto simp: parameter_parse_def dest!: range_parse_ok split_once_SomeD
      split: if_splits subprotocol.splits option.splits)

text \<open>The fragment starts after the scheme, so dropping it keeps the scheme.\<close>

lemma strip_fragment_no_hash: "CHR ''#'' \<notin> set (strip_fragment u)"
  by (auto simp: strip_fragment_def split: option.splits dest!: split_once_SomeD)

lemma strip_fragment_idem [simp]: "strip_fragment (strip_fragment u) = strip_fragment u"
  using strip_fragment_no_hash [of u] by (simp add: strip_fragment_def [of "strip_fragment u"])

lemma scheme_char_no_hash: "scheme_char c \<Longrightarrow> c \<noteq> CHR ''#''"
  by (auto simp: scheme_char_def is_ascii_alnum_def is_ascii_alpha_def is_ascii_upper_def
      is_ascii_lower_def is_digit_def between_def)

lemma alpha_no_hash: "is_ascii_alpha c \<Longrightarrow> c \<noteq> CHR ''#''"
  using scheme_char_no_hash by (auto simp: scheme_char_def is_ascii_alnum_def)

lemma has_scheme_strip: 
  assumes "has_scheme u"
  shows "has_scheme (strip_fragment u)"
proof -
  from assms obtain c cs rest where u: "u = (c # cs) @ CHR '':'' # rest" and
    c: "is_ascii_alpha c" "list_all scheme_char cs" and colon: "CHR '':'' \<notin> set (c # cs)"
    by (auto simp: has_scheme_def split: option.splits list.splits dest!: split_once_SomeD)
  have hash: "CHR ''#'' \<notin> set (c # cs)"
    using c alpha_no_hash scheme_char_no_hash by (auto simp: list_all_iff)
  have "strip_fragment u = (c # cs) @ CHR '':'' # strip_fragment rest"
  proof (cases "split_once (CHR ''#'') rest")
    case None
    with hash have "CHR ''#'' \<notin> set u" by (auto simp: u)
    then have "strip_fragment u = u" by (simp add: strip_fragment_def)
    with None show ?thesis
      by (simp add: strip_fragment_def u)
  next
    case (Some p)
    then obtain h t where p: "p = (h, t)" "rest = h @ CHR ''#'' # t" "CHR ''#'' \<notin> set h"
      by (cases p) (auto dest!: split_once_SomeD)
    then have "split_once (CHR ''#'') (((c # cs) @ CHR '':'' # h) @ CHR ''#'' # t) =
        Some ((c # cs) @ CHR '':'' # h, t)"
      using hash by (intro split_once_append) auto
    with Some p show ?thesis
      by (simp add: strip_fragment_def u)
  qed
  then show ?thesis
    using c colon by (auto simp: has_scheme_def)
qed

lemma has_scheme_not_Nil: "has_scheme u \<Longrightarrow> u \<noteq> []"
  by (auto simp: has_scheme_def)

lemma strip_eol_crlf [simp]: "strip_eol (l @ CRLF) = l"
  by (simp only: strip_eol_def strip_suffix_append option.simps)

lemma strip_eol_id: "l = [] \<or> last l \<noteq> LF \<Longrightarrow> strip_eol l = l"
  by (auto simp: strip_eol_def split: option.splits dest!: strip_suffix_SomeD)

section \<open>Round trip\<close>

lemma request_parse_to_wire:
  assumes "request_ok r"
  shows "request_parse (request_to_wire r) = Inr (r\<lparr>rq_url := strip_fragment (rq_url r)\<rparr>)"
proof -
  have p: "parameter_ok (rq_subprotocol r) (rq_parameter r)" and u: "has_scheme (rq_url r)"
    using assms by (auto simp: request_ok_def)
  have line: "strip_eol (request_to_wire r) = subprotocol_byte (rq_subprotocol r)
      # parameter_render (rq_parameter r) @ CHR '' '' # strip_fragment (rq_url r)"
    using strip_eol_crlf [of "subprotocol_byte (rq_subprotocol r)
      # parameter_render (rq_parameter r) @ CHR '' '' # strip_fragment (rq_url r)"]
    by (simp add: request_to_wire_def)
  have u': "has_scheme (strip_fragment (rq_url r))" "strip_fragment (rq_url r) \<noteq> []"
    using has_scheme_strip [OF u] by (auto dest: has_scheme_not_Nil)
  show ?thesis
    unfolding request_parse_def line
    using parameter_render_no_space [OF p] parameter_parse_render [OF p] u'
    by simp
qed

lemma request_parse_ok:
  assumes "request_parse line = Inr r"
  shows "request_ok r"
  using assms
  by (auto simp: request_parse_def Let_def request_ok_def split: list.splits option.splits if_splits sum.splits
      dest!: split_once_SomeD parameter_parse_ok)

text \<open>
  The server's reading of a request inverts the client's writing of it: whatever line was
  accepted, writing the parsed request again and parsing it gives the same subprotocol, the same
  typed parameter (range, version, HMAC, capabilities or type) and the same URL without its
  fragment, which never goes on the wire.
\<close>

theorem scorpion_request_roundtrip:
  assumes "request_parse line = Inr r"
  shows "request_parse (request_to_wire r) = Inr (r\<lparr>rq_url := strip_fragment (rq_url r)\<rparr>)
    \<and> CHR ''#'' \<notin> set (strip_fragment (rq_url r)) \<and> request_ok r"
  using request_parse_to_wire request_parse_ok [OF assms] strip_fragment_no_hash by blast

lemma demo_range_request:
  "request_parse ''R3-9 scorpion://a/#x'' =
     Inr (request_receive_range ''scorpion://a/#x'' (range_new 3 9))"
  by (simp add: request_parse_def strip_eol_id subprotocol_from_byte_def has_scheme_def is_ascii_alpha_def
      is_ascii_lower_def is_ascii_upper_def scheme_char_def is_ascii_alnum_def between_def parameter_parse_def
      range_parse_def parse_uint_def is_digit_def nat_of_digits_def digit_val_def request_receive_range_def
      range_new_def)

lemma scorpion_request_roundtrip_witness:
  "request_parse (request_to_wire (request_receive_range ''scorpion://a/#x'' (range_new 3 9)))
     = Inr (request_receive_range ''scorpion://a/'' (range_new 3 9))"
  using scorpion_request_roundtrip [OF demo_range_request]
  by (simp add: request_receive_range_def strip_fragment_def)

end
