(* ===== verification/Scorpion_Response.thy ===== *)
theory Scorpion_Response
  imports Scorpion_Status Scorpion_Request
begin

text \<open>
  Scorpion response headers (\<open>crates/scorpion-protocol/src/response.rs\<close>): sizes, retry delays,
  certificate scopes, the status line in both directions and the accessors that read the
  parameters of each class.
\<close>

datatype size = KnownSize nat | UnknownSize

fun size_known :: "size \<Rightarrow> nat option" where
  "size_known (KnownSize n) = Some n"
| "size_known UnknownSize = None"

definition size_parse :: "string \<Rightarrow> size option" where
  "size_parse text =
     (if text = ''?'' then Some UnknownSize else map_option KnownSize (parse_uint u64_max text))"

fun size_show :: "size \<Rightarrow> string" where
  "size_show (KnownSize n) = show_nat n"
| "size_show UnknownSize = ''?''"

datatype retry_after = RetrySeconds nat | RetryUnknown

fun retry_seconds :: "retry_after \<Rightarrow> nat option" where
  "retry_seconds (RetrySeconds n) = Some n"
| "retry_seconds RetryUnknown = None"

definition retry_parse :: "string \<Rightarrow> retry_after option" where
  "retry_parse text =
     (if text = ''?'' then Some RetryUnknown
      else case parse_uint u32_max text of None \<Rightarrow> None
           | Some n \<Rightarrow> if n < 2 ^ 31 then Some (RetrySeconds n) else None)"

datatype scope_match = ScopeExact | ScopeAnyQuery | ScopePrefix | ScopeUnspecified

definition scope_from_char :: "char \<Rightarrow> scope_match option" where
  "scope_from_char c =
     (if c = CHR ''='' then Some ScopeExact else if c = CHR ''+'' then Some ScopeAnyQuery
      else if c = CHR ''*'' then Some ScopePrefix else if c = CHR ''-'' then Some ScopeUnspecified
      else None)"

record certificate_scope =
  scope_kind :: scope_match
  scope_url :: string

definition scope_parse :: "string \<Rightarrow> certificate_scope option" where
  "scope_parse text =
     (case text of [] \<Rightarrow> None
      | c # rest \<Rightarrow> (case scope_from_char c of None \<Rightarrow> None
                    | Some k \<Rightarrow> Some \<lparr>scope_kind = k, scope_url = rest\<rparr>))"

datatype response_error =
  RsMalformed | RsUnknownStatusClass | RsMissingParameters | RsMalformedSize | RsTooLong

record header =
  hd_status :: scorpion_status
  hd_parameters :: "string list"

definition header_parse :: "string \<Rightarrow> response_error + header" where
  "header_parse line0 =
     (case strip_eol line0 of
        d0 # d1 # tail \<Rightarrow>
          if \<not> is_digit d0 \<or> \<not> is_digit d1 then Inl RsMalformed
          else (case status_new (digit_val d0) (digit_val d1) of
                  None \<Rightarrow> Inl RsUnknownStatusClass
                | Some st \<Rightarrow>
                    if tail = [] then Inr \<lparr>hd_status = st, hd_parameters = split_parameters st []\<rparr>
                    else (case strip_prefix '' '' tail of
                            None \<Rightarrow> Inl RsMalformed
                          | Some rest \<Rightarrow> Inr \<lparr>hd_status = st, hd_parameters = split_parameters st rest\<rparr>))
      | _ \<Rightarrow> Inl RsMalformed)"

definition header_to_wire :: "header \<Rightarrow> string" where
  "header_to_wire h =
     status_to_ascii (hd_status h) @ concat (map (\<lambda>p. '' '' @ p) (hd_parameters h)) @ CRLF"

definition get_nth :: "'a list \<Rightarrow> nat \<Rightarrow> 'a option" where
  "get_nth xs i = (if i < length xs then Some (xs ! i) else None)"

record success =
  su_size :: size
  su_media_type :: string
  su_version :: "string option"

definition header_success :: "header \<Rightarrow> (response_error + success) option" where
  "header_success h =
     (let m = status_major (hd_status h); ps = hd_parameters h in
      if m \<noteq> Success \<and> m \<noteq> Accepted then None
      else if ps = [] \<and> m = Accepted then
        Some (Inr \<lparr>su_size = UnknownSize, su_media_type = [], su_version = None\<rparr>)
      else if length ps < 2 then Some (Inl RsMissingParameters)
      else (case size_parse (ps ! 0) of
              None \<Rightarrow> Some (Inl RsMalformedSize)
            | Some sz \<Rightarrow> Some (Inr \<lparr>su_size = sz, su_media_type = ps ! 1, su_version = get_nth ps 2\<rparr>)))"

definition header_redirect :: "header \<Rightarrow> string option" where
  "header_redirect h =
     (if status_major (hd_status h) = Redirect then get_nth (hd_parameters h) 0 else None)"

definition header_prompt :: "header \<Rightarrow> string option" where
  "header_prompt h =
     (if status_major (hd_status h) = Input then get_nth (hd_parameters h) 0 else None)"

definition header_temporary_error :: "header \<Rightarrow> (retry_after \<times> string option) option" where
  "header_temporary_error h =
     (if status_major (hd_status h) \<noteq> TemporaryError then None
      else Some (case Option.bind (get_nth (hd_parameters h) 0) retry_parse of
                   None \<Rightarrow> RetryUnknown | Some r \<Rightarrow> r,
                 get_nth (hd_parameters h) 1))"

definition header_certificate_request :: "header \<Rightarrow> (certificate_scope option \<times> string option) option" where
  "header_certificate_request h =
     (if status_major (hd_status h) \<noteq> CertificateRequired then None
      else Some (Option.bind (get_nth (hd_parameters h) 0) scope_parse, get_nth (hd_parameters h) 1))"

definition header_message :: "header \<Rightarrow> string option" where
  "header_message h =
     (case status_major (hd_status h) of
        PermanentError \<Rightarrow> get_nth (hd_parameters h) 0
      | TemporaryError \<Rightarrow> get_nth (hd_parameters h) 1
      | _ \<Rightarrow> None)"

section \<open>Status lines\<close>

definition header_ok :: "header \<Rightarrow> bool" where
  "header_ok h \<longleftrightarrow> status_ok (hd_status h) \<and>
     params_ok (leading_parameters (status_major (hd_status h))) (hd_parameters h)"

definition header_line :: "header \<Rightarrow> string" where
  "header_line h = status_to_ascii (hd_status h) @ concat (map (\<lambda>p. '' '' @ p) (hd_parameters h))"

lemma header_to_wire_line: "header_to_wire h = header_line h @ CRLF"
  by (simp add: header_to_wire_def header_line_def)

lemma concat_params: "ps \<noteq> [] \<Longrightarrow> concat (map (\<lambda>p. '' '' @ p) ps) = CHR '' '' # join_params ps"
  by (induction ps rule: join_params.induct) auto

lemma status_ascii_parse:
  assumes "status_ok s"
  shows "status_to_ascii s = [digit_char (s div 10), digit_char (s mod 10)]"
    "is_digit (digit_char (s div 10))" "is_digit (digit_char (s mod 10))"
    "status_new (digit_val (digit_char (s div 10))) (digit_val (digit_char (s mod 10))) = Some s"
proof -
  have d: "s div 10 < 10" "s mod 10 < 10"
    using assms by (auto simp: status_ok_def)
  show "is_digit (digit_char (s div 10))" "is_digit (digit_char (s mod 10))"
    using d by simp_all
  show "status_to_ascii s = [digit_char (s div 10), digit_char (s mod 10)]"
    by (simp add: status_to_ascii_def)
  show "status_new (digit_val (digit_char (s div 10))) (digit_val (digit_char (s mod 10))) = Some s"
    using d status_new_digits [OF assms] by simp
qed

lemma header_parse_strip:
  assumes "header_ok h" "strip_eol l = header_line h"
  shows "header_parse l = Inr h"
proof -
  have s: "status_ok (hd_status h)"
    and p: "params_ok (leading_parameters (status_major (hd_status h))) (hd_parameters h)"
    using assms by (auto simp: header_ok_def)
  note digits = status_ascii_parse [OF s]
  show ?thesis
  proof (cases "hd_parameters h = []")
    case True
    then show ?thesis
      using digits by (simp add: header_parse_def assms(2) header_line_def split_parameters_def)
  next
    case False
    then have line: "header_line h = digit_char (hd_status h div 10) # digit_char (hd_status h mod 10)
        # '' '' @ join_params (hd_parameters h)"
      unfolding header_line_def concat_params [OF False] digits(1) by simp
    show ?thesis
      unfolding header_parse_def assms(2) line
      using digits(2,3,4) split_parameters_join [OF p]
      by simp
  qed
qed

lemma header_parse_to_wire: "header_ok h \<Longrightarrow> header_parse (header_to_wire h) = Inr h"
  by (rule header_parse_strip) (simp_all add: header_to_wire_line)

text \<open>What is parsed is always a valid code, so \<open>major\<close> does not panic on it.\<close>

lemma header_parse_status_ok: "header_parse l = Inr h \<Longrightarrow> status_ok (hd_status h)"
  by (auto simp: header_parse_def dest: status_new_ok split: list.splits if_splits option.splits)

end
