(* ===== verification/Scorpion_Document.thy ===== *)
theory Scorpion_Document
  imports Rust_Bytes Codec
begin

text \<open>
  The Scorpion document format (\<open>crates/scorpion-protocol/src/document.rs\<close>): block types and
  encodings packed into one byte, the block encoder, the streaming reader and \<open>parse\<close>/\<open>encode\<close>.
  The format is exact in both directions: a buffer parses to a list of blocks iff it is the
  encoding of that list and every block is in canonical form.
\<close>

section \<open>Block types and encodings\<close>

datatype block_type =
    Paragraph | Heading u8 | Link | InputLink | InteractiveLink | AlternateService
  | Blockquote | Preformatted | Metadata | UnknownType u8

definition clamp :: "u8 \<Rightarrow> u8 \<Rightarrow> u8 \<Rightarrow> u8" where
  "clamp v lo hi = (if v < lo then lo else if hi < v then hi else v)"

fun block_type_value :: "block_type \<Rightarrow> u8" where
  "block_type_value Paragraph = 0x00"
| "block_type_value (Heading level) = clamp level 1 6"
| "block_type_value Link = 0x08"
| "block_type_value InputLink = 0x09"
| "block_type_value InteractiveLink = 0x0A"
| "block_type_value AlternateService = 0x0B"
| "block_type_value Blockquote = 0x0C"
| "block_type_value Preformatted = 0x0D"
| "block_type_value Metadata = 0x0F"
| "block_type_value (UnknownType v) = v AND 0x0F"

definition block_type_from_value :: "u8 \<Rightarrow> block_type" where
  "block_type_from_value v =
     (if v = 0x00 then Paragraph
      else if 0x01 \<le> v \<and> v \<le> 0x06 then Heading v
      else if v = 0x08 then Link
      else if v = 0x09 then InputLink
      else if v = 0x0A then InteractiveLink
      else if v = 0x0B then AlternateService
      else if v = 0x0C then Blockquote
      else if v = 0x0D then Preformatted
      else if v = 0x0F then Metadata
      else UnknownType v)"

fun is_link :: "block_type \<Rightarrow> bool" where
  "is_link Link = True"
| "is_link InputLink = True"
| "is_link InteractiveLink = True"
| "is_link AlternateService = True"
| "is_link _ = False"

datatype encoding = Tron8 | Pc | Iso2022 | Tron8Rtl | Iso2022Rtl | UnknownEncoding u8

fun encoding_value :: "encoding \<Rightarrow> u8" where
  "encoding_value Tron8 = 0x00"
| "encoding_value Pc = 0x10"
| "encoding_value Iso2022 = 0x20"
| "encoding_value Tron8Rtl = 0x80"
| "encoding_value Iso2022Rtl = 0xA0"
| "encoding_value (UnknownEncoding v) = v AND 0xF0"

definition encoding_from_value :: "u8 \<Rightarrow> encoding" where
  "encoding_from_value v =
     (if v = 0x00 then Tron8
      else if v = 0x10 then Pc
      else if v = 0x20 then Iso2022
      else if v = 0x80 then Tron8Rtl
      else if v = 0xA0 then Iso2022Rtl
      else UnknownEncoding v)"

fun is_rtl :: "encoding \<Rightarrow> bool" where
  "is_rtl Tron8Rtl = True"
| "is_rtl Iso2022Rtl = True"
| "is_rtl _ = False"

section \<open>Blocks\<close>

record block =
  blk_type :: block_type
  blk_encoding :: encoding
  blk_attribute :: "u8 list"
  blk_body :: "u8 list"

definition block_new :: "block_type \<Rightarrow> encoding \<Rightarrow> u8 list \<Rightarrow> block" where
  "block_new t e b = \<lparr>blk_type = t, blk_encoding = e, blk_attribute = [], blk_body = b\<rparr>"

definition block_link :: "u8 list \<Rightarrow> u8 list \<Rightarrow> encoding \<Rightarrow> block" where
  "block_link u t e = \<lparr>blk_type = Link, blk_encoding = e, blk_attribute = u, blk_body = t\<rparr>"

text \<open>
  An ASCII byte string is valid UTF-8 (\<open>ascii_valid_utf8\<close>), so the \<open>from_utf8\<close> of the
  code never fails after the ASCII test; it is kept as written.
\<close>

definition block_url :: "block \<Rightarrow> string option" where
  "block_url b =
     (if \<not> is_link (blk_type b) then None
      else let u = map byte_char (takeWhile (\<lambda>x. x \<noteq> 0) (blk_attribute b)) in
           if list_all ascii u then from_utf8 u else None)"

definition block_tag :: "block \<Rightarrow> u8" where
  "block_tag b = encoding_value (blk_encoding b) OR block_type_value (blk_type b)"

datatype document_error = Truncated | AttributeTooLong | BodyTooLong

definition MAX_BODY :: nat where "MAX_BODY = 0xFFFFFF"

definition encode_to :: "block \<Rightarrow> u8 list \<Rightarrow> document_error + u8 list" where
  "encode_to b out =
     (if u16_max < length (blk_attribute b) then Inl AttributeTooLong
      else if MAX_BODY < length (blk_body b) then Inl BodyTooLong
      else Inr (out @ [block_tag b]
                @ be16 (of_nat (length (blk_attribute b))) @ blk_attribute b
                @ drop 1 (be32 (of_nat (length (blk_body b)))) @ blk_body b))"

fun encode_blocks :: "block list \<Rightarrow> u8 list \<Rightarrow> document_error + u8 list" where
  "encode_blocks [] out = Inr out"
| "encode_blocks (b # bs) out =
     (case encode_to b out of Inl e \<Rightarrow> Inl e | Inr out' \<Rightarrow> encode_blocks bs out')"

definition encode :: "block list \<Rightarrow> document_error + u8 list" where
  "encode bs = encode_blocks bs []"

section \<open>The reader\<close>

text \<open>
  \<open>Blocks\<close> holds the unread bytes. Its \<open>take\<close> empties them on failure, so the iterator
  yields one error and then ends.
\<close>

definition blocks_take :: "nat \<Rightarrow> u8 list \<Rightarrow> (document_error + u8 list) \<times> u8 list" where
  "blocks_take n rest =
     (if length rest < n then (Inl Truncated, []) else (Inr (take n rest), drop n rest))"

definition blocks_read :: "u8 list \<Rightarrow> (document_error + block) \<times> u8 list" where
  "blocks_read r0 =
     (case blocks_take 1 r0 of (Inl e, r) \<Rightarrow> (Inl e, r) | (Inr tag, r1) \<Rightarrow>
      case blocks_take 2 r1 of (Inl e, r) \<Rightarrow> (Inl e, r) | (Inr al, r2) \<Rightarrow>
      case blocks_take (unat (un_be16 (al ! 0) (al ! 1))) r2 of (Inl e, r) \<Rightarrow> (Inl e, r) | (Inr attr, r3) \<Rightarrow>
      case blocks_take 3 r3 of (Inl e, r) \<Rightarrow> (Inl e, r) | (Inr bl, r4) \<Rightarrow>
      case blocks_take (unat (un_be32 0 (bl ! 0) (bl ! 1) (bl ! 2))) r4 of (Inl e, r) \<Rightarrow> (Inl e, r) | (Inr body, r5) \<Rightarrow>
        (Inr \<lparr>blk_type = block_type_from_value (tag ! 0 AND 0x0F),
              blk_encoding = encoding_from_value (tag ! 0 AND 0xF0),
              blk_attribute = attr, blk_body = body\<rparr>, r5))"

definition blocks_next :: "u8 list \<Rightarrow> (document_error + block) option \<times> u8 list" where
  "blocks_next rest =
     (if rest = [] then (None, [])
      else case blocks_read rest of (x, rest') \<Rightarrow> (Some x, rest'))"

lemma blocks_read_shorter: "blocks_read r = (Inr b, r') \<Longrightarrow> length r' < length r"
  by (auto simp: blocks_read_def blocks_take_def split: if_splits)

text \<open>\<open>collect\<close> into a \<open>Result\<close> stops at the first error.\<close>

function parse_document :: "u8 list \<Rightarrow> document_error + block list" where
  "parse_document bytes =
     (case blocks_next bytes of
        (None, _) \<Rightarrow> Inr []
      | (Some (Inl e), _) \<Rightarrow> Inl e
      | (Some (Inr b), rest) \<Rightarrow> map_sum id (Cons b) (parse_document rest))"
  by pat_completeness auto
termination
  by (relation "measure length")
    (auto simp: blocks_next_def dest!: blocks_read_shorter split: if_splits prod.splits)

declare parse_document.simps [simp del]

section \<open>Canonical blocks\<close>

text \<open>The block types and encodings a tag byte can name.\<close>

fun type_ok :: "block_type \<Rightarrow> bool" where
  "type_ok (Heading v) \<longleftrightarrow> 1 \<le> v \<and> v \<le> 6"
| "type_ok (UnknownType v) \<longleftrightarrow> v = 0x07 \<or> v = 0x0E"
| "type_ok _ \<longleftrightarrow> True"

fun encoding_ok :: "encoding \<Rightarrow> bool" where
  "encoding_ok (UnknownEncoding v) \<longleftrightarrow> v AND 0xF0 = v \<and> v \<notin> {0x00, 0x10, 0x20, 0x80, 0xA0}"
| "encoding_ok _ \<longleftrightarrow> True"

definition block_ok :: "block \<Rightarrow> bool" where
  "block_ok b \<longleftrightarrow> type_ok (blk_type b) \<and> encoding_ok (blk_encoding b) \<and>
     length (blk_attribute b) \<le> u16_max \<and> length (blk_body b) \<le> MAX_BODY"

definition block_bytes :: "block \<Rightarrow> u8 list" where
  "block_bytes b =
     [block_tag b] @ be16 (of_nat (length (blk_attribute b))) @ blk_attribute b
     @ drop 1 (be32 (of_nat (length (blk_body b)))) @ blk_body b"

definition read_block :: "u8 list \<Rightarrow> document_error + block \<times> u8 list" where
  "read_block bs = (case blocks_read bs of (Inl e, _) \<Rightarrow> Inl e | (Inr b, r) \<Rightarrow> Inr (b, r))"

lemma nibble_cases:
  fixes v :: u8
  assumes "v = w AND 0x0F"
  shows "v \<in> {0, 1, 2, 3, 4, 5, 6, 7, 8, 9, 10, 11, 12, 13, 14, 15}"
proof -
  have "v \<le> 0x0F" unfolding assms by (rule word_and_le1)
  then have "unat v \<le> 15" by (simp add: word_le_nat_alt)
  then have "unat v \<in> {0, 1, 2, 3, 4, 5, 6, 7, 8, 9, 10, 11, 12, 13, 14, 15}"
    unfolding insert_iff empty_iff by presburger
  then have "(of_nat (unat v) :: u8) \<in> of_nat ` {0, 1, 2, 3, 4, 5, 6, 7, 8, 9, 10, 11, 12, 13, 14, 15}"
    by blast
  then show ?thesis by simp
qed

lemma type_value_from [simp]: "block_type_value (block_type_from_value (w AND 0x0F)) = w AND 0x0F"
  using nibble_cases [OF refl, of w] by (auto simp: block_type_from_value_def clamp_def)

lemma type_ok_from [simp]: "type_ok (block_type_from_value (w AND 0x0F))"
  using nibble_cases [OF refl, of w] by (auto simp: block_type_from_value_def)

lemma type_from_value [simp]: "type_ok t \<Longrightarrow> block_type_from_value (block_type_value t) = t"
  by (cases t) (auto simp: block_type_from_value_def clamp_def)

lemma encoding_value_from [simp]: "encoding_value (encoding_from_value (w AND 0xF0)) = w AND 0xF0"
  by (auto simp: encoding_from_value_def)

lemma encoding_ok_from [simp]: "encoding_ok (encoding_from_value (w AND 0xF0))"
  by (auto simp: encoding_from_value_def)

lemma encoding_from_value [simp]: "encoding_ok e \<Longrightarrow> encoding_from_value (encoding_value e) = e"
  by (cases e) (auto simp: encoding_from_value_def)

text \<open>The two halves of the tag do not meet.\<close>

lemma type_value_nibble: "type_ok t \<Longrightarrow> block_type_value t AND 0x0F = block_type_value t"
proof (cases t)
  case (Heading v)
  assume "type_ok t"
  with Heading have "unat v \<in> {1, 2, 3, 4, 5, 6}"
    by (auto simp: word_le_nat_alt)
  then have "(of_nat (unat v) :: u8) \<in> of_nat ` {1, 2, 3, 4, 5, 6}"
    by blast
  with Heading show ?thesis by (auto simp: clamp_def)
qed auto

lemma type_value_high: "type_ok t \<Longrightarrow> block_type_value t AND 0xF0 = 0"
  by (subst type_value_nibble [symmetric]) (simp_all add: and.assoc)

lemma encoding_value_nibble: "encoding_value e AND 0xF0 = encoding_value e"
  by (cases e) (auto simp: and.assoc)

lemma encoding_value_low: "encoding_value e AND 0x0F = 0"
  by (subst encoding_value_nibble [symmetric]) (simp add: and.assoc)

lemma tag_low: "block_ok b \<Longrightarrow> block_tag b AND 0x0F = block_type_value (blk_type b)"
  by (simp add: block_tag_def block_ok_def bit.conj_disj_distrib2 type_value_nibble encoding_value_low)

lemma tag_high: "block_ok b \<Longrightarrow> block_tag b AND 0xF0 = encoding_value (blk_encoding b)"
  by (simp add: block_tag_def block_ok_def bit.conj_disj_distrib2 type_value_high encoding_value_nibble)

lemma tag_join: "((w :: u8) AND 0xF0) OR (w AND 0x0F) = w"
proof -
  have "(w AND 0xF0) OR (w AND 0x0F) = w AND (0xF0 OR 0x0F)"
    by (simp only: bit.conj_disj_distrib)
  also have "(0xF0 OR 0x0F :: u8) = - 1" by simp
  finally show ?thesis by simp
qed

text \<open>What each field of the encoding reads back as.\<close>

lemma blocks_take_append: "length xs = n \<Longrightarrow> blocks_take n (xs @ ys) = (Inr xs, ys)"
  by (auto simp: blocks_take_def)

lemma blocks_take_InrD:
  "blocks_take n r = (Inr xs, r') \<Longrightarrow> r = xs @ r' \<and> length xs = n"
  by (auto simp: blocks_take_def split: if_splits)

definition be24 :: "nat \<Rightarrow> u8 list" where
  "be24 n = drop 1 (be32 (of_nat n))"

lemma length_be24 [simp]: "length (be24 n) = 3"
  by (simp add: be24_def)

lemma un_be16_nth: "n \<le> u16_max \<Longrightarrow> unat (un_be16 (be16 (of_nat n) ! 0) (be16 (of_nat n) ! 1)) = n"
  by (simp add: be_simps unat_of_nat_le be16_def)

lemma un_be24_nth:
  assumes "n \<le> MAX_BODY"
  shows "unat (un_be32 0 (be24 n ! 0) (be24 n ! 1) (be24 n ! 2)) = n"
proof -
  have "(of_nat n :: u32) < 0x1000000"
    using assms by (simp add: word_less_nat_alt unat_of_nat_le MAX_BODY_def)
  then show ?thesis
    using assms by (simp add: be24_roundtrip unat_of_nat_le MAX_BODY_def be24_def be32_def)
qed

lemma block_bytes_eq:
  "block_bytes b @ rest =
     [block_tag b] @ be16 (of_nat (length (blk_attribute b))) @ blk_attribute b
     @ be24 (length (blk_body b)) @ blk_body b @ rest"
  by (simp add: block_bytes_def be24_def)

lemma read_block_bytes:
  assumes "block_ok b"
  shows "read_block (block_bytes b @ rest) = Inr (b, rest)"
proof -
  have len: "length (blk_attribute b) \<le> u16_max" "length (blk_body b) \<le> MAX_BODY"
    and ok: "type_ok (blk_type b)" "encoding_ok (blk_encoding b)"
    using assms by (auto simp: block_ok_def)
  have t: "blocks_take 1 (block_bytes b @ rest) =
      (Inr [block_tag b], be16 (of_nat (length (blk_attribute b))) @ blk_attribute b
       @ be24 (length (blk_body b)) @ blk_body b @ rest)"
    unfolding block_bytes_eq by (rule blocks_take_append) simp
  show ?thesis
    unfolding read_block_def blocks_read_def t
    by (simp add: blocks_take_append un_be16_nth [OF len(1)] un_be24_nth [OF len(2)]
        tag_low [OF assms] tag_high [OF assms] ok del: One_nat_def)
qed

lemma two_bytes: "length xs = 2 \<Longrightarrow> xs = [xs ! 0, xs ! 1]"
  by (auto simp: numeral_2_eq_2 length_Suc_conv)

lemma three_bytes: "length xs = 3 \<Longrightarrow> xs = [xs ! 0, xs ! 1, xs ! 2]"
  by (auto simp: numeral_3_eq_3 length_Suc_conv)

lemma be24_un_be32: "be24 (unat (un_be32 0 a b c)) = [a, b, c]"
  by (simp add: be24_def be_simps)

lemma read_block_exact:
  assumes "read_block bs = Inr (b, rest)"
  shows "block_ok b \<and> bs = block_bytes b @ rest"
proof -
  from assms obtain tag al attr bl r1 r2 r3 r4 where
    r1: "blocks_take 1 bs = (Inr tag, r1)" and r2: "blocks_take 2 r1 = (Inr al, r2)" and
    r3: "blocks_take (unat (un_be16 (al ! 0) (al ! 1))) r2 = (Inr attr, r3)" and
    r4: "blocks_take 3 r3 = (Inr bl, r4)" and
    r5: "blocks_take (unat (un_be32 0 (bl ! 0) (bl ! 1) (bl ! 2))) r4 = (Inr (blk_body b), rest)" and
    b: "blk_type b = block_type_from_value (tag ! 0 AND 0x0F)"
       "blk_encoding b = encoding_from_value (tag ! 0 AND 0xF0)" "blk_attribute b = attr"
    unfolding read_block_def blocks_read_def by (auto split: prod.splits sum.splits)
  note d = r1 [THEN blocks_take_InrD] r2 [THEN blocks_take_InrD] r3 [THEN blocks_take_InrD]
    r4 [THEN blocks_take_InrD] r5 [THEN blocks_take_InrD]
  obtain w where w: "tag = [w]"
    using d(1) by (cases tag) auto
  have tag: "block_tag b = w"
    unfolding block_tag_def b w by (simp add: tag_join)
  have al: "be16 (of_nat (length attr)) = al"
    using d(2,3) two_bytes [of al] by (simp add: be_simps)
  have bl: "be24 (length (blk_body b)) = bl"
    using d(4,5) three_bytes [of bl] by (simp add: be24_un_be32)
  have "bs = [w] @ al @ attr @ bl @ blk_body b @ rest"
    using d w by simp
  then have "bs = block_bytes b @ rest"
    unfolding block_bytes_eq b(3) tag al bl .
  moreover have "block_ok b"
    unfolding block_ok_def
    using d(3,5) unsigned_less [of "un_be16 (al ! 0) (al ! 1)", where 'a = nat]
      unat_un_be32_0_le [of "bl ! 0" "bl ! 1" "bl ! 2"]
    by (simp add: b MAX_BODY_def)
  ultimately show ?thesis by blast
qed

lemma block_bytes_not_Nil: "block_bytes b \<noteq> []"
  by (simp add: block_bytes_def)

lemma parse_document_step:
  "bs \<noteq> [] \<Longrightarrow> parse_document bs =
     (case read_block bs of Inl e \<Rightarrow> Inl e | Inr (x, rest) \<Rightarrow> map_sum id (Cons x) (parse_document rest))"
  by (subst parse_document.simps) (auto simp: blocks_next_def read_block_def split: prod.splits sum.splits)

interpretation doc: exact_block_codec block_ok block_bytes read_block parse_document
proof
  show "parse_document [] = Inr []"
    by (simp add: parse_document.simps blocks_next_def)
qed (simp_all add: read_block_bytes block_bytes_not_Nil parse_document_step read_block_exact)

section \<open>Parsing and encoding\<close>

lemma encode_to_ok:
  "length (blk_attribute b) \<le> u16_max \<Longrightarrow> length (blk_body b) \<le> MAX_BODY \<Longrightarrow>
     encode_to b out = Inr (out @ block_bytes b)"
  by (simp add: encode_to_def block_bytes_def)

lemma encode_blocks_ok:
  "list_all block_ok bs \<Longrightarrow> encode_blocks bs out = Inr (out @ concat (map block_bytes bs))"
  by (induction bs arbitrary: out) (auto simp: encode_to_ok block_ok_def)

lemma encode_eq: "list_all block_ok bs \<Longrightarrow> encode bs = Inr (concat (map block_bytes bs))"
  by (simp add: encode_def encode_blocks_ok)

lemma blocks_read_error: "blocks_read r = (Inl e, r') \<Longrightarrow> e = Truncated \<and> r' = []"
  by (auto simp: blocks_read_def blocks_take_def split: if_splits)

lemma parse_document_error: "parse_document bs = Inl e \<Longrightarrow> e = Truncated"
proof (induction "length bs" arbitrary: bs rule: less_induct)
  case less
  from less.prems obtain x rest where n: "blocks_next bs = (Some x, rest)"
    by (cases "blocks_next bs"; cases "fst (blocks_next bs)") (auto simp: parse_document.simps)
  then have r: "blocks_read bs = (x, rest)"
    by (auto simp: blocks_next_def split: if_splits prod.splits)
  show ?case
  proof (cases x)
    case (Inl e')
    with less.prems n r show ?thesis
      by (subst (asm) parse_document.simps) (auto dest: blocks_read_error)
  next
    case (Inr b)
    with less.prems n have "parse_document rest = Inl e"
      by (subst (asm) parse_document.simps) (cases "parse_document rest", auto)
    with less.hyps [of rest] r Inr show ?thesis
      by (auto dest: blocks_read_shorter)
  qed
qed

text \<open>
  (C25) The document format is exact: a buffer parses to a list of blocks if and only if every
  block is canonical (a type and an encoding a tag byte can name, lengths within the fields) and
  the buffer is what \<open>encode\<close> writes for the list. So parsing inverts encoding, encoding
  inverts parsing (no block, type, encoding or byte is lost, the unknown ones included) and a
  buffer that is no encoding is refused.
\<close>

theorem scorpion_document_exact:
  "parse_document bytes = Inr bs \<longleftrightarrow> list_all block_ok bs \<and> encode bs = Inr bytes"
  by (auto simp: doc.parse_all_iff encode_eq)

text \<open>
  (C26) Every cut through a document is noticed: a proper prefix of the encoding of canonical blocks
  parses to an error, and the only one, \<open>Truncated\<close>, unless the cut falls between two blocks,
  where it parses to the blocks before it.
\<close>

theorem scorpion_document_cut:
  assumes "list_all block_ok bs" "encode bs = Inr (pre @ suf)"
  shows "parse_document pre = Inl Truncated \<or>
    (\<exists>n \<le> length bs. encode (take n bs) = Inr pre \<and> parse_document pre = Inr (take n bs))"
proof (cases "parse_document pre")
  case (Inl e)
  then show ?thesis by (simp add: parse_document_error)
next
  case (Inr cs)
  then have cs: "list_all block_ok cs" "pre = concat (map block_bytes cs)"
    by (auto simp: doc.parse_all_iff)
  have "parse_document (pre @ suf) = Inr bs"
    using assms by (simp add: doc.parse_all_iff encode_eq)
  moreover have "parse_document (pre @ suf) = map_sum id ((@) cs) (parse_document suf)"
    using cs by (simp add: doc.parse_all_concat_append)
  ultimately obtain ds where "bs = cs @ ds"
    by (cases "parse_document suf") auto
  with cs Inr show ?thesis
    by (intro disjI2 exI [of _ "length cs"]) (simp add: encode_eq)
qed

definition demo_document :: "block list" where
  "demo_document = [block_new (Heading 2) Pc [72, 105], block_link [97, 58] [120] (UnknownEncoding 0x30)]"

lemma demo_document_encode:
  "encode demo_document = Inr ([0x12, 0, 0, 0, 0, 2, 72] @ [105, 0x38, 0, 2, 97, 58, 0, 0, 1, 120])"
  by (simp add: demo_document_def encode_def encode_to_def block_new_def block_link_def be16_def
      be32_def block_tag_def clamp_def MAX_BODY_def)

lemma scorpion_document_cut_witness:
  "parse_document [0x12, 0, 0, 0, 0, 2, 72] = Inl Truncated \<or>
   (\<exists>n \<le> length demo_document. encode (take n demo_document) = Inr [0x12, 0, 0, 0, 0, 2, 72] \<and>
      parse_document [0x12, 0, 0, 0, 0, 2, 72] = Inr (take n demo_document))"
  by (rule scorpion_document_cut [OF _ demo_document_encode])
    (simp add: demo_document_def block_ok_def block_new_def block_link_def MAX_BODY_def)

end
