(* ===== verification/Scorpion_Net.thy ===== *)
theory Scorpion_Net
  imports Scorpion_Response Scorpion_Document Rust_Io Url_Iface
begin

text \<open>
  The Scorpion server and client (\<open>crates/scorpion-protocol/src/server.rs\<close>, \<open>client.rs\<close>): a
  source answers requests with replies, \<open>serve_connection\<close> turns one request line into one
  response, \<open>exchange\<close> is the client's side of it. A connection is the bytes the peer sent and
  how its stream ends; the answer is the list of bytes written. Writes are taken to succeed.
\<close>

section \<open>Server\<close>

datatype reply =
    Content (content_body: string) (content_type: string) (content_version: "string option")
  | Partial (partial_body: string) (partial_total: nat) (partial_type: string)
  | RedirectTo (redirect_url: string) (redirect_permanent: bool)
  | AskInput string
  | StatusReply scorpion_status string

definition reply_document :: "block list \<Rightarrow> document_error + reply" where
  "reply_document bs =
     (case encode bs of Inl e \<Rightarrow> Inl e
      | Inr body \<Rightarrow> Inr (Content (map byte_char body) ''application/x-scorpion'' None))"

definition reply_text :: "string \<Rightarrow> reply" where
  "reply_text b = Content b ''text/plain;charset=utf-8'' None"

definition reply_not_found :: reply where
  "reply_not_found = StatusReply STATUS_NOT_FOUND ''not found''"

fun reply_render :: "reply \<Rightarrow> header \<times> string" where
  "reply_render (Content body mt ver) =
     (\<lparr>hd_status = STATUS_OK,
       hd_parameters = [size_show (KnownSize (length body)), mt]
                       @ (case ver of Some v \<Rightarrow> [v] | None \<Rightarrow> [])\<rparr>, body)"
| "reply_render (Partial body total_size mt) =
     (\<lparr>hd_status = STATUS_PARTIAL, hd_parameters = [show_nat total_size, mt]\<rparr>, body)"
| "reply_render (RedirectTo u permanent) =
     (\<lparr>hd_status = if permanent then STATUS_PERMANENT_REDIRECT else STATUS_TEMPORARY_REDIRECT,
       hd_parameters = [u]\<rparr>, [])"
| "reply_render (AskInput prompt) = (\<lparr>hd_status = STATUS_INPUT, hd_parameters = [prompt]\<rparr>, [])"
| "reply_render (StatusReply st message) =
     (\<lparr>hd_status = st, hd_parameters = if message = [] then [] else [message]\<rparr>, [])"

text \<open>The \<open>Source\<close> trait, and its default methods.\<close>

record source =
  src_receive :: "string \<Rightarrow> byte_range option \<Rightarrow> reply"
  src_meta :: "string \<Rightarrow> string option \<Rightarrow> reply"
  src_send :: "string \<Rightarrow> parameter \<Rightarrow> reply"
  src_interactive :: "string \<Rightarrow> string \<Rightarrow> reply"

definition default_source :: "(string \<Rightarrow> byte_range option \<Rightarrow> reply) \<Rightarrow> source" where
  "default_source recv = \<lparr>src_receive = recv,
     src_meta = (\<lambda>_ _. StatusReply STATUS_BAD_REQUEST ''meta is not implemented''),
     src_send = (\<lambda>_ _. StatusReply STATUS_BAD_REQUEST ''send is not implemented''),
     src_interactive = (\<lambda>_ _. StatusReply STATUS_BAD_REQUEST ''interactive is not implemented'')\<rparr>"

definition MAX_REQUEST_LINE :: nat where "MAX_REQUEST_LINE = 8192"

definition read_request_line :: "nat \<Rightarrow> string \<Rightarrow> stream_end \<Rightarrow> read_failure + string" where
  "read_request_line limit input e =
     (case fst (line_loop limit [] input e) of Inl x \<Rightarrow> Inl x
      | Inr line \<Rightarrow> (case from_utf8 (pop_cr line) of None \<Rightarrow> Inl NotUtf8 | Some s \<Rightarrow> Inr s))"

definition write_reply :: "reply \<Rightarrow> string" where
  "write_reply r =
     (case reply_render r of (h, body) \<Rightarrow>
        header_to_wire h @ (if body \<noteq> [] then body else []))"

definition dispatch :: "source \<Rightarrow> scorpion_request \<Rightarrow> reply" where
  "dispatch src r =
     (case (rq_subprotocol r, rq_parameter r) of
        (Receive, Range rg) \<Rightarrow> src_receive src (rq_url r) (Some rg)
      | (Receive, _) \<Rightarrow> src_receive src (rq_url r) None
      | (Meta, DesiredType kind) \<Rightarrow> src_meta src (rq_url r) (Some kind)
      | (Meta, _) \<Rightarrow> src_meta src (rq_url r) None
      | (Send, p) \<Rightarrow> src_send src (rq_url r) p
      | (Interactive_Sub, Capabilities codes) \<Rightarrow> src_interactive src (rq_url r) codes
      | (Interactive_Sub, _) \<Rightarrow> src_interactive src (rq_url r) [])"

text \<open>The result and the bytes written.\<close>

definition serve_connection ::
    "source \<Rightarrow> string \<Rightarrow> stream_end \<Rightarrow> (read_failure + scorpion_request option) \<times> string" where
  "serve_connection src input e =
     (case read_request_line MAX_REQUEST_LINE input e of
        Inl x \<Rightarrow> (Inl x, [])
      | Inr line \<Rightarrow>
          (case request_parse line of
             Inl er \<Rightarrow> (Inr None, write_reply (StatusReply STATUS_BAD_REQUEST (request_error_show er)))
           | Inr r \<Rightarrow> (Inr (Some r), write_reply (dispatch src r))))"

section \<open>Client\<close>

datatype scorpion_client_error =
    CeIo read_failure | CeResponse response_error | CeUrl string
  | CeBodyTooLarge nat nat | CeTruncated nat nat

record scorpion_response =
  rsp_header :: header
  rsp_body :: string

definition response_text :: "scorpion_response \<Rightarrow> string option" where
  "response_text r = from_utf8 (rsp_body r)"

record limits =
  max_body :: nat
  max_header :: nat

definition default_limits :: limits where
  "default_limits = \<lparr>max_body = 32 * 1024 * 1024, max_header = MAX_REQUEST_LINE\<rparr>"

text \<open>The line and what is left of the stream.\<close>

definition client_read_line ::
    "nat \<Rightarrow> string \<Rightarrow> stream_end \<Rightarrow> (scorpion_client_error + string) \<times> string" where
  "client_read_line limit input e =
     (case line_loop limit [] input e of
        (Inl LineTooLong, rest) \<Rightarrow> (Inl (CeResponse RsTooLong), rest)
      | (Inl x, rest) \<Rightarrow> (Inl (CeIo x), rest)
      | (Inr line, rest) \<Rightarrow>
          (case from_utf8 (pop_cr line) of
             None \<Rightarrow> (Inl (CeResponse RsMalformed), rest) | Some s \<Rightarrow> (Inr s, rest)))"

definition read_to_end_capped :: "nat \<Rightarrow> string \<Rightarrow> stream_end \<Rightarrow> scorpion_client_error + string" where
  "read_to_end_capped cap s e =
     (case read_capped cap s e of Inl x \<Rightarrow> Inl (CeIo x) | Inr b \<Rightarrow> Inr b)"

definition read_body ::
    "limits \<Rightarrow> byte_range option \<Rightarrow> header \<Rightarrow> size \<Rightarrow> string \<Rightarrow> stream_end \<Rightarrow> scorpion_client_error + string" where
  "read_body lim rg h declared rest e =
     (if hd_status h = STATUS_PARTIAL then
        read_to_end_capped
          (min (case Option.bind rg range_len of None \<Rightarrow> max_body lim | Some n \<Rightarrow> n) (max_body lim)) rest e
      else case declared of
        KnownSize n \<Rightarrow>
          if max_body lim < n then Inl (CeBodyTooLarge n (max_body lim))
          else (case fst (read_exact n rest e) of
                  Inr b \<Rightarrow> Inr b
                | Inl UnexpectedEof \<Rightarrow> Inl (CeTruncated n 0)
                | Inl x \<Rightarrow> Inl (CeIo x))
      | UnknownSize \<Rightarrow> read_to_end_capped (max_body lim) rest e)"

definition read_response ::
    "limits \<Rightarrow> byte_range option \<Rightarrow> string \<Rightarrow> stream_end \<Rightarrow> scorpion_client_error + scorpion_response" where
  "read_response lim rg input e =
     (case client_read_line (max_header lim) input e of
        (Inl x, _) \<Rightarrow> Inl x
      | (Inr line, rest) \<Rightarrow>
        (case header_parse line of
           Inl x \<Rightarrow> Inl (CeResponse x)
         | Inr h \<Rightarrow>
             if status_major (hd_status h) \<noteq> Success then Inr \<lparr>rsp_header = h, rsp_body = []\<rparr>
             else (case header_success h of
                     Some (Inl x) \<Rightarrow> Inl (CeResponse x)
                   | s \<Rightarrow>
                     (case read_body lim rg h
                             (case s of Some (Inr su) \<Rightarrow> su_size su | _ \<Rightarrow> UnknownSize) rest e of
                        Inl x \<Rightarrow> Inl x
                      | Inr b \<Rightarrow> Inr \<lparr>rsp_header = h, rsp_body = b\<rparr>))))"

text \<open>
  \<open>exchange\<close> over a stream whose peer answers \<open>answer w\<close> to the bytes \<open>w\<close> it was sent.
\<close>

definition exchange ::
    "(string \<Rightarrow> string \<times> stream_end) \<Rightarrow> scorpion_request \<Rightarrow> limits \<Rightarrow> scorpion_client_error + scorpion_response" where
  "exchange answer r lim =
     (case answer (request_to_wire r) of (input, e) \<Rightarrow>
        read_response lim (case rq_parameter r of Range rg \<Rightarrow> Some rg | _ \<Rightarrow> None) input e)"

definition DEFAULT_PORT :: nat where "DEFAULT_PORT = 1517"

text \<open>The \<open>url\<close> crate's parser is the parameter \<open>up\<close>; its error text is not modelled.\<close>

definition authority :: "url_parser \<Rightarrow> string \<Rightarrow> scorpion_client_error + (string \<times> nat)" where
  "authority up u =
     (case up u of None \<Rightarrow> Inl (CeUrl [])
      | Some p \<Rightarrow> (case url_host p of None \<Rightarrow> Inl (CeUrl (u @ '' names no host''))
                  | Some host \<Rightarrow> Inr (host, case url_port p of Some n \<Rightarrow> n | None \<Rightarrow> DEFAULT_PORT)))"

text \<open>\<open>fetch\<close>: plain TCP, with the connection (or the error of connecting) from \<open>dial\<close>.\<close>

definition scorpion_fetch ::
    "url_parser \<Rightarrow> (string \<Rightarrow> nat \<Rightarrow> read_failure + (string \<Rightarrow> string \<times> stream_end)) \<Rightarrow>
     scorpion_request \<Rightarrow> limits \<Rightarrow> scorpion_client_error + scorpion_response" where
  "scorpion_fetch up dial r lim =
     (case authority up (rq_url r) of Inl e \<Rightarrow> Inl e
      | Inr (host, port) \<Rightarrow>
          (case dial host port of Inl x \<Rightarrow> Inl (CeIo x) | Inr stream \<Rightarrow> exchange stream r lim))"

definition is_tls_hello :: "char \<Rightarrow> bool" where
  "is_tls_hello c \<longleftrightarrow> c = CHR 0x16"

section \<open>What the client sees of a reply\<close>

text \<open>
  The contract of an exchange, without sockets: the reply's header, and its body limited by what
  the client asked for and accepts.
\<close>

fun client_view :: "limits \<Rightarrow> byte_range option \<Rightarrow> reply \<Rightarrow> scorpion_client_error + scorpion_response" where
  "client_view lim rg (Content body mt ver) =
     (if max_body lim < length body then Inl (CeBodyTooLarge (length body) (max_body lim))
      else Inr \<lparr>rsp_header = fst (reply_render (Content body mt ver)), rsp_body = body\<rparr>)"
| "client_view lim rg (Partial body n mt) =
     Inr \<lparr>rsp_header = fst (reply_render (Partial body n mt)),
          rsp_body = take (min (case Option.bind rg range_len of None \<Rightarrow> max_body lim | Some k \<Rightarrow> k)
                               (max_body lim)) body\<rparr>"
| "client_view lim rg r = Inr \<lparr>rsp_header = fst (reply_render r), rsp_body = []\<rparr>"

text \<open>A line that travels: valid UTF-8, no LF, shorter than the reader's limit.\<close>

definition line_ok :: "nat \<Rightarrow> string \<Rightarrow> bool" where
  "line_ok limit l \<longleftrightarrow> valid_utf8 l \<and> LF \<notin> set l \<and> length l < limit"

text \<open>
  Replies a status line can carry: the parameters fit the class, sizes fit \<open>u64\<close>, and
  \<open>Reply::Status\<close> is not used for the class that has a body.
\<close>

definition reply_ok :: "limits \<Rightarrow> reply \<Rightarrow> bool" where
  "reply_ok lim r \<longleftrightarrow>
     header_ok (fst (reply_render r)) \<and> line_ok (max_header lim) (header_line (fst (reply_render r))) \<and>
     (case r of Content body _ _ \<Rightarrow> length body \<le> u64_max
      | Partial _ n _ \<Rightarrow> n \<le> u64_max
      | StatusReply st _ \<Rightarrow> status_major st \<noteq> Success
      | _ \<Rightarrow> True)"

definition request_line :: "scorpion_request \<Rightarrow> string" where
  "request_line r = [subprotocol_byte (rq_subprotocol r)] @ parameter_render (rq_parameter r) @ '' ''
     @ strip_fragment (rq_url r)"

lemma request_to_wire_line: "request_to_wire r = request_line r @ CRLF"
  by (simp add: request_to_wire_def request_line_def)

lemma strip_eol_no_lf: "LF \<notin> set l \<Longrightarrow> strip_eol l = l"
  by (cases l rule: rev_cases) (auto intro!: strip_eol_id)

lemma read_request_line_wire:
  "line_ok limit l \<Longrightarrow> read_request_line limit (l @ CRLF @ rest) e = Inr l"
  using line_loop_crlf [of l limit rest e] by (simp add: read_request_line_def line_ok_def)

lemma client_read_line_wire:
  "line_ok limit l \<Longrightarrow> client_read_line limit (l @ CRLF @ rest) e = (Inr l, rest)"
  using line_loop_crlf [of l limit rest e] by (simp add: client_read_line_def line_ok_def)

lemma request_parse_line:
  assumes "request_ok r" "line_ok n (request_line r)"
  shows "request_parse (request_line r) = Inr (r\<lparr>rq_url := strip_fragment (rq_url r)\<rparr>)"
proof -
  have "strip_eol (request_line r) = strip_eol (request_to_wire r)"
    using assms(2) unfolding request_to_wire_line strip_eol_crlf by (simp add: strip_eol_no_lf line_ok_def)
  then show ?thesis
    using request_parse_to_wire [OF assms(1)] by (simp add: request_parse_def)
qed

lemma serve_connection_ok:
  assumes "request_ok r" "line_ok MAX_REQUEST_LINE (request_line r)"
  shows "serve_connection src (request_to_wire r @ rest) e =
    (Inr (Some (r\<lparr>rq_url := strip_fragment (rq_url r)\<rparr>)),
     write_reply (dispatch src (r\<lparr>rq_url := strip_fragment (rq_url r)\<rparr>)))"
  using read_request_line_wire [OF assms(2), of rest e] request_parse_line [OF assms]
  by (simp add: serve_connection_def request_to_wire_line)

lemma header_parse_line: "header_ok h \<Longrightarrow> line_ok n (header_line h) \<Longrightarrow> header_parse (header_line h) = Inr h"
  by (rule header_parse_strip) (auto simp: line_ok_def strip_eol_no_lf)

lemma major_consts [simp]:
  "status_major STATUS_OK = Success" "status_major STATUS_PARTIAL = Success"
  "status_major STATUS_INPUT = Input" "status_major STATUS_PERMANENT_REDIRECT = Redirect"
  "status_major STATUS_TEMPORARY_REDIRECT = Redirect" "status_major STATUS_NOT_FOUND = PermanentError"
  "status_major STATUS_BAD_REQUEST = PermanentError" "status_major STATUS_SLOW_DOWN = TemporaryError"
  "STATUS_OK \<noteq> STATUS_PARTIAL"
  by (simp_all add: status_major_def status_consts major_from_digit_def)

lemma write_reply_eq: "write_reply r = header_line (fst (reply_render r)) @ CRLF @ snd (reply_render r)"
  by (simp add: write_reply_def header_to_wire_line split: prod.splits)

lemma size_parse_show [simp]: "n \<le> u64_max \<Longrightarrow> size_parse (show_nat n) = Some (KnownSize n)"
proof -
  have "show_nat n \<noteq> ''?''"
    using show_nat_digits [of n] by (auto simp: is_digit_def between_def)
  then show "n \<le> u64_max \<Longrightarrow> ?thesis" by (simp add: size_parse_def)
qed

lemma read_to_end_capped_eof: "read_to_end_capped cap s Eof = Inr (take cap s)"
  by (simp add: read_to_end_capped_def read_capped_def)

lemma read_response_reply:
  assumes "reply_ok lim r"
  shows "read_response lim rg (write_reply r) Eof = client_view lim rg r"
proof -
  let ?h = "fst (reply_render r)"
  have h: "header_ok ?h" and l: "line_ok (max_header lim) (header_line ?h)"
    using assms by (auto simp: reply_ok_def)
  note line = client_read_line_wire [OF l] header_parse_line [OF h l]
  show ?thesis
  proof (cases r)
    case (Content body mt ver)
    then have "length body \<le> u64_max"
      using assms by (simp add: reply_ok_def)
    with Content line show ?thesis
      by (cases ver) (auto simp: read_response_def write_reply_eq header_success_def read_body_def)
  next
    case (Partial body n mt)
    then have "n \<le> u64_max"
      using assms by (simp add: reply_ok_def)
    with Partial line show ?thesis
      by (simp add: read_response_def write_reply_eq header_success_def read_body_def read_to_end_capped_eof)
  next
    case (StatusReply st m)
    then have "status_major st \<noteq> Success"
      using assms by (simp add: reply_ok_def)
    with StatusReply line show ?thesis
      by (simp add: read_response_def write_reply_eq)
  qed (use line in \<open>simp_all add: read_response_def write_reply_eq\<close>)
qed

lemma scorpion_exchange_served:
  assumes "request_ok r" "line_ok MAX_REQUEST_LINE (request_line r)"
    and "reply_ok lim (dispatch src (r\<lparr>rq_url := strip_fragment (rq_url r)\<rparr>))"
  shows "fst (serve_connection src (request_to_wire r) e)
       = Inr (Some (r\<lparr>rq_url := strip_fragment (rq_url r)\<rparr>))
    \<and> exchange (\<lambda>sent. (snd (serve_connection src sent e), Eof)) r lim
       = client_view lim (case rq_parameter r of Range rg \<Rightarrow> Some rg | _ \<Rightarrow> None)
           (dispatch src (r\<lparr>rq_url := strip_fragment (rq_url r)\<rparr>))"
  using serve_connection_ok [OF assms(1,2), of src "[]" e] read_response_reply [OF assms(3)]
  by (simp add: exchange_def)

text \<open>
  (C15) The Scorpion client and server agree end to end. For every source and every well-formed
  request, when the server of the URL's host and port (its own or the default) is dialled,
  \<open>serve_connection\<close> hands the source exactly the request the client made (without the
  URL's fragment), and what \<open>fetch\<close> returns is what the reply promises: the reply's status
  and parameters; the whole body of a file, or a refusal before reading when it exceeds the
  client's limit; of a partial file as much as the range asked for (never the size of the whole
  file that the status line declares); and no body for any other class.
\<close>

theorem scorpion_fetch_correct:
  assumes "request_ok r" "line_ok MAX_REQUEST_LINE (request_line r)"
    and "reply_ok lim (dispatch src (r\<lparr>rq_url := strip_fragment (rq_url r)\<rparr>))"
    and "up (rq_url r) = Some v" "url_host v = Some host"
    and "dial host (case url_port v of Some n \<Rightarrow> n | None \<Rightarrow> DEFAULT_PORT) =
      Inr (\<lambda>sent. (snd (serve_connection src sent e), Eof))"
  shows "fst (serve_connection src (request_to_wire r) e)
       = Inr (Some (r\<lparr>rq_url := strip_fragment (rq_url r)\<rparr>))
    \<and> scorpion_fetch up dial r lim
       = client_view lim (case rq_parameter r of Range rg \<Rightarrow> Some rg | _ \<Rightarrow> None)
           (dispatch src (r\<lparr>rq_url := strip_fragment (rq_url r)\<rparr>))"
  using scorpion_exchange_served [OF assms(1-3), of e] assms(4-6)
  by (simp add: scorpion_fetch_def authority_def)

definition demo_source :: source where
  "demo_source = default_source (\<lambda>u rg. case rg of
     None \<Rightarrow> Content ''0123456789'' ''text/plain'' None
   | Some r \<Rightarrow> Partial (drop (range_start r) (take 9 ''0123456789'')) 10 ''text/plain'')"

lemma demo_source_exchange:
  "request_ok (request_receive_range ''scorpion://a/#x'' (range_new 3 9))"
  "line_ok MAX_REQUEST_LINE (request_line (request_receive_range ''scorpion://a/#x'' (range_new 3 9)))"
  "dispatch demo_source ((request_receive_range ''scorpion://a/#x'' (range_new 3 9))
     \<lparr>rq_url := strip_fragment ''scorpion://a/#x''\<rparr>) = Partial ''345678'' 10 ''text/plain''"
  "reply_ok default_limits (Partial ''345678'' 10 ''text/plain'')"
proof -
  show "request_ok (request_receive_range ''scorpion://a/#x'' (range_new 3 9))"
    using request_parse_ok [OF demo_range_request] .
  show "line_ok MAX_REQUEST_LINE (request_line (request_receive_range ''scorpion://a/#x'' (range_new 3 9)))"
    by (simp add: line_ok_def request_line_def request_receive_range_def range_new_def range_show_def
        strip_fragment_def MAX_REQUEST_LINE_def show_nat.simps ascii_valid_utf8 ascii_def)
  show "dispatch demo_source ((request_receive_range ''scorpion://a/#x'' (range_new 3 9))
     \<lparr>rq_url := strip_fragment ''scorpion://a/#x''\<rparr>) = Partial ''345678'' 10 ''text/plain''"
    by (simp add: dispatch_def request_receive_range_def demo_source_def default_source_def range_new_def)
  show "reply_ok default_limits (Partial ''345678'' 10 ''text/plain'')"
    by (simp add: reply_ok_def header_ok_def status_ok_def line_ok_def default_limits_def header_line_def
        status_to_ascii_def STATUS_PARTIAL_def MAX_REQUEST_LINE_def show_nat.simps ascii_valid_utf8 ascii_def
        status_major_def major_from_digit_def)
qed

definition demo_scorpion_url :: url where
  "demo_scorpion_url =
     \<lparr>url_scheme = ''scorpion'', url_host = Some ''a'', url_port = None, url_path = ''/'', url_query = None,
      url_fragment = Some ''x'', url_username = []\<rparr>"

lemma scorpion_fetch_witness:
  "scorpion_fetch
     (\<lambda>_. Some demo_scorpion_url)
     (\<lambda>_ _. Inr (\<lambda>sent. (snd (serve_connection demo_source sent Eof), Eof)))
     (request_receive_range ''scorpion://a/#x'' (range_new 3 9)) default_limits
   = Inr \<lparr>rsp_header = \<lparr>hd_status = STATUS_PARTIAL, hd_parameters = [''10'', ''text/plain'']\<rparr>,
          rsp_body = ''345678''\<rparr>"
  using scorpion_fetch_correct
    [of "request_receive_range ''scorpion://a/#x'' (range_new 3 9)" default_limits demo_source
      "\<lambda>_. Some demo_scorpion_url" _ "''a''"
      "\<lambda>_ _. Inr (\<lambda>sent. (snd (serve_connection demo_source sent Eof), Eof))" Eof]
    demo_source_exchange
  by (simp add: request_receive_range_def range_len_def range_new_def show_nat.simps default_limits_def demo_scorpion_url_def)

section \<open>Temporary errors\<close>

text \<open>
  A \<open>4x\<close> line carries a retry delay before its message, but \<open>Reply::Status\<close> writes the
  message alone. So the client reads the first word of the message as the delay, and shows the
  user a message without it; a one-word message is not shown at all.
\<close>

theorem scorpion_retry_message_lost:
  assumes "status_ok st" "status_major st = TemporaryError"
    and "CHR '' '' \<notin> set w" "w \<noteq> []"
  shows "\<exists>h. header_parse (write_reply (StatusReply st (w @ '' '' @ rest))) = Inr h
    \<and> header_message h = (if rest = [] then None else Some rest)
    \<and> header_temporary_error h =
        Some (case retry_parse w of None \<Rightarrow> RetryUnknown | Some t \<Rightarrow> t, if rest = [] then None else Some rest)"
proof -
  let ?l = "status_to_ascii st @ '' '' @ w @ '' '' @ rest"
  have "write_reply (StatusReply st (w @ '' '' @ rest)) = ?l @ CRLF"
    using assms(4) by (simp add: write_reply_eq header_line_def)
  then have "strip_eol (write_reply (StatusReply st (w @ '' '' @ rest))) = ?l"
    by (simp only: strip_eol_crlf)
  then have "header_parse (write_reply (StatusReply st (w @ '' '' @ rest))) =
       Inr \<lparr>hd_status = st, hd_parameters = w # (if rest = [] then [] else [rest])\<rparr>"
    using status_ascii_parse [OF assms(1)] assms(2,3)
    by (simp add: header_parse_def split_parameters_def)
  then show ?thesis
    using assms(2) by (simp add: header_message_def header_temporary_error_def get_nth_def)
qed

lemma scorpion_retry_message_witness:
  "\<exists>h. header_parse (write_reply (StatusReply STATUS_SLOW_DOWN ''slow down'')) = Inr h
     \<and> header_message h = Some ''down''"
  using scorpion_retry_message_lost [of STATUS_SLOW_DOWN "''slow''" "''down''"]
  by (auto simp: status_ok_def STATUS_SLOW_DOWN_def status_major_def major_from_digit_def)

text \<open>A body that ends early is always reported as \<open>received: 0\<close>.\<close>

lemma read_body_truncated:
  assumes "hd_status h \<noteq> STATUS_PARTIAL" "n \<le> max_body lim" "length rest < n"
  shows "read_body lim rg h (KnownSize n) rest Eof = Inl (CeTruncated n 0)"
  using assms by (simp add: read_body_def read_exact_def)

end
