(* ===== verification/Misfin_Core.thy ===== *)
theory Misfin_Core
  imports Rust_Words Line_Server Url_Iface
begin

text \<open>
  Misfin's vocabulary (\<open>crates/misfin/src/lib.rs\<close>, \<open>helpers.rs\<close>, \<open>status.rs\<close>): addresses,
  fingerprints and hexadecimal text, file names, status codes and the response line. SHA-256 is a
  parameter. An error that is only a message is \<open>None\<close>.
\<close>

section \<open>Addresses\<close>

definition MISFIN_PORT :: nat where "MISFIN_PORT = 1958"
definition MAX_REQUEST :: nat where "MAX_REQUEST = 2048"

record misfin_address =
  ma_mailbox :: string
  ma_host :: string

record misfin_sender =
  ms_address :: misfin_address
  ms_blurb :: "string option"

record misfin_identity_spec =
  mi_address :: misfin_address
  mi_blurb :: "string option"

record identity_material =
  im_certificate :: string
  im_private_key :: string

definition parse_address :: "string \<Rightarrow> misfin_address option" where
  "parse_address input =
     (case split_once (CHR ''@'') (trim input) of
        None \<Rightarrow> None
      | Some (mailbox, host) \<Rightarrow>
          if mailbox = [] \<or> host = [] then None else Some \<lparr>ma_mailbox = mailbox, ma_host = to_lower host\<rparr>)"

definition address_from_url :: "url \<Rightarrow> misfin_address option" where
  "address_from_url u =
     (let mailbox = trim (url_username u) in
      if mailbox = [] then None
      else case url_host u of None \<Rightarrow> None | Some host \<Rightarrow> parse_address (mailbox @ ''@'' @ host))"

definition as_addr_spec :: "misfin_address \<Rightarrow> string" where
  "as_addr_spec a = ma_mailbox a @ ''@'' @ ma_host a"

definition url_string_for_address :: "misfin_address \<Rightarrow> nat option \<Rightarrow> string" where
  "url_string_for_address a port =
     ''misfin://'' @ ma_mailbox a @ ''@'' @ ma_host a @ (case port of Some p \<Rightarrow> CHR '':'' # show_nat p | None \<Rightarrow> [])"

definition identity_salt :: "misfin_address \<Rightarrow> string" where
  "identity_salt a = ''mere/misfin/identity/v1/'' @ as_addr_spec a"

definition split_once_whitespace :: "string \<Rightarrow> string \<times> string option" where
  "split_once_whitespace input =
     (case find_ws input of
        None \<Rightarrow> (input, None)
      | Some i \<Rightarrow> let tail = trim (drop i input) in (take i input, if tail = [] then None else Some tail))"

section \<open>Hexadecimal text and fingerprints\<close>

definition nibble_to_hex :: "nat \<Rightarrow> char" where
  "nibble_to_hex n = (if n \<le> 9 then char_of (48 + n) else char_of (97 + (n - 10)))"

definition encode_hex :: "string \<Rightarrow> string" where
  "encode_hex bs = concat (map (\<lambda>b. [nibble_to_hex (bval b div 16), nibble_to_hex (bval b mod 16)]) bs)"

definition from_hex_digit :: "char \<Rightarrow> nat option" where
  "from_hex_digit c =
     (if between 48 57 c then Some (bval c - 48)
      else if between 97 102 c then Some (bval c - 97 + 10)
      else if between 65 70 c then Some (bval c - 65 + 10)
      else None)"

text \<open>The loop over index pairs; the length was found even before it starts.\<close>

fun decode_pairs :: "string \<Rightarrow> string option" where
  "decode_pairs (h # l # s) =
     (case from_hex_digit h of None \<Rightarrow> None
      | Some high \<Rightarrow>
        (case from_hex_digit l of None \<Rightarrow> None
         | Some low \<Rightarrow> map_option (Cons (char_of (16 * high + low))) (decode_pairs s)))"
| "decode_pairs s = Some []"

definition decode_hex :: "string \<Rightarrow> string option" where
  "decode_hex input = (if odd (length input) then None else decode_pairs input)"

text \<open>\<open>sha\<close> is the digest of the bytes.\<close>

definition sha256_hex :: "(string \<Rightarrow> string) \<Rightarrow> string \<Rightarrow> string" where
  "sha256_hex sha bs = encode_hex (sha bs)"

definition certificate_fingerprint :: "(string \<Rightarrow> string) \<Rightarrow> string \<Rightarrow> string" where
  "certificate_fingerprint sha der = sha256_hex sha der"

definition normalize_fingerprint :: "string \<Rightarrow> string" where
  "normalize_fingerprint input = map lower_char (filter is_ascii_alnum input)"

section \<open>File names\<close>

text \<open>A character of several bytes becomes one underscore: the bytes that continue it are dropped.\<close>

definition file_char :: "char \<Rightarrow> bool" where
  "file_char c \<longleftrightarrow> is_ascii_alnum c \<or> c \<in> {CHR ''-'', CHR ''_'', CHR ''.'', CHR ''@''}"

definition sanitize_filename :: "string \<Rightarrow> string" where
  "sanitize_filename input = map (\<lambda>c. if file_char c then c else CHR ''_'') (filter (\<lambda>c. \<not> cont c) input)"

section \<open>Status codes\<close>

datatype status_category =
    CatReserved | CatSuccess | CatRedirect | CatTemporaryFailure | CatPermanentFailure
  | CatAuthenticationFailure | CatUnknown

datatype misfin_status =
    Delivered | SendHereInstead | SendHereForever | TemporaryError | ServerUnavailable | CgiError
  | ProxyingError | SlowDown | MailboxFull | PermanentError | MailboxDoesNotExist | MailboxGone
  | DomainNotServiced | BadRequest | CertificateRequired | UnauthorizedSender | CertificateInvalid
  | FingerprintChanged | ProveIt | OtherStatus nat

fun misfin_code :: "misfin_status \<Rightarrow> nat" where
  "misfin_code Delivered = 20"
| "misfin_code SendHereInstead = 30"
| "misfin_code SendHereForever = 31"
| "misfin_code TemporaryError = 40"
| "misfin_code ServerUnavailable = 41"
| "misfin_code CgiError = 42"
| "misfin_code ProxyingError = 43"
| "misfin_code SlowDown = 44"
| "misfin_code MailboxFull = 45"
| "misfin_code PermanentError = 50"
| "misfin_code MailboxDoesNotExist = 51"
| "misfin_code MailboxGone = 52"
| "misfin_code DomainNotServiced = 53"
| "misfin_code BadRequest = 59"
| "misfin_code CertificateRequired = 60"
| "misfin_code UnauthorizedSender = 61"
| "misfin_code CertificateInvalid = 62"
| "misfin_code FingerprintChanged = 63"
| "misfin_code ProveIt = 64"
| "misfin_code (OtherStatus c) = c"

definition misfin_from_code :: "nat \<Rightarrow> misfin_status" where
  "misfin_from_code c =
     (if c = 20 then Delivered else if c = 30 then SendHereInstead else if c = 31 then SendHereForever
      else if c = 40 then TemporaryError else if c = 41 then ServerUnavailable else if c = 42 then CgiError
      else if c = 43 then ProxyingError else if c = 44 then SlowDown else if c = 45 then MailboxFull
      else if c = 50 then PermanentError else if c = 51 then MailboxDoesNotExist else if c = 52 then MailboxGone
      else if c = 53 then DomainNotServiced else if c = 59 then BadRequest
      else if c = 60 then CertificateRequired else if c = 61 then UnauthorizedSender
      else if c = 62 then CertificateInvalid else if c = 63 then FingerprintChanged
      else if c = 64 then ProveIt else OtherStatus c)"

definition misfin_category :: "misfin_status \<Rightarrow> status_category" where
  "misfin_category st =
     (let d = misfin_code st div 10 in
      if d = 1 then CatReserved else if d = 2 then CatSuccess else if d = 3 then CatRedirect
      else if d = 4 then CatTemporaryFailure else if d = 5 then CatPermanentFailure
      else if d = 6 then CatAuthenticationFailure else CatUnknown)"

definition misfin_is_success :: "misfin_status \<Rightarrow> bool" where
  "misfin_is_success st \<longleftrightarrow> misfin_category st = CatSuccess"

text \<open>\<open>is_char_boundary(2)\<close> of a line of at least two bytes.\<close>

definition misfin_parse_response_line :: "string \<Rightarrow> (misfin_status \<times> string) option" where
  "misfin_parse_response_line line0 =
     (let line = trim_newlines line0 in
      if length line < 2 \<or> (2 < length line \<and> cont (line ! 2)) then None
      else case parse_uint 255 (take 2 line) of
        None \<Rightarrow> None
      | Some code \<Rightarrow>
          let rest = drop 2 line in
          Some (misfin_from_code code, case strip_prefix '' '' rest of Some m \<Rightarrow> m | None \<Rightarrow> rest))"

section \<open>Facts\<close>

lemma misfin_code_from_code [simp]: "misfin_code (misfin_from_code c) = c"
  by (simp add: misfin_from_code_def)

lemma to_lower_append [simp]: "to_lower (s @ t) = to_lower s @ to_lower t"
  by (simp add: to_lower_def)

lemma nibbles [simp]: "bval b div 16 < 16" "bval b mod 16 < 16"
proof -
  have "bval b < 16 * 16" by simp
  then show "bval b div 16 < 16" by (rule less_mult_imp_div_less)
qed simp

lemma nibble_back: "n < 16 \<Longrightarrow> from_hex_digit (nibble_to_hex n) = Some n"
  by (auto simp: nibble_to_hex_def from_hex_digit_def between_def)

lemma hex_roundtrip [simp]: "decode_hex (encode_hex bs) = Some bs"
proof -
  have "even (length (encode_hex bs))" by (induction bs) (simp_all add: encode_hex_def)
  moreover have "decode_pairs (encode_hex bs) = Some bs"
  proof (induction bs)
    case (Cons b bs)
    then show ?case by (simp add: encode_hex_def nibble_back)
  qed (simp add: encode_hex_def)
  ultimately show ?thesis by (simp add: decode_hex_def)
qed

lemma hex_inj: "encode_hex a = encode_hex b \<longleftrightarrow> a = b"
  by (metis hex_roundtrip option.inject)

lemma nibble_class: "n < 16 \<Longrightarrow> is_ascii_alnum (nibble_to_hex n) \<and> lower_char (nibble_to_hex n) = nibble_to_hex n
    \<and> ascii (nibble_to_hex n) \<and> \<not> ascii_ws (nibble_to_hex n)"
  by (auto simp: nibble_to_hex_def is_ascii_alnum_def is_ascii_alpha_def is_ascii_lower_def is_ascii_upper_def
      lower_char_def is_digit_def between_def ascii_def ascii_ws_def)

lemma hex_char: "c \<in> set (encode_hex bs) \<Longrightarrow> \<exists>n < 16. c = nibble_to_hex n"
proof -
  assume "c \<in> set (encode_hex bs)"
  then obtain b where "c = nibble_to_hex (bval b div 16) \<or> c = nibble_to_hex (bval b mod 16)"
    by (auto simp: encode_hex_def)
  then show ?thesis using nibbles by blast
qed

lemma hex_visible [simp]: "visible (encode_hex bs)"
  using hex_char nibble_class by (fastforce simp: visible_def)

lemma normalize_hex [simp]: "normalize_fingerprint (encode_hex bs) = encode_hex bs"
proof -
  have "filter is_ascii_alnum (encode_hex bs) = encode_hex bs" "map lower_char (encode_hex bs) = encode_hex bs"
    using hex_char nibble_class by (fastforce intro!: filter_True map_idI)+
  then show ?thesis by (simp add: normalize_fingerprint_def)
qed

lemma normalize_idem: "normalize_fingerprint (normalize_fingerprint s) = normalize_fingerprint s"
proof -
  have "is_ascii_alnum (lower_char c)" if "is_ascii_alnum c" for c
    using that by (auto simp: lower_char_def is_ascii_alnum_def is_ascii_alpha_def is_ascii_lower_def
        is_ascii_upper_def between_def is_digit_def)
  then have "filter is_ascii_alnum (map lower_char (filter is_ascii_alnum s)) = map lower_char (filter is_ascii_alnum s)"
    by (intro filter_True) auto
  then show ?thesis by (simp add: normalize_fingerprint_def comp_def)
qed

end
