(* ===== verification/Misfin_Store.thy ===== *)
theory Misfin_Store
  imports Misfin_Core
begin

text \<open>
  The misfin mailbox store (\<open>crates/misfin/src/mailbox.rs\<close>): the tables of the database as maps, one
  definition per transaction. A transaction either commits or fails and leaves the tables as they
  were; which one is an argument. The JSON codecs to the stored values are parameters.
\<close>

section \<open>The tables\<close>

record received_message =
  rm_seq :: nat
  rm_recipient :: string
  rm_sender_fingerprint :: string
  rm_sender_address :: "string option"
  rm_body :: string
  rm_received_at :: nat

datatype sender_seen = FirstSeen | KnownSender

datatype identity_check = FirstContact | IdentityMatch | is_changed: IdentityChanged string

record pinned_identity =
  pin_fingerprint :: string
  pin_first_seen :: nat

text \<open>\<open>serde_json\<close> on the two derived types.\<close>

record 'v codec =
  cd_message :: "received_message \<Rightarrow> 'v"
  cd_message_of :: "'v \<Rightarrow> received_message option"
  cd_pin :: "pinned_identity \<Rightarrow> 'v"
  cd_pin_of :: "'v \<Rightarrow> pinned_identity option"

text \<open>The multimap gives the values of a key in ascending order, without repetition.\<close>

record 'v mailbox_store =
  mb_messages :: "nat \<rightharpoonup> 'v"
  mb_index :: "string \<Rightarrow> nat list"
  mb_meta :: "string \<rightharpoonup> nat"
  mb_senders :: "string \<rightharpoonup> nat"
  mb_identities :: "string \<rightharpoonup> 'v"

definition empty_store :: "'v mailbox_store" where
  "empty_store = \<lparr>mb_messages = Map.empty, mb_index = \<lambda>_. [], mb_meta = Map.empty, mb_senders = Map.empty,
                  mb_identities = Map.empty\<rparr>"

text \<open>A sequence number that cannot be increased any more makes the addition overflow.\<close>

datatype store_error = StorageFailed | SequenceOverflow

section \<open>Transactions\<close>

definition NEXT_SEQ_KEY :: string where "NEXT_SEQ_KEY = ''next_seq''"

definition next_seq :: "'v mailbox_store \<Rightarrow> nat" where
  "next_seq s = (case mb_meta s NEXT_SEQ_KEY of Some n \<Rightarrow> n | None \<Rightarrow> 0)"

definition store_message ::
    "'v codec \<Rightarrow> bool \<Rightarrow> 'v mailbox_store \<Rightarrow> misfin_address \<Rightarrow> string \<Rightarrow> misfin_sender option \<Rightarrow> string \<Rightarrow> nat \<Rightarrow>
     (store_error + nat) \<times> 'v mailbox_store" where
  "store_message cd commits s recipient fingerprint sender body received_at =
     (let spec = as_addr_spec recipient; seq = next_seq s in
      if seq = u64_max then (Inl SequenceOverflow, s)
      else if \<not> commits then (Inl StorageFailed, s)
      else let message = \<lparr>rm_seq = seq, rm_recipient = spec, rm_sender_fingerprint = fingerprint,
                          rm_sender_address = map_option (\<lambda>x. as_addr_spec (ms_address x)) sender,
                          rm_body = body, rm_received_at = received_at\<rparr>
           in (Inr seq,
               s\<lparr>mb_meta := (mb_meta s)(NEXT_SEQ_KEY \<mapsto> seq + 1),
                 mb_messages := (mb_messages s)(seq \<mapsto> cd_message cd message),
                 mb_index := (mb_index s)(spec := insort_insert seq (mb_index s spec))\<rparr>))"

definition record_sender ::
    "bool \<Rightarrow> 'v mailbox_store \<Rightarrow> string \<Rightarrow> nat \<Rightarrow> (store_error + sender_seen) \<times> 'v mailbox_store" where
  "record_sender commits s fingerprint now =
     (if \<not> commits then (Inl StorageFailed, s)
      else if mb_senders s fingerprint \<noteq> None then (Inr KnownSender, s)
      else (Inr FirstSeen, s\<lparr>mb_senders := (mb_senders s)(fingerprint \<mapsto> now)\<rparr>))"

definition check_and_record_identity ::
    "'v codec \<Rightarrow> bool \<Rightarrow> 'v mailbox_store \<Rightarrow> string \<Rightarrow> string \<Rightarrow> nat \<Rightarrow>
     (store_error + identity_check) \<times> 'v mailbox_store" where
  "check_and_record_identity cd commits s addr fingerprint now =
     (if \<not> commits then (Inl StorageFailed, s)
      else case mb_identities s addr of
        None \<Rightarrow>
          (Inr FirstContact,
           s\<lparr>mb_identities := (mb_identities s)(addr \<mapsto> cd_pin cd \<lparr>pin_fingerprint = fingerprint, pin_first_seen = now\<rparr>)\<rparr>)
      | Some v \<Rightarrow>
          (case cd_pin_of cd v of None \<Rightarrow> (Inl StorageFailed, s)
           | Some p \<Rightarrow>
               (Inr (if pin_fingerprint p = fingerprint then IdentityMatch else IdentityChanged (pin_fingerprint p)), s)))"

definition forget_sender_identity ::
    "bool \<Rightarrow> 'v mailbox_store \<Rightarrow> string \<Rightarrow> (store_error + bool) \<times> 'v mailbox_store" where
  "forget_sender_identity commits s addr =
     (if \<not> commits then (Inl StorageFailed, s)
      else (Inr (mb_identities s addr \<noteq> None), s\<lparr>mb_identities := (mb_identities s)(addr := None)\<rparr>))"

text \<open>The loop of \<open>list\<close> over the sequence numbers of a mailbox.\<close>

fun collect_messages :: "'v codec \<Rightarrow> (nat \<rightharpoonup> 'v) \<Rightarrow> nat list \<Rightarrow> received_message list \<Rightarrow> received_message list option" where
  "collect_messages cd messages [] out = Some out"
| "collect_messages cd messages (seq # seqs) out =
     (case messages seq of
        None \<Rightarrow> collect_messages cd messages seqs out
      | Some v \<Rightarrow>
        (case cd_message_of cd v of None \<Rightarrow> None | Some m \<Rightarrow> collect_messages cd messages seqs (out @ [m])))"

definition list_mailbox :: "'v codec \<Rightarrow> bool \<Rightarrow> 'v mailbox_store \<Rightarrow> string \<Rightarrow> store_error + received_message list" where
  "list_mailbox cd readable s mailbox =
     (if \<not> readable then Inl StorageFailed
      else case collect_messages cd (mb_messages s) (mb_index s mailbox) [] of
        None \<Rightarrow> Inl StorageFailed
      | Some out \<Rightarrow> Inr (sort_key rm_seq out))"

section \<open>Well-formed stores\<close>

definition codec_ok :: "'v codec \<Rightarrow> bool" where
  "codec_ok cd \<longleftrightarrow> (\<forall>m. cd_message_of cd (cd_message cd m) = Some m) \<and> (\<forall>p. cd_pin_of cd (cd_pin cd p) = Some p)"

text \<open>
  The log a store holds: the numbers from 0 on, each with its message, indexed under its recipient
  and nowhere else; and every pin readable.
\<close>

definition holds_log :: "'v codec \<Rightarrow> 'v mailbox_store \<Rightarrow> received_message list \<Rightarrow> bool" where
  "holds_log cd s log \<longleftrightarrow>
     next_seq s = length log \<and> length log \<le> u64_max \<and>
     (\<forall>n. mb_messages s n = (if n < length log then Some (cd_message cd (log ! n)) else None)) \<and>
     (\<forall>n < length log. rm_seq (log ! n) = n) \<and>
     (\<forall>r. mb_index s r = filter (\<lambda>n. rm_recipient (log ! n) = r) [0..<length log])"

definition store_wf :: "'v codec \<Rightarrow> 'v mailbox_store \<Rightarrow> bool" where
  "store_wf cd s \<longleftrightarrow> (\<exists>log. holds_log cd s log) \<and> (\<forall>a v. mb_identities s a = Some v \<longrightarrow> cd_pin_of cd v \<noteq> None)"

lemma holds_log_empty: "holds_log cd empty_store []"
  by (simp add: holds_log_def empty_store_def next_seq_def)

lemma store_wf_empty: "store_wf cd empty_store"
  using holds_log_empty by (auto simp: store_wf_def empty_store_def)

lemma insort_insert_last:
  "\<forall>x \<in> set xs. x < n \<Longrightarrow> sorted xs \<Longrightarrow> insort_insert n xs = xs @ [n :: nat]"
  by (induction xs) (auto simp: insort_insert_key_def)

lemma holds_log_store:
  assumes "holds_log cd s log" "length log \<noteq> u64_max"
  shows "holds_log cd (snd (store_message cd True s recipient fp sender body at))
    (log @ [\<lparr>rm_seq = length log, rm_recipient = as_addr_spec recipient, rm_sender_fingerprint = fp,
            rm_sender_address = map_option (\<lambda>x. as_addr_spec (ms_address x)) sender, rm_body = body, rm_received_at = at\<rparr>])"
    (is "holds_log cd ?s' (log @ [?m])")
proof -
  have s: "next_seq s = length log" "length log \<le> u64_max"
    "\<And>n. mb_messages s n = (if n < length log then Some (cd_message cd (log ! n)) else None)"
    "\<And>n. n < length log \<Longrightarrow> rm_seq (log ! n) = n"
    "\<And>r. mb_index s r = filter (\<lambda>n. rm_recipient (log ! n) = r) [0..<length log]"
    using assms(1) by (auto simp: holds_log_def)
  have s': "?s' = s\<lparr>mb_meta := (mb_meta s)(NEXT_SEQ_KEY \<mapsto> length log + 1),
      mb_messages := (mb_messages s)(length log \<mapsto> cd_message cd ?m),
      mb_index := (mb_index s)(as_addr_spec recipient := mb_index s (as_addr_spec recipient) @ [length log])\<rparr>"
    using assms(2) s by (simp add: store_message_def Let_def insort_insert_last sorted_wrt_filter)
  have old: "filter (\<lambda>n. rm_recipient ((log @ [?m]) ! n) = r) [0..<length log] =
      filter (\<lambda>n. rm_recipient (log ! n) = r) [0..<length log]" for r
    by (rule filter_cong) (simp_all add: nth_append)
  show ?thesis
    unfolding holds_log_def s'
    using s assms(2) old by (auto simp: next_seq_def nth_append less_Suc_eq)
qed

lemma holds_log_unchanged:
  "mb_messages s' = mb_messages s \<Longrightarrow> mb_index s' = mb_index s \<Longrightarrow> mb_meta s' = mb_meta s \<Longrightarrow>
   holds_log cd s log \<Longrightarrow> holds_log cd s' log"
  by (simp add: holds_log_def next_seq_def)

lemma store_message_fails:
  "\<not> commits \<or> next_seq s = u64_max \<Longrightarrow> snd (store_message cd commits s r fp snd' b at) = s"
  by (auto simp: store_message_def Let_def)

lemma record_sender_tables:
  "mb_messages (snd (record_sender c s fp now)) = mb_messages s" "mb_index (snd (record_sender c s fp now)) = mb_index s"
  "mb_meta (snd (record_sender c s fp now)) = mb_meta s" "mb_identities (snd (record_sender c s fp now)) = mb_identities s"
  by (simp_all add: record_sender_def)

lemma check_identity_tables:
  "mb_messages (snd (check_and_record_identity cd c s a fp now)) = mb_messages s"
  "mb_index (snd (check_and_record_identity cd c s a fp now)) = mb_index s"
  "mb_meta (snd (check_and_record_identity cd c s a fp now)) = mb_meta s"
  by (auto simp: check_and_record_identity_def split: option.split)

lemma forget_tables:
  "mb_messages (snd (forget_sender_identity c s a)) = mb_messages s"
  "mb_index (snd (forget_sender_identity c s a)) = mb_index s"
  "mb_meta (snd (forget_sender_identity c s a)) = mb_meta s"
  by (simp_all add: forget_sender_identity_def)

lemma store_identities: "mb_identities (snd (store_message cd c s r fp sn b at)) = mb_identities s"
  by (simp add: store_message_def Let_def)

section \<open>Reading a mailbox\<close>

lemma collect_all:
  assumes "codec_ok cd" "\<forall>n \<in> set ns. messages n = Some (cd_message cd (f n))"
  shows "collect_messages cd messages ns out = Some (out @ map f ns)"
  using assms by (induction ns arbitrary: out) (auto simp: codec_ok_def)

lemma map_nth_filter:
  "map ((!) xs) (filter (\<lambda>n. P (xs ! n)) [0..<length xs]) = filter P xs"
proof -
  have "filter P xs = filter P (map ((!) xs) [0..<length xs])" by (simp add: map_nth)
  then show ?thesis by (simp add: filter_map comp_def)
qed

lemma log_sorted:
  assumes "\<forall>n < length log. rm_seq (log ! n) = n"
  shows "sort_key rm_seq (filter P log) = filter P log"
proof -
  have "map rm_seq log = [0..<length log]" using assms by (intro nth_equalityI) auto
  then have "sorted (map rm_seq log)" by simp
  then have "sorted (map rm_seq (filter P log))" by (rule sorted_filter)
  then show ?thesis by (rule sort_key_id_if_sorted)
qed

lemma list_mailbox_log:
  assumes "codec_ok cd" "holds_log cd s log"
  shows "list_mailbox cd True s r = Inr (filter (\<lambda>m. rm_recipient m = r) log)"
proof -
  have "collect_messages cd (mb_messages s) (mb_index s r) [] =
      Some (map ((!) log) (filter (\<lambda>n. rm_recipient (log ! n) = r) [0..<length log]))"
    using assms collect_all [OF assms(1), of "mb_index s r" "mb_messages s" "(!) log" "[]"]
    by (auto simp: holds_log_def)
  then show ?thesis
    using assms(2) log_sorted [of log] map_nth_filter [of log "\<lambda>m. rm_recipient m = r"]
    by (simp add: list_mailbox_def holds_log_def)
qed

section \<open>Histories of a store\<close>

text \<open>A transaction with its arguments and its outcome.\<close>

datatype store_event =
    Stored misfin_address string "misfin_sender option" string nat "store_error + nat"
  | SenderRecorded string nat "store_error + sender_seen"
  | IdentityChecked string string nat "store_error + identity_check"
  | Forgotten string "store_error + bool"

inductive store_step :: "'v codec \<Rightarrow> 'v mailbox_store \<Rightarrow> store_event \<Rightarrow> 'v mailbox_store \<Rightarrow> bool" for cd where
  step_store: "store_message cd c s r fp sn b at = (res, s') \<Longrightarrow> store_step cd s (Stored r fp sn b at res) s'"
| step_record: "record_sender c s fp now = (res, s') \<Longrightarrow> store_step cd s (SenderRecorded fp now res) s'"
| step_check: "check_and_record_identity cd c s a fp now = (res, s') \<Longrightarrow> store_step cd s (IdentityChecked a fp now res) s'"
| step_forget: "forget_sender_identity c s a = (res, s') \<Longrightarrow> store_step cd s (Forgotten a res) s'"

inductive_cases storedE: "store_step cd s (Stored r fp sn b at res) s'"
inductive_cases recordedE: "store_step cd s (SenderRecorded fp now res) s'"
inductive_cases checkedE: "store_step cd s (IdentityChecked a fp now res) s'"
inductive_cases forgottenE: "store_step cd s (Forgotten a res) s'"

inductive store_run :: "'v codec \<Rightarrow> 'v mailbox_store \<Rightarrow> store_event list \<Rightarrow> 'v mailbox_store \<Rightarrow> bool" for cd s where
  run_empty: "store_run cd s [] s"
| run_step: "store_run cd s es t \<Longrightarrow> store_step cd t e u \<Longrightarrow> store_run cd s (es @ [e]) u"

fun delivered_message :: "store_event \<Rightarrow> received_message option" where
  "delivered_message (Stored r fp sn b at (Inr seq)) =
     Some \<lparr>rm_seq = seq, rm_recipient = as_addr_spec r, rm_sender_fingerprint = fp,
           rm_sender_address = map_option (\<lambda>x. as_addr_spec (ms_address x)) sn, rm_body = b, rm_received_at = at\<rparr>"
| "delivered_message e = None"

definition delivered :: "store_event list \<Rightarrow> received_message list" where
  "delivered es = List.map_filter delivered_message es"

lemma delivered_snoc: "delivered (es @ [e]) = delivered es @ (case delivered_message e of Some m \<Rightarrow> [m] | None \<Rightarrow> [])"
  by (simp add: delivered_def List.map_filter_def split: option.split)

lemma step_log:
  assumes "store_step cd s e s'" "holds_log cd s log"
  shows "holds_log cd s' (log @ (case delivered_message e of Some m \<Rightarrow> [m] | None \<Rightarrow> []))"
  using assms
proof (cases rule: store_step.cases)
  case (step_store c r fp sn b at res)
  have n: "next_seq s = length log" using assms(2) by (simp add: holds_log_def)
  show ?thesis
  proof (cases "c \<and> next_seq s \<noteq> u64_max")
    case True
    then have "res = Inr (length log)" using step_store(2) n by (auto simp: store_message_def Let_def)
    moreover have "s' = snd (store_message cd True s r fp sn b at)" using step_store(2) True by simp
    ultimately show ?thesis using holds_log_store [OF assms(2), of r fp sn b at] True n step_store(1) by simp
  next
    case False
    then have "s' = s" "\<exists>x. res = Inl x" using step_store(2) by (auto simp: store_message_def Let_def split: if_splits)
    with assms(2) step_store(1) show ?thesis by auto
  qed
next
  case (step_record c fp now res)
  then show ?thesis using assms(2) record_sender_tables [of c s fp now] by (auto intro: holds_log_unchanged)
next
  case (step_check c a fp now res)
  then show ?thesis using assms(2) check_identity_tables [of cd c s a fp now] by (auto intro: holds_log_unchanged)
next
  case (step_forget c a res)
  then show ?thesis using assms(2) forget_tables [of c s a] by (auto intro: holds_log_unchanged)
qed

lemma run_log: "store_run cd s es s' \<Longrightarrow> holds_log cd s log \<Longrightarrow> holds_log cd s' (log @ delivered es)"
proof (induction rule: store_run.induct)
  case (run_step es t e u)
  then show ?case using step_log [of cd t e u "log @ delivered es"] by (simp add: delivered_snoc)
qed (simp add: delivered_def List.map_filter_def)

lemma step_pins:
  assumes "store_step cd s e s'" "codec_ok cd" "\<forall>a v. mb_identities s a = Some v \<longrightarrow> cd_pin_of cd v \<noteq> None"
  shows "\<forall>a v. mb_identities s' a = Some v \<longrightarrow> cd_pin_of cd v \<noteq> None"
  using assms
proof (cases rule: store_step.cases)
  case (step_store c r fp sn b at res)
  then have "mb_identities s' = mb_identities s" using store_identities [of cd c s r fp sn b at] by simp
  with assms(3) show ?thesis by simp
next
  case (step_record c fp now res)
  then have "mb_identities s' = mb_identities s" using record_sender_tables(4) [of c s fp now] by simp
  with assms(3) show ?thesis by simp
qed (auto simp: check_and_record_identity_def forget_sender_identity_def codec_ok_def
    split: if_splits option.splits)

section \<open>Pins\<close>

definition pinned :: "'v codec \<Rightarrow> 'v mailbox_store \<Rightarrow> string \<Rightarrow> string \<Rightarrow> bool" where
  "pinned cd s a fp \<longleftrightarrow> (\<exists>v p. mb_identities s a = Some v \<and> cd_pin_of cd v = Some p \<and> pin_fingerprint p = fp)"

lemma step_keeps_pin:
  assumes "store_step cd s e s'" "pinned cd s a fp" "\<forall>b. e \<noteq> Forgotten a (Inr b)"
  shows "pinned cd s' a fp"
  using assms
proof (cases rule: store_step.cases)
  case (step_store c r fp' sn b at res)
  then have "mb_identities s' = mb_identities s" using store_identities [of cd c s r fp' sn b at] by simp
  with assms(2) show ?thesis by (simp add: pinned_def)
next
  case (step_record c fp' now res)
  then have "mb_identities s' = mb_identities s" using record_sender_tables(4) [of c s fp' now] by simp
  with assms(2) show ?thesis by (simp add: pinned_def)
qed (use assms(2,3) in \<open>auto simp: pinned_def check_and_record_identity_def forget_sender_identity_def
    split: if_splits option.splits\<close>)

lemma run_keeps_pin:
  "store_run cd s es s' \<Longrightarrow> pinned cd s a fp \<Longrightarrow> \<forall>b. Forgotten a (Inr b) \<notin> set es \<Longrightarrow> pinned cd s' a fp"
  by (induction rule: store_run.induct) (auto intro: step_keeps_pin)

lemma check_of_pinned:
  "pinned cd s a fp \<Longrightarrow> store_step cd s (IdentityChecked a fp2 now (Inr res)) s' \<Longrightarrow>
   res = (if fp2 = fp then IdentityMatch else IdentityChanged fp) \<and> s' = s"
  by (auto simp: pinned_def check_and_record_identity_def elim!: checkedE split: if_splits)

lemma check_of_unknown:
  "codec_ok cd \<Longrightarrow> store_step cd s (IdentityChecked a fp now (Inr FirstContact)) s' \<Longrightarrow> pinned cd s' a fp"
  by (auto simp: pinned_def check_and_record_identity_def codec_ok_def elim!: checkedE split: if_splits option.splits)

section \<open>Properties\<close>

text \<open>
  (C33) Well-formedness of the store is kept by every transaction, committed or failed: the sequence
  counter equals the number of messages, every message is readable and stored under its own
  number, the index of a mailbox holds exactly the numbers of its messages in order, and every pin
  is readable.
\<close>

theorem store_step_wf:
  assumes "codec_ok cd" "store_wf cd s" "store_step cd s e s'"
  shows "store_wf cd s'"
  using assms step_log [OF assms(3)] step_pins [OF assms(3,1)] unfolding store_wf_def by blast

text \<open>
  (C5) A mailbox is the log of its deliveries: after any history of transactions from an empty store,
  failed ones included, listing a mailbox returns exactly the messages delivered to it, in order,
  and the messages of all mailboxes are numbered from 0 on without gaps.
\<close>

theorem mailbox_is_delivery_log:
  assumes "codec_ok cd" "store_run cd empty_store es s"
  shows "list_mailbox cd True s r = Inr (filter (\<lambda>m. rm_recipient m = r) (delivered es)) \<and>
    map rm_seq (delivered es) = [0..<length (delivered es)]"
proof -
  have log: "holds_log cd s (delivered es)" using run_log [OF assms(2) holds_log_empty] by simp
  then have "map rm_seq (delivered es) = [0..<length (delivered es)]"
    by (intro nth_equalityI) (auto simp: holds_log_def)
  with list_mailbox_log [OF assms(1) log] show ?thesis by simp
qed

text \<open>
  (C19) Pins hold until they are forgotten: after the first contact of an address with a fingerprint,
  in any history without a successful forgetting of that address every check that does not fail
  matches exactly for that fingerprint, names it otherwise, and changes nothing.
\<close>

theorem identity_pins_hold:
  assumes "codec_ok cd" "store_step cd s (IdentityChecked a fp now (Inr FirstContact)) t"
    and "store_run cd t es u" "\<forall>b. Forgotten a (Inr b) \<notin> set es"
    and "store_step cd u (IdentityChecked a fp2 now2 (Inr res)) u'"
  shows "res = (if fp2 = fp then IdentityMatch else IdentityChanged fp) \<and> u' = u"
  using check_of_pinned [OF run_keeps_pin [OF assms(3) check_of_unknown [OF assms(1,2)] assms(4)] assms(5)] .

section \<open>Instances\<close>

definition demo_codec :: "(received_message + pinned_identity) codec" where
  "demo_codec = \<lparr>cd_message = Inl, cd_message_of = case_sum Some (\<lambda>_. None),
                 cd_pin = Inr, cd_pin_of = case_sum (\<lambda>_. None) Some\<rparr>"

lemma demo_codec_ok [simp]: "codec_ok demo_codec"
  by (simp add: codec_ok_def demo_codec_def)

definition demo_address :: misfin_address where
  "demo_address = \<lparr>ma_mailbox = ''me'', ma_host = ''h''\<rparr>"

lemma demo_run:
  "store_run demo_codec empty_store [Stored demo_address ''F'' None ''one'' 1 (Inr 0), Stored demo_address ''F'' None ''two'' 2 (Inl StorageFailed)]
     (snd (store_message demo_codec True empty_store demo_address ''F'' None ''one'' 1))"
  (is "store_run _ _ [?e, ?f] ?s")
proof -
  have "store_step demo_codec empty_store ?e ?s"
    by (rule step_store [where c = True]) (simp add: store_message_def Let_def next_seq_def empty_store_def)
  moreover have "store_step demo_codec ?s ?f ?s"
    by (rule step_store [where c = False]) (simp add: store_message_def Let_def next_seq_def empty_store_def)
  ultimately show ?thesis
    using run_step [OF run_step [OF run_empty]] by fastforce
qed

lemma store_step_wf_witness:
  "store_wf demo_codec (snd (check_and_record_identity demo_codec True empty_store ''a@b'' ''F'' 1))"
  by (rule store_step_wf [OF demo_codec_ok store_wf_empty step_check]) (rule prod.collapse [symmetric])

lemma mailbox_log_witness:
  "list_mailbox demo_codec True (snd (store_message demo_codec True empty_store demo_address ''F'' None ''one'' 1)) ''me@h'' =
     Inr [\<lparr>rm_seq = 0, rm_recipient = ''me@h'', rm_sender_fingerprint = ''F'', rm_sender_address = None,
           rm_body = ''one'', rm_received_at = 1\<rparr>]"
  using mailbox_is_delivery_log [OF demo_codec_ok demo_run, of "''me@h''"]
  by (simp add: delivered_def List.map_filter_def demo_address_def as_addr_spec_def)

lemma identity_pins_witness:
  "IdentityChanged ''F'' = (if ''G'' = ''F'' then IdentityMatch else IdentityChanged ''F'') \<and>
   snd (check_and_record_identity demo_codec True
     (snd (check_and_record_identity demo_codec True empty_store ''a@b'' ''F'' 1)) ''a@b'' ''G'' 2) =
   snd (check_and_record_identity demo_codec True empty_store ''a@b'' ''F'' 1)"
  (is "_ \<and> snd (check_and_record_identity _ _ ?s _ _ _) = ?s")
proof (rule identity_pins_hold [OF demo_codec_ok _ run_empty])
  show "store_step demo_codec empty_store (IdentityChecked ''a@b'' ''F'' 1 (Inr FirstContact)) ?s"
    by (rule step_check [where c = True]) (simp add: check_and_record_identity_def empty_store_def)
  show "store_step demo_codec ?s (IdentityChecked ''a@b'' ''G'' 2 (Inr (IdentityChanged ''F'')))
      (snd (check_and_record_identity demo_codec True ?s ''a@b'' ''G'' 2))"
    by (rule step_check [where c = True]) (simp add: check_and_record_identity_def empty_store_def demo_codec_def)
qed simp

end
