(* ===== verification/Misfin_Identity.thy ===== *)
theory Misfin_Identity
  imports Misfin_Core
begin

text \<open>
  Misfin identities (\<open>crates/misfin/src/identity.rs\<close>, \<open>x509_identity.rs\<close>): minting, the files they are
  kept in, and what a peer's certificate claims. The certificate and key libraries, the JSON codec
  and the failures of file operations are parameters; the directory is a map from file names.
\<close>

section \<open>Minting\<close>

text \<open>What is handed to the certificate library.\<close>

record certificate_params =
  cp_dns_name :: string
  cp_user_id :: string
  cp_common_name :: string
  cp_serial :: "nat option"
  cp_not_before :: "nat \<times> nat \<times> nat"
  cp_not_after :: "nat \<times> nat \<times> nat"

text \<open>\<open>dns_ok\<close> is \<open>CertificateParams::new\<close> accepting the host name.\<close>

definition spec_certificate_params :: "(string \<Rightarrow> bool) \<Rightarrow> misfin_identity_spec \<Rightarrow> certificate_params option" where
  "spec_certificate_params dns_ok spec =
     (if \<not> dns_ok (ma_host (mi_address spec)) then None
      else Some \<lparr>cp_dns_name = ma_host (mi_address spec), cp_user_id = ma_mailbox (mi_address spec),
                 cp_common_name = (case mi_blurb spec of Some b \<Rightarrow> b | None \<Rightarrow> as_addr_spec (mi_address spec)),
                 cp_serial = None, cp_not_before = (2024, 1, 1), cp_not_after = (2099, 12, 31)\<rparr>)"

text \<open>The certificate library: key import, signing and key serialisation.\<close>

record 'k cert_library =
  cl_dns_ok :: "string \<Rightarrow> bool"
  cl_import :: "string \<Rightarrow> 'k option"
  cl_self_signed :: "certificate_params \<Rightarrow> 'k \<Rightarrow> string option"
  cl_key_der :: "'k \<Rightarrow> string"

record client_identity =
  ci_chain :: "string list"
  ci_key :: string

definition identity_material_of :: "client_identity \<Rightarrow> identity_material" where
  "identity_material_of i =
     \<lparr>im_certificate = (case ci_chain i of [] \<Rightarrow> [] | c # _ \<Rightarrow> c), im_private_key = ci_key i\<rparr>"

text \<open>\<open>fresh\<close> is the key pair the library generates, if it does.\<close>

definition generate_identity :: "'k cert_library \<Rightarrow> 'k option \<Rightarrow> misfin_identity_spec \<Rightarrow> client_identity option" where
  "generate_identity lib fresh spec =
     (case fresh of None \<Rightarrow> None
      | Some key \<Rightarrow>
        (case spec_certificate_params (cl_dns_ok lib) spec of None \<Rightarrow> None
         | Some params \<Rightarrow>
           (case cl_self_signed lib params key of None \<Rightarrow> None
            | Some cert \<Rightarrow> Some \<lparr>ci_chain = [cert], ci_key = cl_key_der lib key\<rparr>)))"

definition pkcs8_prefix :: string where
  "pkcs8_prefix =
     map char_of [0x30, 0x2e, 0x02, 0x01, 0x00, 0x30, 0x05, 0x06, 0x03, 0x2b, 0x65, 0x70, 0x04, 0x22, 0x04, 0x20 :: nat]"

definition ed25519_pkcs8_der :: "string \<Rightarrow> string" where
  "ed25519_pkcs8_der seed = pkcs8_prefix @ seed"

definition deterministic_identity :: "'k cert_library \<Rightarrow> string \<Rightarrow> misfin_identity_spec \<Rightarrow> identity_material option" where
  "deterministic_identity lib seed spec =
     (case cl_import lib (ed25519_pkcs8_der seed) of None \<Rightarrow> None
      | Some key \<Rightarrow>
        (case spec_certificate_params (cl_dns_ok lib) spec of None \<Rightarrow> None
         | Some params \<Rightarrow>
           (case cl_self_signed lib (params\<lparr>cp_serial := Some 1\<rparr>) key of None \<Rightarrow> None
            | Some cert \<Rightarrow> Some \<lparr>im_certificate = cert, im_private_key = cl_key_der lib key\<rparr>)))"

section \<open>Identity files\<close>

record persisted_identity =
  pi_address :: string
  pi_blurb :: "string option"
  pi_certificate_hex :: string
  pi_key_hex :: string

record identity_status =
  is_address :: string
  is_path :: string
  is_exists :: bool
  is_blurb :: "string option"
  is_fingerprint :: "string option"

datatype identity_error =
    DirectoryFailed | ReadFailed | ParseFailed | HexInvalid | MintFailed | PersistFailed | RemoveFailed

text \<open>Which file operations succeed, and what a failed write leaves in the file.\<close>

record 'c disk =
  dk_create_dir :: bool
  dk_read :: bool
  dk_write :: bool
  dk_left :: "'c option"
  dk_remove :: bool

type_synonym 'c files = "string \<rightharpoonup> 'c"

text \<open>The JSON codec of the persisted form.\<close>

record 'c json =
  js_write :: "persisted_identity \<Rightarrow> 'c"
  js_read :: "'c \<Rightarrow> persisted_identity option"

definition identity_path_for_spec :: "misfin_identity_spec \<Rightarrow> string" where
  "identity_path_for_spec spec = sanitize_filename (as_addr_spec (mi_address spec)) @ ''.json''"

definition load_or_create_identity ::
    "'c disk \<Rightarrow> 'c json \<Rightarrow> client_identity option \<Rightarrow> misfin_identity_spec \<Rightarrow> 'c files \<Rightarrow>
     (identity_error + client_identity) \<times> 'c files" where
  "load_or_create_identity disk js minted spec files =
     (if \<not> dk_create_dir disk then (Inl DirectoryFailed, files)
      else let path = identity_path_for_spec spec in
        case files path of
          Some content \<Rightarrow>
            (if \<not> dk_read disk then (Inl ReadFailed, files)
             else case js_read js content of None \<Rightarrow> (Inl ParseFailed, files)
              | Some p \<Rightarrow>
                (case decode_hex (pi_certificate_hex p) of None \<Rightarrow> (Inl HexInvalid, files)
                 | Some cert \<Rightarrow>
                   (case decode_hex (pi_key_hex p) of None \<Rightarrow> (Inl HexInvalid, files)
                    | Some key \<Rightarrow> (Inr \<lparr>ci_chain = [cert], ci_key = key\<rparr>, files))))
        | None \<Rightarrow>
            (case minted of None \<Rightarrow> (Inl MintFailed, files)
             | Some i \<Rightarrow>
                 if \<not> dk_write disk then (Inl PersistFailed, files(path := dk_left disk))
                 else (Inr i,
                       files(path \<mapsto> js_write js
                         \<lparr>pi_address = as_addr_spec (mi_address spec), pi_blurb = mi_blurb spec,
                          pi_certificate_hex = encode_hex (hd (ci_chain i)), pi_key_hex = encode_hex (ci_key i)\<rparr>))))"

definition identity_material_with_root ::
    "'c disk \<Rightarrow> 'c json \<Rightarrow> client_identity option \<Rightarrow> misfin_identity_spec \<Rightarrow> 'c files \<Rightarrow>
     (identity_error + identity_material) \<times> 'c files" where
  "identity_material_with_root disk js minted spec files =
     (case load_or_create_identity disk js minted spec files of
        (Inl e, fs) \<Rightarrow> (Inl e, fs) | (Inr i, fs) \<Rightarrow> (Inr (identity_material_of i), fs))"

definition identity_status_with_root ::
    "(string \<Rightarrow> string) \<Rightarrow> 'c disk \<Rightarrow> 'c json \<Rightarrow> misfin_identity_spec \<Rightarrow> 'c files \<Rightarrow> identity_error + identity_status" where
  "identity_status_with_root sha disk js spec files =
     (let path = identity_path_for_spec spec in
      case files path of
        None \<Rightarrow> Inr \<lparr>is_address = as_addr_spec (mi_address spec), is_path = path, is_exists = False,
                     is_blurb = mi_blurb spec, is_fingerprint = None\<rparr>
      | Some content \<Rightarrow>
          if \<not> dk_read disk then Inl ReadFailed
          else case js_read js content of None \<Rightarrow> Inl ParseFailed
           | Some p \<Rightarrow>
             (case decode_hex (pi_certificate_hex p) of None \<Rightarrow> Inl HexInvalid
              | Some cert \<Rightarrow>
                  Inr \<lparr>is_address = pi_address p, is_path = path, is_exists = True, is_blurb = pi_blurb p,
                       is_fingerprint = Some (sha256_hex sha cert)\<rparr>))"

definition ensure_identity_with_root ::
    "(string \<Rightarrow> string) \<Rightarrow> 'c disk \<Rightarrow> 'c json \<Rightarrow> client_identity option \<Rightarrow> misfin_identity_spec \<Rightarrow> 'c files \<Rightarrow>
     (identity_error + identity_status) \<times> 'c files" where
  "ensure_identity_with_root sha disk js minted spec files =
     (case load_or_create_identity disk js minted spec files of
        (Inl e, fs) \<Rightarrow> (Inl e, fs) | (Inr _, fs) \<Rightarrow> (identity_status_with_root sha disk js spec fs, fs))"

definition forget_identity_with_root ::
    "'c disk \<Rightarrow> misfin_identity_spec \<Rightarrow> 'c files \<Rightarrow> (identity_error + bool) \<times> 'c files" where
  "forget_identity_with_root disk spec files =
     (let path = identity_path_for_spec spec in
      if files path = None then (Inr False, files)
      else if \<not> dk_remove disk then (Inl RemoveFailed, files)
      else (Inr True, files(path := None)))"

definition rotate_identity_with_root ::
    "(string \<Rightarrow> string) \<Rightarrow> 'c disk \<Rightarrow> 'c json \<Rightarrow> client_identity option \<Rightarrow> misfin_identity_spec \<Rightarrow> 'c files \<Rightarrow>
     (identity_error + identity_status) \<times> 'c files" where
  "rotate_identity_with_root sha disk js minted spec files =
     (case forget_identity_with_root disk spec files of
        (Inl e, fs) \<Rightarrow> (Inl e, fs) | (Inr _, fs) \<Rightarrow> ensure_identity_with_root sha disk js minted spec fs)"

section \<open>What a certificate claims\<close>

text \<open>
  The certificate parser's view: the subject's attributes in order (with their text, if it is
  text), the general names of the alternative-name extension when it is there and readable, and
  whether a point in time lies in the validity window (none for a time it cannot express).
\<close>

datatype oid = OidUserId | OidCommonName | OidOther
datatype general_name = DnsName string | OtherName

record x509 =
  x_subject :: "(oid \<times> string option) list"
  x_names :: "general_name list option"
  x_valid_at :: "nat \<Rightarrow> bool option"

record certificate_identity =
  cid_mailbox :: "string option"
  cid_hosts :: "string list"
  cid_blurb :: "string option"
  cid_expired :: bool

text \<open>One attribute of the subject, with the mailbox and blurb so far.\<close>

definition subject_attribute ::
    "string option \<times> string option \<Rightarrow> oid \<times> string option \<Rightarrow> string option \<times> string option" where
  "subject_attribute = (\<lambda>(mailbox, blurb) (oid, value).
     if oid = OidUserId then (if mailbox = None then value else mailbox, blurb)
     else if oid = OidCommonName \<and> blurb = None then (mailbox, value)
     else (mailbox, blurb))"

definition parse_certificate_identity :: "(string \<Rightarrow> x509 option) \<Rightarrow> string \<Rightarrow> nat \<Rightarrow> certificate_identity option" where
  "parse_certificate_identity from_der der now =
     (case from_der der of None \<Rightarrow> None
      | Some c \<Rightarrow>
          let (mailbox, blurb) = foldl subject_attribute (None, None) (x_subject c) in
          Some \<lparr>cid_mailbox = mailbox,
                cid_hosts = (case x_names c of None \<Rightarrow> []
                  | Some ns \<Rightarrow> List.map_filter (\<lambda>n. case n of DnsName d \<Rightarrow> Some (to_lower d) | OtherName \<Rightarrow> None) ns),
                cid_blurb = blurb,
                cid_expired = (case x_valid_at c now of Some valid \<Rightarrow> \<not> valid | None \<Rightarrow> False)\<rparr>)"

definition claimed_address :: "certificate_identity \<Rightarrow> misfin_address option" where
  "claimed_address i =
     (case cid_mailbox i of None \<Rightarrow> None
      | Some mailbox \<Rightarrow>
        (case cid_hosts i of [] \<Rightarrow> None | host # _ \<Rightarrow> parse_address (mailbox @ ''@'' @ host)))"

section \<open>Properties\<close>

definition disk_works :: "'c disk \<Rightarrow> bool" where
  "disk_works d \<longleftrightarrow> dk_create_dir d \<and> dk_read d \<and> dk_write d \<and> dk_remove d"

definition json_ok :: "'c json \<Rightarrow> bool" where
  "json_ok js \<longleftrightarrow> (\<forall>p. js_read js (js_write js p) = Some p)"

lemma load_created:
  assumes "disk_works d" "json_ok js" "files (identity_path_for_spec spec) = None" "ci_chain i = [cert]"
  shows "\<exists>content. load_or_create_identity d js (Some i) spec files =
      (Inr i, files(identity_path_for_spec spec \<mapsto> content)) \<and>
    js_read js content = Some \<lparr>pi_address = as_addr_spec (mi_address spec), pi_blurb = mi_blurb spec,
                               pi_certificate_hex = encode_hex cert, pi_key_hex = encode_hex (ci_key i)\<rparr>"
  using assms by (auto simp: load_or_create_identity_def disk_works_def json_ok_def)

lemma load_stored:
  assumes "disk_works d" "files (identity_path_for_spec spec) = Some content"
    "js_read js content = Some p" "pi_certificate_hex p = encode_hex cert" "pi_key_hex p = encode_hex key"
  shows "load_or_create_identity d js minted spec files = (Inr \<lparr>ci_chain = [cert], ci_key = key\<rparr>, files)"
    and "identity_status_with_root sha d js spec files =
      Inr \<lparr>is_address = pi_address p, is_path = identity_path_for_spec spec, is_exists = True,
           is_blurb = pi_blurb p, is_fingerprint = Some (sha256_hex sha cert)\<rparr>"
  using assms by (simp_all add: load_or_create_identity_def identity_status_with_root_def disk_works_def Let_def)

text \<open>
  (C35) The life of an identity: where none is stored, ensuring one mints and stores it and reports
  its address and fingerprint; from then on it is loaded unchanged, whatever a new minting would
  give; rotating replaces it by the newly minted one; forgetting it restores the directory.
\<close>

theorem identity_lifecycle:
  assumes "disk_works d" "json_ok js" "files (identity_path_for_spec spec) = None"
    and "i = \<lparr>ci_chain = [cert], ci_key = key\<rparr>" "i2 = \<lparr>ci_chain = [cert2], ci_key = key2\<rparr>"
    and "status = (\<lambda>c. \<lparr>is_address = as_addr_spec (mi_address spec), is_path = identity_path_for_spec spec,
      is_exists = True, is_blurb = mi_blurb spec, is_fingerprint = Some (certificate_fingerprint sha c)\<rparr>)"
  shows "\<exists>files1 files2.
    ensure_identity_with_root sha d js (Some i) spec files = (Inr (status cert), files1) \<and>
    load_or_create_identity d js other spec files1 = (Inr i, files1) \<and>
    rotate_identity_with_root sha d js (Some i2) spec files1 = (Inr (status cert2), files2) \<and>
    load_or_create_identity d js other spec files2 = (Inr i2, files2) \<and>
    forget_identity_with_root d spec files2 = (Inr True, files)"
proof -
  let ?path = "identity_path_for_spec spec"
  have ensured: "\<exists>fs. ensure_identity_with_root sha d js (Some \<lparr>ci_chain = [c], ci_key = k\<rparr>) spec files = (Inr (status c), fs) \<and>
      load_or_create_identity d js other spec fs = (Inr \<lparr>ci_chain = [c], ci_key = k\<rparr>, fs) \<and>
      fs ?path \<noteq> None \<and> fs(?path := None) = files" for c k
  proof -
    obtain content where c: "load_or_create_identity d js (Some \<lparr>ci_chain = [c], ci_key = k\<rparr>) spec files =
        (Inr \<lparr>ci_chain = [c], ci_key = k\<rparr>, files(?path \<mapsto> content))"
      "js_read js content = Some \<lparr>pi_address = as_addr_spec (mi_address spec), pi_blurb = mi_blurb spec,
         pi_certificate_hex = encode_hex c, pi_key_hex = encode_hex k\<rparr>"
      using load_created [OF assms(1,2), of files spec "\<lparr>ci_chain = [c], ci_key = k\<rparr>" c] assms(3) by auto
    then show ?thesis
      using assms(3,6) load_stored [OF assms(1), of "files(?path \<mapsto> content)" spec content js _ c k] c
      by (intro exI [of _ "files(?path \<mapsto> content)"])
        (auto simp: ensure_identity_with_root_def certificate_fingerprint_def fun_eq_iff)
  qed
  obtain f1 where f1: "ensure_identity_with_root sha d js (Some i) spec files = (Inr (status cert), f1)"
    "load_or_create_identity d js other spec f1 = (Inr i, f1)" "f1 ?path \<noteq> None" "f1(?path := None) = files"
    using ensured [of cert key] assms(4) by blast
  obtain f2 where f2: "ensure_identity_with_root sha d js (Some i2) spec files = (Inr (status cert2), f2)"
    "load_or_create_identity d js other spec f2 = (Inr i2, f2)" "f2 ?path \<noteq> None" "f2(?path := None) = files"
    using ensured [of cert2 key2] assms(5) by blast
  have gone: "forget_identity_with_root d spec f = (Inr True, files)" if "f ?path \<noteq> None" "f(?path := None) = files" for f
    using that assms(1) by (auto simp: forget_identity_with_root_def disk_works_def Let_def)
  have "rotate_identity_with_root sha d js (Some i2) spec f1 = (Inr (status cert2), f2)"
    using gone [OF f1(3,4)] f2(1) by (simp add: rotate_identity_with_root_def)
  then show ?thesis using f1 f2 gone [OF f2(3,4)] by blast
qed

text \<open>
  Addresses that differ only in characters not allowed in file names share one identity file:
  loading the identity of the second returns the certificate and key minted for the first.
\<close>

theorem identity_file_shared:
  assumes "disk_works d" "json_ok js" "files (identity_path_for_spec a) = None"
    and "sanitize_filename (as_addr_spec (mi_address a)) = sanitize_filename (as_addr_spec (mi_address b))"
    and "i = \<lparr>ci_chain = [cert], ci_key = key\<rparr>"
  shows "load_or_create_identity d js minted b (snd (load_or_create_identity d js (Some i) a files)) =
    (Inr i, snd (load_or_create_identity d js (Some i) a files))"
proof -
  obtain content where c: "load_or_create_identity d js (Some i) a files = (Inr i, files(identity_path_for_spec a \<mapsto> content))"
    "js_read js content = Some \<lparr>pi_address = as_addr_spec (mi_address a), pi_blurb = mi_blurb a,
       pi_certificate_hex = encode_hex cert, pi_key_hex = encode_hex key\<rparr>"
    using load_created [OF assms(1,2), of files a i cert] assms(3,5) by auto
  have "identity_path_for_spec a = identity_path_for_spec b"
    using assms(4) by (simp add: identity_path_for_spec_def)
  then show ?thesis
    using load_stored(1) [OF assms(1), of "files(identity_path_for_spec a \<mapsto> content)" b content js _ cert key] c assms(5) by simp
qed

definition spec_of :: "string \<Rightarrow> misfin_identity_spec" where
  "spec_of mailbox = \<lparr>mi_address = \<lparr>ma_mailbox = mailbox, ma_host = ''h''\<rparr>, mi_blurb = None\<rparr>"

definition demo_disk :: "persisted_identity disk" where
  "demo_disk = \<lparr>dk_create_dir = True, dk_read = True, dk_write = True, dk_left = None, dk_remove = True\<rparr>"

definition demo_json :: "persisted_identity json" where
  "demo_json = \<lparr>js_write = \<lambda>p. p, js_read = Some\<rparr>"

lemma demo_storage [simp]: "disk_works demo_disk" "json_ok demo_json"
  by (simp_all add: disk_works_def demo_disk_def json_ok_def demo_json_def)

lemma identity_lifecycle_witness:
  "\<exists>files1 files2.
    ensure_identity_with_root (\<lambda>b. b) demo_disk demo_json (Some \<lparr>ci_chain = [''A''], ci_key = ''K''\<rparr>) (spec_of ''me'') Map.empty =
      (Inr \<lparr>is_address = ''me@h'', is_path = ''me@h.json'', is_exists = True, is_blurb = None, is_fingerprint = Some ''41''\<rparr>, files1) \<and>
    load_or_create_identity demo_disk demo_json None (spec_of ''me'') files1 = (Inr \<lparr>ci_chain = [''A''], ci_key = ''K''\<rparr>, files1) \<and>
    rotate_identity_with_root (\<lambda>b. b) demo_disk demo_json (Some \<lparr>ci_chain = [''B''], ci_key = ''L''\<rparr>) (spec_of ''me'') files1 =
      (Inr \<lparr>is_address = ''me@h'', is_path = ''me@h.json'', is_exists = True, is_blurb = None, is_fingerprint = Some ''42''\<rparr>, files2) \<and>
    load_or_create_identity demo_disk demo_json None (spec_of ''me'') files2 = (Inr \<lparr>ci_chain = [''B''], ci_key = ''L''\<rparr>, files2) \<and>
    forget_identity_with_root demo_disk (spec_of ''me'') files2 = (Inr True, Map.empty)"
proof -
  have "identity_path_for_spec (spec_of ''me'') = ''me@h.json''" "encode_hex ''A'' = ''41''" "encode_hex ''B'' = ''42''"
    by code_simp+
  then show ?thesis
    using identity_lifecycle [OF demo_storage, of Map.empty "spec_of ''me''" _ "''A''" "''K''" _ "''B''" "''L''", OF _ refl refl refl, of "\<lambda>b. b" None]
    by (simp add: certificate_fingerprint_def sha256_hex_def spec_of_def as_addr_spec_def)
qed

lemma identity_file_shared_witness:
  "load_or_create_identity demo_disk demo_json None (spec_of ''a+b'')
     (snd (load_or_create_identity demo_disk demo_json (Some \<lparr>ci_chain = [''A''], ci_key = ''K''\<rparr>) (spec_of ''a_b'') Map.empty)) =
   (Inr \<lparr>ci_chain = [''A''], ci_key = ''K''\<rparr>,
    snd (load_or_create_identity demo_disk demo_json (Some \<lparr>ci_chain = [''A''], ci_key = ''K''\<rparr>) (spec_of ''a_b'') Map.empty))"
proof -
  have "sanitize_filename (as_addr_spec (mi_address (spec_of ''a_b''))) = sanitize_filename (as_addr_spec (mi_address (spec_of ''a+b'')))"
    by code_simp
  then show ?thesis
    using identity_file_shared [OF demo_storage, of Map.empty "spec_of ''a_b''" "spec_of ''a+b''" _ "''A''" "''K''" None, OF _ _ refl] by simp
qed

end
