(* ===== verification/Misfin_Mail.thy ===== *)
theory Misfin_Mail
  imports Misfin_Core Codec
begin

text \<open>
  Gemmail (\<open>crates/misfin/src/gemmail.rs\<close>): the first sender, recipients and timestamp line of a text,
  the subject and the body; writing a message; the recipients of a reply.
\<close>

record gemmail =
  gm_sender :: "misfin_sender option"
  gm_recipients :: "misfin_address list"
  gm_timestamp :: "string option"
  gm_subject :: "string option"
  gm_body :: string

section \<open>Reading\<close>

definition parse_sender_line :: "string \<Rightarrow> misfin_sender option" where
  "parse_sender_line line =
     (case strip_prefix ''<'' line of
        None \<Rightarrow> None
      | Some r \<Rightarrow>
          let remainder = trim r in
          if remainder = [] then None
          else let (address, blurb) = split_once_whitespace remainder in
            (case parse_address address of None \<Rightarrow> None | Some a \<Rightarrow> Some \<lparr>ms_address = a, ms_blurb = blurb\<rparr>))"

definition parse_recipients_line :: "string \<Rightarrow> misfin_address list option" where
  "parse_recipients_line line =
     (case strip_prefix '':'' line of
        None \<Rightarrow> None
      | Some r \<Rightarrow> those (map parse_address (split_whitespace (trim r))))"

definition parse_timestamp_line :: "string \<Rightarrow> string option" where
  "parse_timestamp_line line =
     (case strip_prefix ''@'' line of
        None \<Rightarrow> None
      | Some r \<Rightarrow> let remainder = trim r in if remainder = [] then None else Some remainder)"

text \<open>The variables of the loop over the lines.\<close>

record mail_state =
  st_sender :: "misfin_sender option"
  st_recipients :: "misfin_address list option"
  st_timestamp :: "string option"
  st_lines :: "string list"

definition gemmail_line :: "mail_state \<Rightarrow> string \<Rightarrow> mail_state" where
  "gemmail_line st line0 =
     (let line = trim_crs line0 in
      case (if st_sender st = None then parse_sender_line line else None) of
        Some s \<Rightarrow> st\<lparr>st_sender := Some s\<rparr>
      | None \<Rightarrow>
        (case (if st_recipients st = None then parse_recipients_line line else None) of
           Some rs \<Rightarrow> st\<lparr>st_recipients := Some rs\<rparr>
         | None \<Rightarrow>
           (case (if st_timestamp st = None then parse_timestamp_line line else None) of
              Some t \<Rightarrow> st\<lparr>st_timestamp := Some t\<rparr>
            | None \<Rightarrow> st\<lparr>st_lines := st_lines st @ [line]\<rparr>)))"

definition heading_of :: "string \<Rightarrow> string option" where
  "heading_of line =
     (case strip_prefix ''### '' line of
        Some h \<Rightarrow> Some (trim h)
      | None \<Rightarrow>
        (case strip_prefix ''## '' line of
           Some h \<Rightarrow> Some (trim h)
         | None \<Rightarrow> map_option trim (strip_prefix ''# '' line)))"

fun subject_of :: "string list \<Rightarrow> string option" where
  "subject_of [] = None"
| "subject_of (l # ls) = (case heading_of l of Some h \<Rightarrow> Some h | None \<Rightarrow> subject_of ls)"

definition parse_gemmail :: "string \<Rightarrow> gemmail" where
  "parse_gemmail t =
     (let st = foldl gemmail_line \<lparr>st_sender = None, st_recipients = None, st_timestamp = None, st_lines = []\<rparr>
                 (str_lines t) in
      \<lparr>gm_sender = st_sender st,
       gm_recipients = (case st_recipients st of Some rs \<Rightarrow> rs | None \<Rightarrow> []),
       gm_timestamp = st_timestamp st, gm_subject = subject_of (st_lines st),
       gm_body = join_with [LF] (st_lines st)\<rparr>)"

section \<open>Writing and replying\<close>

definition to_gemtext :: "gemmail \<Rightarrow> string" where
  "to_gemtext m =
     (case gm_sender m of
        Some s \<Rightarrow> ''< '' @ as_addr_spec (ms_address s) @ (case ms_blurb s of Some b \<Rightarrow> CHR '' '' # b | None \<Rightarrow> []) @ [LF]
      | None \<Rightarrow> []) @
     (if gm_recipients m \<noteq> []
      then '':'' @ concat (map (\<lambda>r. CHR '' '' # as_addr_spec r) (gm_recipients m)) @ [LF] else []) @
     (case gm_timestamp m of Some t \<Rightarrow> ''@ '' @ t @ [LF] | None \<Rightarrow> []) @
     gm_body m"

text \<open>The closure \<open>push\<close>.\<close>

definition push_recipient :: "misfin_address \<Rightarrow> misfin_address list \<Rightarrow> misfin_address \<Rightarrow> misfin_address list" where
  "push_recipient me out candidate =
     (if candidate \<noteq> me \<and> candidate \<notin> set out then out @ [candidate] else out)"

definition reply_recipients :: "gemmail \<Rightarrow> misfin_address \<Rightarrow> misfin_address list" where
  "reply_recipients m me =
     foldl (push_recipient me)
       (case gm_sender m of Some s \<Rightarrow> push_recipient me [] (ms_address s) | None \<Rightarrow> []) (gm_recipients m)"

section \<open>Lines written are lines read\<close>

definition address_ok :: "misfin_address \<Rightarrow> bool" where
  "address_ok a \<longleftrightarrow> is_word (ma_mailbox a) \<and> CHR ''@'' \<notin> set (ma_mailbox a) \<and> is_word (ma_host a) \<and> to_lower (ma_host a) = ma_host a"

definition text_ok :: "string \<Rightarrow> bool" where
  "text_ok t \<longleftrightarrow> t \<noteq> [] \<and> trim t = t \<and> LF \<notin> set t"

lemma addr_spec_word: "address_ok a \<Longrightarrow> is_word (as_addr_spec a)"
  by (auto simp: address_ok_def as_addr_spec_def is_word_def ascii_def ascii_ws_def between_def)

lemma parse_addr_spec: "address_ok a \<Longrightarrow> parse_address (as_addr_spec a) = Some a"
  using addr_spec_word [of a] visible_trim [of "as_addr_spec a"]
  by (cases a) (auto simp: parse_address_def as_addr_spec_def address_ok_def is_word_def)

lemma ws_last_after_ascii:
  assumes "ascii c" "s \<noteq> []"
  shows "ws_last (a @ c # s) = ws_last s"
proof (cases s rule: rev_cases)
  case (snoc t x)
  show ?thesis
  proof (cases t rule: rev_cases)
    case Nil
    with snoc assms(1) show ?thesis
      by (auto simp: ws_last_def byte_at_def ws2_def ws3_def ascii_def Let_def)
  next
    case (snoc u y)
    with \<open>s = t @ [x]\<close> assms(1) show ?thesis
      by (cases u rule: rev_cases) (auto simp: ws_last_def byte_at_def ws2_def ws3_def ascii_def Let_def)
  qed
qed (use assms in simp)

lemma trim_word_text:
  assumes "is_word w" "trim b = b" "b \<noteq> []"
  shows "trim (w @ CHR '' '' # b) = w @ CHR '' '' # b"
proof (rule trim_id)
  obtain c w' where "w = c # w'" "ascii c" "\<not> ascii_ws c" using assms(1) by (cases w) (auto simp: is_word_def)
  then show "ws_head (w @ CHR '' '' # b) = 0" by (simp add: ws_head_ascii)
  show "ws_last (w @ CHR '' '' # b) = 0"
    using assms(2,3) by (simp add: ws_last_after_ascii trim_self_ws ascii_def)
qed

definition sender_line :: "misfin_sender \<Rightarrow> string" where
  "sender_line s = ''< '' @ as_addr_spec (ms_address s) @ (case ms_blurb s of Some b \<Rightarrow> CHR '' '' # b | None \<Rightarrow> [])"

definition sender_ok :: "misfin_sender \<Rightarrow> bool" where
  "sender_ok s \<longleftrightarrow> address_ok (ms_address s) \<and> (case ms_blurb s of None \<Rightarrow> True | Some b \<Rightarrow> text_ok b)"

lemma parse_sender_written:
  assumes "sender_ok s"
  shows "parse_sender_line (sender_line s) = Some s"
proof -
  let ?w = "as_addr_spec (ms_address s)"
  have w: "is_word ?w" "parse_address ?w = Some (ms_address s)"
    using assms addr_spec_word parse_addr_spec by (auto simp: sender_ok_def)
  show ?thesis
  proof (cases "ms_blurb s")
    case None
    have "trim (CHR '' '' # ?w) = ?w" using w(1) by (simp add: trim_ws_Cons visible_trim is_word_def)
    with None w show ?thesis
      by (cases s) (auto simp: parse_sender_line_def sender_line_def split_once_whitespace_def find_ws_visible is_word_def)
  next
    case (Some b)
    with assms have b: "trim b = b" "b \<noteq> []" by (auto simp: sender_ok_def text_ok_def)
    have "trim (CHR '' '' # ?w @ CHR '' '' # b) = ?w @ CHR '' '' # b"
      using trim_word_text [OF w(1) b] by (simp add: trim_ws_Cons)
    moreover have "split_once_whitespace (?w @ CHR '' '' # b) = (?w, Some b)"
      using w(1) b by (simp add: split_once_whitespace_def find_ws_append is_word_def trim_ws_Cons)
    ultimately show ?thesis
      using Some w by (cases s) (auto simp: parse_sender_line_def sender_line_def is_word_def)
  qed
qed

definition recipients_line :: "misfin_address list \<Rightarrow> string" where
  "recipients_line rs = '':'' @ concat (map (\<lambda>r. CHR '' '' # as_addr_spec r) rs)"

lemma those_map_Some: "\<forall>x \<in> set xs. f x = Some (g x) \<Longrightarrow> those (map f xs) = Some (map g xs)"
  by (induction xs) auto

lemma spaced_words: "ws \<noteq> [] \<Longrightarrow> concat (map (\<lambda>w. CHR '' '' # w) ws) = CHR '' '' # join_with '' '' ws"
  by (induction ws rule: induct_list012) simp_all

lemma split_whitespace_trim_words:
  assumes "\<forall>w \<in> set ws. is_word w" "ws \<noteq> []"
  shows "trim (join_with '' '' ws) = join_with '' '' ws"
proof (cases ws rule: rev_cases)
  case (snoc init w)
  have w: "is_word w" using assms(1) snoc by simp
  show ?thesis
  proof (cases "init = []")
    case True
    with snoc w show ?thesis by (simp add: is_word_def visible_trim)
  next
    case False
    have "join_with '' '' ws = join_with '' '' init @ CHR '' '' # w"
      using False snoc join_with_append [of init "[w]" "'' ''"] by simp
    moreover obtain v vs where "init = v # vs" using False by (cases init) auto
    then have "is_word v" "hd (join_with '' '' ws) = hd v" "join_with '' '' ws \<noteq> []"
      using assms(1) snoc hd_join [of ws "'' ''"] by (auto simp: is_word_def)
    ultimately show ?thesis
      using w by (intro trim_visible) (auto simp: is_word_def visible_def dest: hd_in_set)
  qed
qed (use assms in simp)

lemma parse_recipients_written:
  assumes "\<forall>r \<in> set rs. address_ok r" "rs \<noteq> []"
  shows "parse_recipients_line (recipients_line rs) = Some rs"
proof -
  let ?ws = "map as_addr_spec rs"
  have ws: "\<forall>w \<in> set ?ws. is_word w" "?ws \<noteq> []" using assms addr_spec_word by auto
  have "recipients_line rs = '': '' @ join_with '' '' ?ws"
    using spaced_words [OF ws(2)] by (simp add: recipients_line_def comp_def)
  moreover have "split_whitespace (trim (CHR '' '' # join_with '' '' ?ws)) = ?ws"
    using split_whitespace_join [OF ws(1)] split_whitespace_trim_words [OF ws] by (simp add: trim_ws_Cons)
  moreover have "those (map parse_address ?ws) = Some rs"
    using those_map_Some [of rs "\<lambda>r. parse_address (as_addr_spec r)" "\<lambda>r. r"] assms(1) parse_addr_spec
    by (simp add: comp_def)
  ultimately show ?thesis by (simp add: parse_recipients_line_def)
qed

lemma parse_timestamp_written: "text_ok t \<Longrightarrow> parse_timestamp_line (''@ '' @ t) = Some t"
  by (simp add: parse_timestamp_line_def text_ok_def trim_ws_Cons)

section \<open>Messages written are messages read\<close>

text \<open>
  A message that can be written so that it is read back: proper addresses, blurb and timestamp; a
  body of lines whose last one is not empty, none of which reads as a metadata line of a kind the
  message does not have; the subject its first heading.
\<close>

definition body_line_ok :: "gemmail \<Rightarrow> string \<Rightarrow> bool" where
  "body_line_ok m l \<longleftrightarrow>
     line_safe l \<and>
     (gm_sender m = None \<longrightarrow> parse_sender_line l = None) \<and>
     (gm_recipients m = [] \<longrightarrow> parse_recipients_line l = None) \<and>
     (gm_timestamp m = None \<longrightarrow> parse_timestamp_line l = None)"

definition mail_ok :: "gemmail \<Rightarrow> string list \<Rightarrow> bool" where
  "mail_ok m ls \<longleftrightarrow>
     (\<forall>s. gm_sender m = Some s \<longrightarrow> sender_ok s) \<and> (\<forall>r \<in> set (gm_recipients m). address_ok r) \<and>
     (\<forall>t. gm_timestamp m = Some t \<longrightarrow> text_ok t) \<and>
     (\<forall>l \<in> set ls. body_line_ok m l) \<and> (ls \<noteq> [] \<longrightarrow> last ls \<noteq> []) \<and>
     gm_body m = join_with [LF] ls \<and> gm_subject m = subject_of ls"

definition meta_lines :: "gemmail \<Rightarrow> string list" where
  "meta_lines m =
     (case gm_sender m of Some s \<Rightarrow> [sender_line s] | None \<Rightarrow> []) @
     (if gm_recipients m \<noteq> [] then [recipients_line (gm_recipients m)] else []) @
     (case gm_timestamp m of Some t \<Rightarrow> [''@ '' @ t] | None \<Rightarrow> [])"

lemma to_gemtext_lines: "to_gemtext m = concat (map (\<lambda>l. l @ [LF]) (meta_lines m)) @ gm_body m"
  by (auto simp: to_gemtext_def meta_lines_def sender_line_def recipients_line_def split: option.split)

lemma text_ok_end: "text_ok t \<Longrightarrow> last t \<noteq> CR \<and> LF \<notin> set t \<and> t \<noteq> []"
  using trimmed_ends(2) [of t] by (auto simp: text_ok_def)

lemma last_notin: "c \<notin> set l \<Longrightarrow> l = [] \<or> last l \<noteq> c"
  by (cases l rule: rev_cases) auto

lemma word_line: "is_word w \<Longrightarrow> last w \<noteq> CR \<and> LF \<notin> set w \<and> CR \<notin> set w \<and> w \<noteq> []"
  using visible_not_sp [of w] last_notin [of CR w] by (auto simp: is_word_def)

lemma meta_line_safe:
  assumes "mail_ok m ls" "l \<in> set (meta_lines m)"
  shows "line_safe l"
proof -
  have "line_safe (sender_line s)" if "gm_sender m = Some s" for s
    using that assms(1) addr_spec_word [of "ms_address s"] word_line [of "as_addr_spec (ms_address s)"] text_ok_end
    by (auto simp: mail_ok_def sender_ok_def sender_line_def line_safe_def split: option.splits)
  moreover have "line_safe (recipients_line (gm_recipients m))" if "gm_recipients m \<noteq> []"
  proof -
    have ws: "\<forall>w \<in> set (map as_addr_spec (gm_recipients m)). is_word w"
      using assms(1) addr_spec_word by (auto simp: mail_ok_def)
    have "recipients_line (gm_recipients m) = '': '' @ join_with '' '' (map as_addr_spec (gm_recipients m))"
      using spaced_words [of "map as_addr_spec (gm_recipients m)"] that by (simp add: recipients_line_def comp_def)
    then show ?thesis
      using join_words_no_eol [OF ws] last_notin [of CR "join_with '' '' (map as_addr_spec (gm_recipients m))"]
      by (auto simp: line_safe_def)
  qed
  moreover have "line_safe (''@ '' @ t)" if "gm_timestamp m = Some t" for t
    using that assms(1) text_ok_end by (auto simp: mail_ok_def line_safe_def)
  ultimately show ?thesis using assms(2) by (auto simp: meta_lines_def split: option.splits if_splits)
qed

lemma safe_trim_crs: "line_safe l \<Longrightarrow> trim_crs l = l"
  by (intro trim_crs_id) (simp add: line_safe_def)

lemma gemmail_body_lines:
  assumes "\<forall>l \<in> set ls. line_safe l \<and> (st_sender st = None \<longrightarrow> parse_sender_line l = None) \<and>
    (st_recipients st = None \<longrightarrow> parse_recipients_line l = None) \<and> (st_timestamp st = None \<longrightarrow> parse_timestamp_line l = None)"
  shows "foldl gemmail_line st ls = st\<lparr>st_lines := st_lines st @ ls\<rparr>"
  using assms
proof (induction ls arbitrary: st)
  case (Cons l ls)
  have "gemmail_line st l = st\<lparr>st_lines := st_lines st @ [l]\<rparr>"
    using Cons.prems by (simp add: gemmail_line_def safe_trim_crs)
  with Cons show ?case by simp
qed simp

lemma gemmail_meta_lines:
  assumes "mail_ok m ls"
  shows "foldl gemmail_line \<lparr>st_sender = None, st_recipients = None, st_timestamp = None, st_lines = []\<rparr> (meta_lines m) =
    \<lparr>st_sender = gm_sender m, st_recipients = (if gm_recipients m = [] then None else Some (gm_recipients m)),
     st_timestamp = gm_timestamp m, st_lines = []\<rparr>"
proof -
  have safe: "trim_crs l = l" if "l \<in> set (meta_lines m)" for l
    using that meta_line_safe [OF assms] safe_trim_crs by blast
  have "parse_sender_line (recipients_line rs) = None" "parse_sender_line (''@ '' @ t) = None"
    "parse_recipients_line (''@ '' @ t) = None" for rs t
    by (simp_all add: parse_sender_line_def parse_recipients_line_def recipients_line_def)
  then show ?thesis
    using assms safe parse_sender_written parse_recipients_written parse_timestamp_written
    by (cases "gm_sender m"; cases "gm_recipients m = []"; cases "gm_timestamp m")
      (simp_all add: mail_ok_def meta_lines_def gemmail_line_def)
qed

lemma parse_written_mail:
  assumes "mail_ok m ls"
  shows "parse_gemmail (to_gemtext m) = m"
proof -
  have body: "\<forall>l \<in> set ls. body_line_ok m l" "ls \<noteq> [] \<Longrightarrow> last ls \<noteq> []" "gm_body m = join_with [LF] ls"
    using assms by (auto simp: mail_ok_def)
  have "str_lines (to_gemtext m) = meta_lines m @ ls"
    using str_lines_all [of "meta_lines m" "gm_body m"] meta_line_safe [OF assms] str_lines_join [of ls] body
    by (simp add: to_gemtext_lines body_line_ok_def)
  then show ?thesis
    using assms body(1) gemmail_meta_lines [OF assms]
    by (cases m) (auto simp: parse_gemmail_def mail_ok_def gemmail_body_lines body_line_ok_def)
qed

interpretation gemmail: wire_codec "\<lambda>m. \<exists>ls. mail_ok m ls" to_gemtext "\<lambda>t. (Inr (parse_gemmail t) :: unit + gemmail)"
  by unfold_locales (auto simp: parse_written_mail)

text \<open>Two such messages with the same text are the same message.\<close>

lemma gemtext_inject: "mail_ok m ls \<Longrightarrow> mail_ok n ks \<Longrightarrow> to_gemtext m = to_gemtext n \<longleftrightarrow> m = n"
  using gemmail.enc_inject [of m n] by blast

text \<open>
  (C34) Gemmail round trip: a message with proper metadata, written by \<open>to_gemtext\<close>, is parsed back to
  itself, subject included, provided its body does not end in an empty line and holds no line that
  would be read as a metadata line the message lacks.
\<close>

theorem gemmail_roundtrip:
  assumes "mail_ok m ls"
  shows "parse_gemmail (to_gemtext m) = m"
  using assms by (rule parse_written_mail)

lemma gemmail_witness:
  "let m = \<lparr>gm_sender = Some \<lparr>ms_address = \<lparr>ma_mailbox = ''a'', ma_host = ''x''\<rparr>, ms_blurb = Some ''A B''\<rparr>,
            gm_recipients = [\<lparr>ma_mailbox = ''b'', ma_host = ''y''\<rparr>], gm_timestamp = None,
            gm_subject = Some ''Hi'', gm_body = ''# Hi'' @ [LF] @ ''< a@x''\<rparr>
   in parse_gemmail (to_gemtext m) = m"
proof -
  have "trim ''A B'' = ''A B''" "trim ''Hi'' = ''Hi''"
    by (intro trim_visible; simp add: ascii_def ascii_ws_def between_def)+
  then show ?thesis
    unfolding Let_def
    by (intro gemmail_roundtrip [where ls = "[''# Hi'', ''< a@x'']"])
      (simp add: mail_ok_def sender_ok_def address_ok_def text_ok_def body_line_ok_def line_safe_def is_word_def
        parse_recipients_line_def parse_timestamp_line_def heading_of_def ascii_def ascii_ws_def between_def
        to_lower_def lower_char_def is_ascii_upper_def)
qed

section \<open>Replies\<close>

lemma push_recipients_fold:
  assumes "distinct out" "me \<notin> set out"
  shows "distinct (foldl (push_recipient me) out cs) \<and> set (foldl (push_recipient me) out cs) = set out \<union> (set cs - {me})"
  using assms by (induction cs arbitrary: out) (auto simp: push_recipient_def)

lemma reply_recipients_set:
  "distinct (reply_recipients m me) \<and>
   set (reply_recipients m me) =
     (case gm_sender m of Some s \<Rightarrow> {ms_address s} | None \<Rightarrow> {}) \<union> set (gm_recipients m) - {me}"
proof (cases "gm_sender m")
  case None
  then show ?thesis using push_recipients_fold [of "[]" me] by (simp add: reply_recipients_def)
next
  case (Some s)
  then show ?thesis
    using push_recipients_fold [of "push_recipient me [] (ms_address s)" me]
    by (auto simp: reply_recipients_def push_recipient_def)
qed

end
