(* ===== verification/Misfin_Net.thy ===== *)
theory Misfin_Net
  imports Misfin_Store Misfin_Identity Misfin_Mail
begin

text \<open>
  One misfin transaction from both ends (\<open>crates/misfin/src/client.rs\<close>, \<open>server.rs\<close>): the request
  line, the dispatcher over the mailbox store, the handshake with its verifiers, one connection of
  the server, and the sending client. SHA-256, the certificate parser and the URL parser are
  parameters; dialling, the clock and the outcome of each database transaction are arguments.
\<close>

section \<open>Responses and requests\<close>

record misfin_response =
  mr_status :: nat
  mr_meta :: string

definition misfin_response_encode :: "misfin_response \<Rightarrow> string" where
  "misfin_response_encode r =
     (if mr_status r < 10 then ''0'' else []) @ show_nat (mr_status r) @ '' '' @ mr_meta r @ CRLF"

record served_mailbox =
  sm_address :: misfin_address
  sm_fingerprint :: string

record misfin_config =
  mc_tls_certificate :: string
  mc_tls_private_key :: string
  mc_served :: "served_mailbox list"
  mc_require_sender_identity :: bool
  mc_reject_changed_sender :: bool

definition misfin_config_new :: "string \<Rightarrow> string \<Rightarrow> served_mailbox list \<Rightarrow> misfin_config" where
  "misfin_config_new certificate private_key served =
     \<lparr>mc_tls_certificate = certificate, mc_tls_private_key = private_key, mc_served = served, mc_require_sender_identity = False, mc_reject_changed_sender = True\<rparr>"

definition split_request :: "string \<Rightarrow> (string \<times> string) option" where
  "split_request request =
     (case split_once (CHR '' '') (trim_start request) of
        None \<Rightarrow> None
      | Some (target, message) \<Rightarrow> if starts_with ''misfin://'' target then Some (target, message) else None)"

definition parse_recipient :: "url_parser \<Rightarrow> string \<Rightarrow> misfin_address option" where
  "parse_recipient up target = (case up target of None \<Rightarrow> None | Some u \<Rightarrow> address_from_url u)"

definition serves_host :: "misfin_config \<Rightarrow> string \<Rightarrow> bool" where
  "serves_host cfg host \<longleftrightarrow> (\<exists>m \<in> set (mc_served cfg). ma_host (sm_address m) = host)"

definition find_mailbox :: "misfin_config \<Rightarrow> misfin_address \<Rightarrow> served_mailbox option" where
  "find_mailbox cfg recipient = find (\<lambda>m. sm_address m = recipient) (mc_served cfg)"

section \<open>The dispatcher\<close>

text \<open>The libraries a dispatcher rests on, and whether each of its three transactions commits.\<close>

record misfin_libs =
  lb_sha :: "string \<Rightarrow> string"
  lb_x509 :: "string \<Rightarrow> x509 option"
  lb_url :: url_parser

record commits =
  cm_identity :: bool
  cm_sender :: bool
  cm_message :: bool

definition response_new :: "nat \<Rightarrow> string \<Rightarrow> misfin_response" where
  "response_new status meta = \<lparr>mr_status = status, mr_meta = meta\<rparr>"

text \<open>The check of a claimed sender: \<open>None\<close> when the message may be stored.\<close>

definition dispatch_identity ::
    "misfin_config \<Rightarrow> 'v codec \<Rightarrow> bool \<Rightarrow> 'v mailbox_store \<Rightarrow> misfin_sender option \<Rightarrow> string \<Rightarrow> nat \<Rightarrow>
     misfin_response option \<times> 'v mailbox_store" where
  "dispatch_identity cfg cd commits s sender fingerprint now =
     (case sender of None \<Rightarrow> (None, s)
      | Some x \<Rightarrow>
        (case check_and_record_identity cd commits s (as_addr_spec (ms_address x)) fingerprint now of
           (Inl _, s') \<Rightarrow> (Some (response_new 40 ''Temporary server error.''), s')
         | (Inr check, s') \<Rightarrow>
             ((if is_changed check \<and> mc_reject_changed_sender cfg
               then Some (response_new 63 ''Your fingerprint changed for a known identity.'') else None), s')))"

text \<open>
  The message is stored: the last part of \<open>dispatch\<close>. No response means that the task panicked: the
  sequence number overflowed.
\<close>

definition dispatch_store ::
    "'v codec \<Rightarrow> commits \<Rightarrow> 'v mailbox_store \<Rightarrow> misfin_address \<Rightarrow> string \<Rightarrow> string \<Rightarrow> misfin_sender option \<Rightarrow> string \<Rightarrow> nat \<Rightarrow>
     misfin_response option \<times> 'v mailbox_store" where
  "dispatch_store cd cm s recipient served_fp fingerprint sender message now =
     (case record_sender (cm_sender cm) s fingerprint now of
        (Inl _, s1) \<Rightarrow> (Some (response_new 40 ''Temporary server error.''), s1)
      | (Inr _, s1) \<Rightarrow>
        (case store_message cd (cm_message cm) s1 recipient fingerprint sender message now of
           (Inr _, s2) \<Rightarrow> (Some (response_new 20 served_fp), s2)
         | (Inl SequenceOverflow, s2) \<Rightarrow> (None, s2)
         | (Inl StorageFailed, s2) \<Rightarrow> (Some (response_new 40 ''Temporary server error.''), s2)))"

definition misfin_dispatch ::
    "misfin_libs \<Rightarrow> misfin_config \<Rightarrow> 'v codec \<Rightarrow> commits \<Rightarrow> 'v mailbox_store \<Rightarrow> string \<Rightarrow> string option \<Rightarrow> nat \<Rightarrow>
     misfin_response option \<times> 'v mailbox_store" where
  "misfin_dispatch lb cfg cd cm s request peer_cert now =
     (case peer_cert of None \<Rightarrow> (Some (response_new 60 ''Certificate required.''), s)
      | Some cert \<Rightarrow>
      (case split_request request of None \<Rightarrow> (Some (response_new 59 ''Malformed request.''), s)
       | Some (target, message) \<Rightarrow>
       (case parse_recipient (lb_url lb) target of None \<Rightarrow> (Some (response_new 59 ''Malformed recipient address.''), s)
        | Some recipient \<Rightarrow>
          if \<not> serves_host cfg (ma_host recipient) then (Some (response_new 53 ''Domain not serviced.''), s)
          else (case find_mailbox cfg recipient of None \<Rightarrow> (Some (response_new 51 ''Mailbox doesn't exist.''), s)
          | Some served \<Rightarrow>
            let fingerprint = sha256_hex (lb_sha lb) cert;
                identity = parse_certificate_identity (lb_x509 lb) cert now
            in if (case identity of Some i \<Rightarrow> cid_expired i | None \<Rightarrow> False)
               then (Some (response_new 62 ''Certificate is outside its validity window.''), s)
               else
                 let claimed = Option.bind identity claimed_address in
                 if claimed = None \<and> mc_require_sender_identity cfg
                 then (Some (response_new 62 ''Certificate is not a misfin identity.''), s)
                 else
                   let sender = map_option (\<lambda>a. \<lparr>ms_address = a, ms_blurb = Option.bind identity cid_blurb\<rparr>) claimed in
                   (case dispatch_identity cfg cd (cm_identity cm) s sender fingerprint now of
                      (Some r, s1) \<Rightarrow> (Some r, s1)
                    | (None, s1) \<Rightarrow>
                        dispatch_store cd cm s1 recipient (sm_fingerprint served) fingerprint sender message now)))))"

section \<open>A connection of the server\<close>

datatype request_read = RequestLine string | RequestTooLong | RequestNotUtf8 | RequestFailed

text \<open>
  Bytes up to the first CRLF or the end of the stream, which also ends a request; a request of 2048
  bytes without a CRLF is too long. A timeout is a failing stream.
\<close>

definition finish_request :: "string \<Rightarrow> request_read" where
  "finish_request buf = (if valid_utf8 buf then RequestLine (trim_newlines buf) else RequestNotUtf8)"

fun misfin_read_request :: "string \<Rightarrow> string \<Rightarrow> stream_end \<Rightarrow> request_read" where
  "misfin_read_request buf [] e = (case e of Eof \<Rightarrow> finish_request buf | Broken \<Rightarrow> RequestFailed)"
| "misfin_read_request buf (c # cs) e =
     (if ends_with CRLF (buf @ [c]) then finish_request (buf @ [c])
      else if MAX_REQUEST \<le> length (buf @ [c]) then RequestTooLong
      else misfin_read_request (buf @ [c]) cs e)"

text \<open>What the server writes, or nothing when reading failed (or the task panicked).\<close>

definition misfin_handle_connection ::
    "misfin_libs \<Rightarrow> misfin_config \<Rightarrow> 'v codec \<Rightarrow> commits \<Rightarrow> 'v mailbox_store \<Rightarrow> string option \<Rightarrow> nat \<Rightarrow> string \<Rightarrow> stream_end \<Rightarrow>
     string option \<times> 'v mailbox_store" where
  "misfin_handle_connection lb cfg cd cm s peer_cert now input e =
     (case misfin_read_request [] input e of
        RequestFailed \<Rightarrow> (None, s)
      | RequestTooLong \<Rightarrow> (Some (misfin_response_encode (response_new 59 ''Request exceeds 2048 bytes.'')), s)
      | RequestNotUtf8 \<Rightarrow> (Some (misfin_response_encode (response_new 59 ''Request is not UTF-8.'')), s)
      | RequestLine request \<Rightarrow>
          (case misfin_dispatch lb cfg cd cm s request peer_cert now of
             (r, s') \<Rightarrow> (map_option misfin_response_encode r, s')))"

section \<open>The handshake\<close>

text \<open>
  \<open>AcceptAnyClient\<close>: a certificate is asked for, not required, and every certificate and every
  handshake signature is accepted. \<open>genuine\<close> says whether the signature verifies under the
  certificate's key, that is, whether the peer holds its private key.
\<close>

definition client_auth_mandatory :: bool where "client_auth_mandatory = False"

definition verify_client_cert :: "string \<Rightarrow> bool" where "verify_client_cert cert = True"

definition verify_client_signature :: "bool \<Rightarrow> bool" where "verify_client_signature genuine = True"

record misfin_peer =
  mp_certificate :: "string option"
  mp_genuine :: bool

text \<open>The handshake as rustls runs it with the verifier: the certificate the server then sees.\<close>

definition accept_peer :: "misfin_peer \<Rightarrow> string option option" where
  "accept_peer p =
     (case mp_certificate p of
        None \<Rightarrow> if client_auth_mandatory then None else Some None
      | Some cert \<Rightarrow>
          if verify_client_cert cert \<and> verify_client_signature (mp_genuine p) then Some (Some cert) else None)"

definition misfin_serve ::
    "misfin_libs \<Rightarrow> misfin_config \<Rightarrow> 'v codec \<Rightarrow> commits \<Rightarrow> 'v mailbox_store \<Rightarrow> misfin_peer \<Rightarrow> nat \<Rightarrow> string \<Rightarrow> stream_end \<Rightarrow>
     string option \<times> 'v mailbox_store" where
  "misfin_serve lb cfg cd cm s peer now input e =
     (case accept_peer peer of
        None \<Rightarrow> (None, s)
      | Some cert \<Rightarrow> misfin_handle_connection lb cfg cd cm s cert now input e)"

section \<open>The client\<close>

datatype send_error =
    MessageTooLong nat nat | MessageContainsCarriageReturn | InvalidHost | FingerprintMismatch string string
  | SendTls | SendIo | SendTimeout | BadResponse

record send_options =
  so_identity :: "identity_material option"
  so_extra_chain :: "string list"
  so_port :: "nat option"
  so_expected_fingerprint :: "string option"
  so_connect_addr :: "(string \<times> nat) option"

record send_receipt =
  sr_status :: misfin_status
  sr_meta :: string
  sr_server_fingerprint :: string

definition build_request :: "misfin_address \<Rightarrow> string \<Rightarrow> send_error + string" where
  "build_request recipient message =
     (if CR \<in> set message then Inl MessageContainsCarriageReturn
      else let request = ''misfin://'' @ as_addr_spec recipient @ '' '' @ message @ CRLF in
        if MAX_REQUEST < length request then Inl (MessageTooLong (length request) MAX_REQUEST) else Inr request)"

fun misfin_response_line :: "string \<Rightarrow> string \<Rightarrow> stream_end \<Rightarrow> send_error + string" where
  "misfin_response_line buf [] e = (case e of Eof \<Rightarrow> Inr (from_utf8_lossy buf) | Broken \<Rightarrow> Inl SendIo)"
| "misfin_response_line buf (c # cs) e =
     (if ends_with CRLF (buf @ [c]) \<or> MAX_REQUEST \<le> length (buf @ [c]) then Inr (from_utf8_lossy (buf @ [c]))
      else misfin_response_line (buf @ [c]) cs e)"

text \<open>\<open>send\<close> from the write on.\<close>

definition misfin_transact :: "(string \<Rightarrow> string \<times> stream_end) \<Rightarrow> string \<Rightarrow> string \<Rightarrow> send_error + send_receipt" where
  "misfin_transact stream request server_fingerprint =
     (case stream request of (raw, e) \<Rightarrow>
      case misfin_response_line [] raw e of Inl x \<Rightarrow> Inl x
      | Inr line \<Rightarrow>
        (case misfin_parse_response_line line of None \<Rightarrow> Inl BadResponse
         | Some (status, meta) \<Rightarrow>
             Inr \<lparr>sr_status = status, sr_meta = meta, sr_server_fingerprint = server_fingerprint\<rparr>))"

text \<open>
  \<open>dial\<close> connects and runs the TLS handshake with the identity and chain offered: an error, or the
  certificates the server presented and the peer. Timeouts of the later steps are failing streams.
\<close>

definition misfin_send ::
    "(string \<Rightarrow> string) \<Rightarrow>
     (string \<Rightarrow> string \<times> nat \<Rightarrow> (identity_material \<times> string list) option \<Rightarrow>
        send_error + string list \<times> (string \<Rightarrow> string \<times> stream_end)) \<Rightarrow>
     misfin_address \<Rightarrow> string \<Rightarrow> send_options \<Rightarrow> send_error + send_receipt" where
  "misfin_send sha dial recipient message options =
     (case build_request recipient message of Inl e \<Rightarrow> Inl e
      | Inr request \<Rightarrow>
        (case dial (ma_host recipient)
               (case so_connect_addr options of Some a \<Rightarrow> a
                | None \<Rightarrow> (ma_host recipient, case so_port options of Some p \<Rightarrow> p | None \<Rightarrow> MISFIN_PORT))
               (map_option (\<lambda>i. (i, so_extra_chain options)) (so_identity options)) of
           Inl e \<Rightarrow> Inl e
         | Inr ([], _) \<Rightarrow> Inl SendTls
         | Inr (cert # _, stream) \<Rightarrow>
             let server_fingerprint = sha256_hex sha cert in
             (case so_expected_fingerprint options of
                Some expected \<Rightarrow>
                  if normalize_fingerprint expected \<noteq> server_fingerprint
                  then Inl (FingerprintMismatch (normalize_fingerprint expected) server_fingerprint)
                  else misfin_transact stream request server_fingerprint
              | None \<Rightarrow> misfin_transact stream request server_fingerprint)))"

end
