(* ===== verification/Misfin_Delivery.thy ===== *)
theory Misfin_Delivery
  imports Misfin_Net
begin

text \<open>
  Misfin from end to end: what the two ends of \<open>Misfin_Net\<close> make of each other's bytes, and what a
  message does to the mailbox store.
\<close>

section \<open>Lines on the wire\<close>

lemma ends_with_crlf_snoc: "ends_with CRLF (buf @ [c]) \<longleftrightarrow> c = LF \<and> buf \<noteq> [] \<and> last buf = CR"
  by (cases buf rule: rev_cases) (auto simp: ends_with_iff append_eq_append_conv2 append_eq_Cons_conv Cons_eq_append_conv)

lemma crlf_not_yet: "CR \<notin> set buf \<Longrightarrow> \<not> ends_with CRLF (buf @ [c])"
  using last_notin [of CR buf] by (auto simp: ends_with_crlf_snoc)

lemma read_request_line:
  assumes "CR \<notin> set l" "CR \<notin> set buf" "length buf + length l + 2 \<le> MAX_REQUEST"
  shows "misfin_read_request buf (l @ CRLF @ rest) e = finish_request (buf @ l @ CRLF)"
  using assms
proof (induction l arbitrary: buf)
  case Nil
  then have "\<not> ends_with CRLF (buf @ [CR])" "ends_with CRLF ((buf @ [CR]) @ [LF])"
    by (simp_all add: ends_with_crlf_snoc del: append_assoc)
  with Nil show ?case by simp
next
  case (Cons c l)
  then have "\<not> ends_with CRLF (buf @ [c])"
    by (intro crlf_not_yet) simp
  with Cons.prems Cons.IH [of "buf @ [c]"] show ?case by simp
qed

lemma read_response_crlf:
  assumes "CR \<notin> set l" "CR \<notin> set buf" "length buf + length l + 2 \<le> MAX_REQUEST"
  shows "misfin_response_line buf (l @ CRLF @ rest) e = Inr (from_utf8_lossy (buf @ l @ CRLF))"
  using assms
proof (induction l arbitrary: buf)
  case Nil
  then have "\<not> ends_with CRLF (buf @ [CR])" "ends_with CRLF ((buf @ [CR]) @ [LF])"
    by (simp_all add: ends_with_crlf_snoc del: append_assoc)
  with Nil show ?case by simp
next
  case (Cons c l)
  then have "\<not> ends_with CRLF (buf @ [c])"
    by (intro crlf_not_yet) simp
  with Cons.prems Cons.IH [of "buf @ [c]"] show ?case by simp
qed

text \<open>A stream that ends before the CRLF is a request all the same.\<close>

lemma read_request_truncated:
  assumes "CR \<notin> set l" "CR \<notin> set buf" "length buf + length l < MAX_REQUEST"
  shows "misfin_read_request buf l Eof = finish_request (buf @ l)"
  using assms
proof (induction l arbitrary: buf)
  case (Cons c l)
  then have "\<not> ends_with CRLF (buf @ [c])"
    by (intro crlf_not_yet) simp
  with Cons.prems Cons.IH [of "buf @ [c]"] show ?case by simp
qed simp

lemma trim_newlines_after: "c \<noteq> CR \<Longrightarrow> c \<noteq> LF \<Longrightarrow> trim_newlines (a @ c # m) = a @ c # trim_newlines m"
  by (induction m rule: rev_induct) (auto simp: trim_newlines_def)

lemma address_visible: "address_ok a \<Longrightarrow> visible (as_addr_spec a)"
  using addr_spec_word by (auto simp: is_word_def)

definition target_of :: "misfin_address \<Rightarrow> string" where
  "target_of a = ''misfin://'' @ as_addr_spec a"

lemma target_visible: "address_ok a \<Longrightarrow> visible (target_of a)"
  using address_visible by (simp add: target_of_def ascii_def ascii_ws_def between_def)

lemma split_request_sent:
  assumes "address_ok a"
  shows "split_request (target_of a @ '' '' @ m) = Some (target_of a, m)"
  using target_visible [OF assms] trim_start_visible [of "target_of a" "'' '' @ m"]
  by (auto simp: split_request_def target_of_def starts_with_def)

text \<open>The URL parser reads the target as the address's mailbox and host.\<close>

definition url_reads_target :: "url_parser \<Rightarrow> misfin_address \<Rightarrow> bool" where
  "url_reads_target up a \<longleftrightarrow>
     (\<exists>u. up (target_of a) = Some u \<and> url_username u = ma_mailbox a \<and> url_host u = Some (ma_host a))"

lemma parse_recipient_sent:
  assumes "address_ok a" "url_reads_target up a"
  shows "parse_recipient up (target_of a) = Some a"
proof -
  have "trim (ma_mailbox a) = ma_mailbox a" "ma_mailbox a \<noteq> []"
    using assms(1) visible_trim by (auto simp: address_ok_def is_word_def)
  moreover have "parse_address (ma_mailbox a @ ''@'' @ ma_host a) = Some a"
    using parse_addr_spec [OF assms(1)] by (simp add: as_addr_spec_def)
  ultimately show ?thesis
    using assms(2) by (auto simp: parse_recipient_def url_reads_target_def address_from_url_def Let_def)
qed

section \<open>What a dispatched request does to the store\<close>

text \<open>The fingerprint a claimed address is pinned to after its check.\<close>

lemma check_pins:
  assumes "codec_ok cd" "check_and_record_identity cd c s a fp now = (Inr res, s')" "\<not> is_changed res"
  shows "pinned cd s' a fp"
  using assms by (auto simp: pinned_def check_and_record_identity_def codec_ok_def split: if_splits option.splits)

lemma check_passes:
  assumes "codec_ok cd" "mb_identities s a = None \<or> pinned cd s a fp"
  shows "\<exists>res s'. check_and_record_identity cd True s a fp now = (Inr res, s') \<and> \<not> is_changed res"
  using assms by (auto simp: pinned_def check_and_record_identity_def)

lemma dispatch_identity_log:
  assumes "dispatch_identity cfg cd c s sender fp now = (r, s')" "holds_log cd s log"
  shows "holds_log cd s' log"
  using assms check_identity_tables [of cd c s _ fp now]
  by (auto simp: dispatch_identity_def intro: holds_log_unchanged split: option.splits sum.splits prod.splits
      dest!: sym [of "check_and_record_identity _ _ _ _ _ _"]) (metis holds_log_unchanged snd_conv)+

lemma dispatch_identity_passed:
  assumes "dispatch_identity cfg cd c s (Some x) fp now = (None, s')" "mc_reject_changed_sender cfg"
  shows "\<exists>res. check_and_record_identity cd c s (as_addr_spec (ms_address x)) fp now = (Inr res, s') \<and> \<not> is_changed res"
  using assms by (auto simp: dispatch_identity_def split: sum.splits prod.splits if_splits)

text \<open>The message that is stored next, after a log.\<close>

definition next_message ::
    "received_message list \<Rightarrow> misfin_address \<Rightarrow> string \<Rightarrow> misfin_sender option \<Rightarrow> string \<Rightarrow> nat \<Rightarrow> received_message" where
  "next_message log recipient fp sender body now =
     \<lparr>rm_seq = length log, rm_recipient = as_addr_spec recipient, rm_sender_fingerprint = fp,
      rm_sender_address = map_option (\<lambda>x. as_addr_spec (ms_address x)) sender, rm_body = body, rm_received_at = now\<rparr>"

lemma dispatch_store_cases:
  assumes "dispatch_store cd cm s recipient served fp sender m now = (r, s')" "holds_log cd s log"
  shows "mb_identities s' = mb_identities s \<and>
    (r = Some (response_new 20 served) \<and> holds_log cd s' (log @ [next_message log recipient fp sender m now]) \<or>
     (\<forall>x. r = Some x \<longrightarrow> mr_status x \<noteq> 20) \<and> holds_log cd s' log)"
proof -
  obtain r1 s1 where 1: "record_sender (cm_sender cm) s fp now = (r1, s1)" by force
  have s1: "holds_log cd s1 log" "mb_identities s1 = mb_identities s"
    using 1 assms(2) record_sender_tables [of "cm_sender cm" s fp now] by (auto intro: holds_log_unchanged)
  obtain r2 s2 where 2: "store_message cd (cm_message cm) s1 recipient fp sender m now = (r2, s2)" by force
  have ids: "mb_identities s2 = mb_identities s1"
    using store_identities [of cd "cm_message cm" s1 recipient fp sender m now] 2 by simp
  have n: "next_seq s1 = length log" using s1(1) by (simp add: holds_log_def)
  show ?thesis
  proof (cases "r1 = Inr KnownSender \<or> r1 = Inr FirstSeen")
    case False
    then have "r = Some (response_new 40 ''Temporary server error.'')" "s' = s1"
      using assms(1) 1 by (auto simp: dispatch_store_def record_sender_def split: if_splits)
    then show ?thesis using s1 by (simp add: response_new_def)
  next
    case True
    then have r: "(r, s') = (case (r2, s2) of
        (Inr _, s2) \<Rightarrow> (Some (response_new 20 served), s2)
      | (Inl SequenceOverflow, s2) \<Rightarrow> (None, s2)
      | (Inl StorageFailed, s2) \<Rightarrow> (Some (response_new 40 ''Temporary server error.''), s2))"
      using assms(1) 1 2 by (auto simp: dispatch_store_def)
    show ?thesis
    proof (cases "cm_message cm \<and> next_seq s1 \<noteq> u64_max")
      case True
      then have "r2 = Inr (length log)" using 2 n by (auto simp: store_message_def Let_def)
      moreover have "s2 = snd (store_message cd True s1 recipient fp sender m now)" using 2 True by simp
      ultimately show ?thesis
        using holds_log_store [OF s1(1), of recipient fp sender m now] True n r ids s1(2) by (simp add: next_message_def)
    next
      case False
      then have "s2 = s1" "r2 = Inl SequenceOverflow \<or> r2 = Inl StorageFailed"
        using 2 by (auto simp: store_message_def Let_def split: if_splits)
      then show ?thesis using r s1 by (auto simp: response_new_def)
    qed
  qed
qed

lemma dispatch_store_succeeds:
  assumes "holds_log cd s log" "length log < u64_max" "cm_sender cm" "cm_message cm"
  shows "\<exists>s'. dispatch_store cd cm s recipient served fp sender m now = (Some (response_new 20 served), s')"
  using assms record_sender_tables [of True s fp now]
  by (auto simp: dispatch_store_def record_sender_def store_message_def Let_def holds_log_def next_seq_def)

text \<open>The claim a certificate makes, as the dispatcher uses it.\<close>

definition sender_of :: "misfin_libs \<Rightarrow> string \<Rightarrow> nat \<Rightarrow> misfin_sender option" where
  "sender_of lb cert now =
     (let identity = parse_certificate_identity (lb_x509 lb) cert now in
      map_option (\<lambda>a. \<lparr>ms_address = a, ms_blurb = Option.bind identity cid_blurb\<rparr>) (Option.bind identity claimed_address))"

text \<open>A request is refused with the store untouched, or it passes every check up to the store.\<close>

lemma dispatch_passes:
  assumes "misfin_dispatch lb cfg cd cm s request peer now = (r, s')"
  obtains "\<forall>x. r = Some x \<longrightarrow> mr_status x \<noteq> 20" "s' = s"
  | cert target body recipient served where "peer = Some cert" "split_request request = Some (target, body)"
      "parse_recipient (lb_url lb) target = Some recipient" "find_mailbox cfg recipient = Some served"
      "(r, s') = (case dispatch_identity cfg cd (cm_identity cm) s (sender_of lb cert now) (sha256_hex (lb_sha lb) cert) now of
         (Some r, s1) \<Rightarrow> (Some r, s1)
       | (None, s1) \<Rightarrow> dispatch_store cd cm s1 recipient (sm_fingerprint served) (sha256_hex (lb_sha lb) cert)
                          (sender_of lb cert now) body now)"
proof (cases "(\<forall>x. r = Some x \<longrightarrow> mr_status x \<noteq> 20) \<and> s' = s")
  case True
  then show ?thesis using that(1) by blast
next
  case False
  have no: "mr_status (response_new k m) = k" for k m by (simp add: response_new_def)
  from False assms obtain cert where c: "peer = Some cert"
    by (cases peer) (auto simp: misfin_dispatch_def no)
  from False assms c obtain target body where t: "split_request request = Some (target, body)"
    by (cases "split_request request") (auto simp: misfin_dispatch_def no)
  from False assms c t obtain recipient where rc: "parse_recipient (lb_url lb) target = Some recipient"
    by (cases "parse_recipient (lb_url lb) target") (auto simp: misfin_dispatch_def no)
  from False assms c t rc have h: "serves_host cfg (ma_host recipient)"
    by (rule_tac ccontr) (auto simp: misfin_dispatch_def no)
  from False assms c t rc h obtain served where sv: "find_mailbox cfg recipient = Some served"
    by (cases "find_mailbox cfg recipient") (auto simp: misfin_dispatch_def no)
  obtain ro s1 where i: "dispatch_identity cfg cd (cm_identity cm) s (sender_of lb cert now) (sha256_hex (lb_sha lb) cert) now
      = (ro, s1)" by force
  have "(r, s') = (case (ro, s1) of (Some r, s1) \<Rightarrow> (Some r, s1)
      | (None, s1) \<Rightarrow> dispatch_store cd cm s1 recipient (sm_fingerprint served) (sha256_hex (lb_sha lb) cert)
                         (sender_of lb cert now) body now)"
    using False assms i unfolding misfin_dispatch_def c t rc sv sender_of_def Let_def
    by (auto simp: rc sv h no split: if_splits option.splits)
  from that(2) [OF c t rc sv this [folded i]] show ?thesis .
qed

lemma dispatch_cases:
  assumes "misfin_dispatch lb cfg cd cm s request peer now = (r, s')" "codec_ok cd" "holds_log cd s log"
  shows "(\<exists>cert target body recipient served.
      peer = Some cert \<and> split_request request = Some (target, body) \<and>
      parse_recipient (lb_url lb) target = Some recipient \<and> find_mailbox cfg recipient = Some served \<and>
      r = Some (response_new 20 (sm_fingerprint served)) \<and>
      holds_log cd s' (log @ [next_message log recipient (sha256_hex (lb_sha lb) cert) (sender_of lb cert now) body now]) \<and>
      (mc_reject_changed_sender cfg \<longrightarrow>
        (\<forall>x. sender_of lb cert now = Some x \<longrightarrow> pinned cd s' (as_addr_spec (ms_address x)) (sha256_hex (lb_sha lb) cert)))) \<or>
    (\<forall>x. r = Some x \<longrightarrow> mr_status x \<noteq> 20) \<and> holds_log cd s' log"
proof (cases rule: dispatch_passes [OF assms(1)])
  case 1
  then show ?thesis using assms(3) by blast
next
  case (2 cert target body recipient served)
  let ?fp = "sha256_hex (lb_sha lb) cert"
  obtain ro s1 where i: "dispatch_identity cfg cd (cm_identity cm) s (sender_of lb cert now) ?fp now = (ro, s1)" by force
  have log1: "holds_log cd s1 log" by (rule dispatch_identity_log [OF i assms(3)])
  show ?thesis
  proof (cases ro)
    case (Some x)
    then have "mr_status x \<noteq> 20" using i
      by (auto simp: dispatch_identity_def response_new_def split: option.splits sum.splits prod.splits if_splits)
    with 2(5) i Some log1 show ?thesis by auto
  next
    case None
    have pins: "pinned cd s1 (as_addr_spec (ms_address x)) ?fp"
      if "mc_reject_changed_sender cfg" "sender_of lb cert now = Some x" for x
      using check_pins [OF assms(2)] dispatch_identity_passed [of cfg cd "cm_identity cm" s x ?fp now s1] i None that
      by auto
    have "dispatch_store cd cm s1 recipient (sm_fingerprint served) ?fp (sender_of lb cert now) body now = (r, s')"
      using 2(5) i None by simp
    from dispatch_store_cases [OF this log1] show ?thesis
      using 2(1-4) pins by (auto simp: pinned_def)
  qed
qed

section \<open>A delivery from end to end\<close>

text \<open>
  A server ready for a message: the recipient is served, the certificate parses, is valid, and its
  claimed address, if any, is new or pinned to it; all transactions commit.
\<close>

definition ready ::
    "misfin_libs \<Rightarrow> misfin_config \<Rightarrow> 'v codec \<Rightarrow> 'v mailbox_store \<Rightarrow> misfin_address \<Rightarrow> served_mailbox \<Rightarrow> string \<Rightarrow> nat \<Rightarrow> bool" where
  "ready lb cfg cd s recipient served cert now \<longleftrightarrow>
     find_mailbox cfg recipient = Some served \<and> url_reads_target (lb_url lb) recipient \<and>
     (\<exists>i. parse_certificate_identity (lb_x509 lb) cert now = Some i \<and> \<not> cid_expired i) \<and>
     (sender_of lb cert now = None \<longrightarrow> \<not> mc_require_sender_identity cfg) \<and>
     (\<forall>x. sender_of lb cert now = Some x \<longrightarrow>
        mb_identities s (as_addr_spec (ms_address x)) = None \<or>
        pinned cd s (as_addr_spec (ms_address x)) (sha256_hex (lb_sha lb) cert))"

definition all_commit :: commits where
  "all_commit = \<lparr>cm_identity = True, cm_sender = True, cm_message = True\<rparr>"

lemma ready_dispatches:
  assumes "codec_ok cd" "holds_log cd s log" "length log < u64_max" "address_ok recipient"
    and "ready lb cfg cd s recipient served cert now"
  shows "\<exists>s'. misfin_dispatch lb cfg cd all_commit s (target_of recipient @ '' '' @ body) (Some cert) now =
      (Some (response_new 20 (sm_fingerprint served)), s') \<and>
    holds_log cd s' (log @ [next_message log recipient (sha256_hex (lb_sha lb) cert) (sender_of lb cert now) body now])"
proof -
  let ?fp = "sha256_hex (lb_sha lb) cert" and ?d = "misfin_dispatch lb cfg cd all_commit s (target_of recipient @ '' '' @ body) (Some cert) now"
  obtain i where i: "parse_certificate_identity (lb_x509 lb) cert now = Some i" "\<not> cid_expired i"
    and f: "find_mailbox cfg recipient = Some served" and u: "url_reads_target (lb_url lb) recipient"
    using assms(5) by (auto simp: ready_def)
  have rc: "parse_recipient (lb_url lb) (target_of recipient) = Some recipient"
    by (rule parse_recipient_sent [OF assms(4) u])
  have h: "serves_host cfg (ma_host recipient)"
    using f by (auto simp: serves_host_def find_mailbox_def find_Some_iff)
  obtain s1 where s1: "dispatch_identity cfg cd True s (sender_of lb cert now) ?fp now = (None, s1)"
  proof (cases "sender_of lb cert now")
    case (Some x)
    obtain res t where "check_and_record_identity cd True s (as_addr_spec (ms_address x)) ?fp now = (Inr res, t)" "\<not> is_changed res"
      using check_passes [OF assms(1), of s "as_addr_spec (ms_address x)" ?fp now] assms(5) Some by (auto simp: ready_def)
    with Some show ?thesis by (intro that) (simp add: dispatch_identity_def)
  qed (simp add: dispatch_identity_def that)
  have log1: "holds_log cd s1 log" by (rule dispatch_identity_log [OF s1 assms(2)])
  have "?d = dispatch_store cd all_commit s1 recipient (sm_fingerprint served) ?fp (sender_of lb cert now) body now"
    using assms(5) i rc h f s1 split_request_sent [OF assms(4), of body]
    by (auto simp: misfin_dispatch_def ready_def sender_of_def all_commit_def Let_def)
  moreover obtain s' where s': "dispatch_store cd all_commit s1 recipient (sm_fingerprint served) ?fp (sender_of lb cert now) body now =
      (Some (response_new 20 (sm_fingerprint served)), s')"
    using dispatch_store_succeeds [OF log1 assms(3), of all_commit recipient "sm_fingerprint served" ?fp "sender_of lb cert now" body now]
    by (auto simp: all_commit_def)
  moreover have "holds_log cd s' (log @ [next_message log recipient ?fp (sender_of lb cert now) body now])"
    using dispatch_store_cases [OF s' log1] by (simp add: response_new_def)
  ultimately show ?thesis by simp
qed

definition request_ok :: "misfin_address \<Rightarrow> string \<Rightarrow> bool" where
  "request_ok recipient message \<longleftrightarrow>
     address_ok recipient \<and> CR \<notin> set message \<and> valid_utf8 message \<and>
     length (target_of recipient) + length message + 3 \<le> MAX_REQUEST"

lemma build_request_ok:
  "request_ok recipient message \<Longrightarrow> build_request recipient message = Inr (target_of recipient @ '' '' @ message @ CRLF)"
  by (simp add: request_ok_def build_request_def target_of_def Let_def)

lemma server_reads_request:
  assumes "request_ok recipient message"
  shows "misfin_read_request [] (target_of recipient @ '' '' @ message @ CRLF) Eof =
    RequestLine (target_of recipient @ '' '' @ trim_newlines message)"
proof -
  let ?l = "target_of recipient @ '' '' @ message"
  have v: "visible (target_of recipient)" using assms target_visible by (simp add: request_ok_def)
  have "misfin_read_request [] (?l @ CRLF @ []) Eof = finish_request ([] @ ?l @ CRLF)"
    using assms v by (intro read_request_line) (simp_all add: request_ok_def)
  moreover have "valid_utf8 ((?l @ [CR]) @ [LF])"
    using assms v visible_valid_utf8 valid_utf8_append [of "'' ''" message]
    by (intro valid_utf8_append) (simp_all add: request_ok_def ascii_def)
  moreover have "trim_newlines (?l @ CRLF) = target_of recipient @ '' '' @ trim_newlines message"
    using trim_newlines_crlf [of ?l] trim_newlines_after [of "CHR '' ''" "target_of recipient" message] by simp
  ultimately show ?thesis by (simp add: finish_request_def)
qed

lemma client_reads_delivered:
  assumes "visible fp" "length fp + 5 \<le> MAX_REQUEST"
  shows "misfin_transact (\<lambda>_. (misfin_response_encode (response_new 20 fp), Eof)) w sfp =
    Inr \<lparr>sr_status = Delivered, sr_meta = fp, sr_server_fingerprint = sfp\<rparr>"
proof -
  have 20: "show_nat 20 = ''20''"
  proof -
    have "[digit_char 2, digit_char 0] = ''20''" by code_simp
    then show ?thesis using two_digits(1) [of 20] by simp
  qed
  let ?l = "''20 '' @ fp"
  have "misfin_response_line [] (?l @ CRLF @ []) Eof = Inr (from_utf8_lossy ([] @ ?l @ CRLF))"
    using assms by (intro read_response_crlf) simp_all
  moreover have "valid_utf8 (?l @ CRLF)"
    using assms(1) by (intro ascii_valid_utf8) (auto simp: visible_def ascii_def)
  moreover have "misfin_parse_response_line (?l @ CRLF) = Some (Delivered, fp)"
  proof -
    have "trim_newlines ?l = ?l"
      using trim_newlines_after [of "CHR '' ''" "''20''" fp] visible_trim [OF assms(1)] trim_newlines_trimmed [of fp] by simp
    then have "trim_newlines (?l @ CRLF) = ?l" using trim_newlines_crlf [of ?l] by simp
    moreover have "parse_uint 255 ''20'' = Some 20" using parse_show_nat [of 20 255] 20 by simp
    moreover have "\<not> cont (CHR '' '')" by (simp add: cont_def between_def)
    ultimately show ?thesis
      by (simp add: misfin_parse_response_line_def misfin_from_code_def)
  qed
  ultimately show ?thesis
    by (simp add: misfin_transact_def misfin_response_encode_def response_new_def 20 from_utf8_lossy_valid)
qed

section \<open>Properties\<close>

text \<open>
  (C4) Delivery from end to end: a message without carriage returns that fits a request, sent to an
  address served by a ready server of this crate, is reported as delivered with the mailbox's
  fingerprint, and from then on listing the mailbox ends with that message: its text without
  trailing line feeds, the fingerprint of the client's certificate and the address it claims.
\<close>

theorem misfin_delivery:
  assumes "codec_ok cd" "holds_log cd s log" "length log < u64_max"
    and "request_ok recipient message" "visible (sm_fingerprint served)" "length (sm_fingerprint served) + 5 \<le> MAX_REQUEST"
    and "ready lb cfg cd s recipient served (im_certificate me) now"
    and "serve = misfin_serve lb cfg cd all_commit s \<lparr>mp_certificate = Some (im_certificate me), mp_genuine = True\<rparr> now"
    and "dial (ma_host recipient) (ma_host recipient, MISFIN_PORT) (Some (me, [])) =
      Inr ([server_cert], as_peer (\<lambda>w e. fst (serve w e)))"
    and "sent = target_of recipient @ '' '' @ message @ CRLF"
    and "options = \<lparr>so_identity = Some me, so_extra_chain = [], so_port = None, so_expected_fingerprint = None,
      so_connect_addr = None\<rparr>"
  shows "misfin_send sha dial recipient message options =
      Inr \<lparr>sr_status = Delivered, sr_meta = sm_fingerprint served, sr_server_fingerprint = sha256_hex sha server_cert\<rparr> \<and>
    list_mailbox cd True (snd (serve sent Eof)) (as_addr_spec recipient) =
      Inr (filter (\<lambda>m. rm_recipient m = as_addr_spec recipient) log @
           [next_message log recipient (sha256_hex (lb_sha lb) (im_certificate me))
              (sender_of lb (im_certificate me) now) (trim_newlines message) now])"
proof -
  have "address_ok recipient" using assms(4) by (simp add: request_ok_def)
  from ready_dispatches [OF assms(1-3) this assms(7), of "trim_newlines message"]
  obtain s' where d: "misfin_dispatch lb cfg cd all_commit s (target_of recipient @ '' '' @ trim_newlines message)
        (Some (im_certificate me)) now = (Some (response_new 20 (sm_fingerprint served)), s')"
    and log': "holds_log cd s' (log @ [next_message log recipient (sha256_hex (lb_sha lb) (im_certificate me))
              (sender_of lb (im_certificate me) now) (trim_newlines message) now])" by blast
  have srv: "serve sent Eof = (Some (misfin_response_encode (response_new 20 (sm_fingerprint served))), s')"
    using server_reads_request [OF assms(4)] d assms(10)
    by (simp add: assms(8) misfin_serve_def accept_peer_def verify_client_cert_def verify_client_signature_def
        misfin_handle_connection_def)
  have "misfin_send sha dial recipient message options =
      misfin_transact (as_peer (\<lambda>w e. fst (serve w e))) sent (sha256_hex sha server_cert)"
    using build_request_ok [OF assms(4)] assms(9,10,11) by (simp add: misfin_send_def)
  also have "\<dots> = Inr \<lparr>sr_status = Delivered, sr_meta = sm_fingerprint served,
      sr_server_fingerprint = sha256_hex sha server_cert\<rparr>"
    using client_reads_delivered [OF assms(5,6), of sent "sha256_hex sha server_cert"]
    by (simp add: misfin_transact_def as_peer_def srv)
  finally show ?thesis
    using list_mailbox_log [OF assms(1) log'] srv by (simp add: next_message_def)
qed

text \<open>
  (C11) What is stored was answered 20, and the other way round: whatever bytes a peer sends, and
  whichever transactions fail, either the connection is answered with status 20 and exactly one
  message was appended to the log, addressed to a served mailbox and carrying the fingerprint of
  the certificate seen (with a claimed address only if that is the fingerprint pinned to it, when
  changed senders are rejected); or no status 20 is sent and the log is unchanged.
\<close>

theorem misfin_stored_iff_delivered:
  assumes "codec_ok cd" "holds_log cd s log"
    and "misfin_handle_connection lb cfg cd cm s peer now input e = (out, s')"
  shows "(\<exists>cert recipient served body. peer = Some cert \<and> find_mailbox cfg recipient = Some served \<and>
      out = Some (misfin_response_encode (response_new 20 (sm_fingerprint served))) \<and>
      holds_log cd s' (log @ [next_message log recipient (sha256_hex (lb_sha lb) cert) (sender_of lb cert now) body now]) \<and>
      (mc_reject_changed_sender cfg \<longrightarrow>
        (\<forall>x. sender_of lb cert now = Some x \<longrightarrow> pinned cd s' (as_addr_spec (ms_address x)) (sha256_hex (lb_sha lb) cert)))) \<or>
    (out = None \<or> (\<exists>r. out = Some (misfin_response_encode r) \<and> mr_status r \<noteq> 20)) \<and> holds_log cd s' log"
proof (cases "misfin_read_request [] input e")
  case (RequestLine request)
  obtain r t where d: "misfin_dispatch lb cfg cd cm s request peer now = (r, t)" by force
  then have "out = map_option misfin_response_encode r" "s' = t"
    using assms(3) RequestLine by (auto simp: misfin_handle_connection_def)
  with dispatch_cases [OF d assms(1,2)] show ?thesis by (cases r) fastforce+
qed (use assms in \<open>auto simp: misfin_handle_connection_def response_new_def\<close>)

text \<open>
  A certificate is accepted without its key: once an address is pinned to a certificate, a peer
  that holds a copy of that certificate, which it has received or seen, but not its private key,
  delivers mail under that address and fingerprint.
\<close>

theorem misfin_impersonation:
  assumes "codec_ok cd" "holds_log cd s log" "length log < u64_max" "request_ok recipient message"
    and "ready lb cfg cd s recipient served cert now" "sender_of lb cert now = Some victim"
    and "pinned cd s (as_addr_spec (ms_address victim)) (sha256_hex (lb_sha lb) cert)"
    and "thief = \<lparr>mp_certificate = Some cert, mp_genuine = False\<rparr>"
  shows "\<exists>s'. misfin_serve lb cfg cd all_commit s thief now (target_of recipient @ '' '' @ message @ CRLF) Eof =
      (Some (misfin_response_encode (response_new 20 (sm_fingerprint served))), s') \<and>
    list_mailbox cd True s' (as_addr_spec recipient) =
      Inr (filter (\<lambda>m. rm_recipient m = as_addr_spec recipient) log @
           [\<lparr>rm_seq = length log, rm_recipient = as_addr_spec recipient,
             rm_sender_fingerprint = sha256_hex (lb_sha lb) cert, rm_sender_address = Some (as_addr_spec (ms_address victim)),
             rm_body = trim_newlines message, rm_received_at = now\<rparr>])"
proof -
  have "address_ok recipient" using assms(4) by (simp add: request_ok_def)
  from ready_dispatches [OF assms(1-3) this assms(5), of "trim_newlines message"]
  obtain s' where d: "misfin_dispatch lb cfg cd all_commit s (target_of recipient @ '' '' @ trim_newlines message)
        (Some cert) now = (Some (response_new 20 (sm_fingerprint served)), s')"
    and log': "holds_log cd s' (log @ [next_message log recipient (sha256_hex (lb_sha lb) cert)
              (sender_of lb cert now) (trim_newlines message) now])" by blast
  have "misfin_serve lb cfg cd all_commit s thief now (target_of recipient @ '' '' @ message @ CRLF) Eof =
      (Some (misfin_response_encode (response_new 20 (sm_fingerprint served))), s')"
    using server_reads_request [OF assms(4)] d
    by (simp add: assms(8) misfin_serve_def accept_peer_def verify_client_cert_def verify_client_signature_def
        misfin_handle_connection_def)
  then show ?thesis
    using list_mailbox_log [OF assms(1) log'] assms(6) by (simp add: next_message_def)
qed

section \<open>Instances\<close>

text \<open>A certificate that claims \<open>ana@o\<close> and never expires; a server for \<open>me@h\<close>.\<close>

definition demo_x509 :: x509 where
  "demo_x509 = \<lparr>x_subject = [(OidUserId, Some ''ana''), (OidCommonName, Some ''Ana'')], x_names = Some [DnsName ''o''],
                x_valid_at = \<lambda>_. Some True\<rparr>"

definition demo_libs :: misfin_libs where
  "demo_libs = \<lparr>lb_sha = \<lambda>b. b, lb_x509 = \<lambda>_. Some demo_x509,
     lb_url = \<lambda>_. Some \<lparr>url_scheme = ''misfin'', url_host = Some ''h'', url_port = None, url_path = [], url_query = None,
                      url_fragment = None, url_username = ''me''\<rparr>\<rparr>"

definition demo_served :: served_mailbox where
  "demo_served = \<lparr>sm_address = demo_address, sm_fingerprint = ''00ff''\<rparr>"

lemma demo_sender:
  "sender_of demo_libs cert now = Some \<lparr>ms_address = \<lparr>ma_mailbox = ''ana'', ma_host = ''o''\<rparr>, ms_blurb = Some ''Ana''\<rparr>"
proof -
  have "parse_certificate_identity (\<lambda>_. Some demo_x509) [] 0 =
      Some \<lparr>cid_mailbox = Some ''ana'', cid_hosts = [''o''], cid_blurb = Some ''Ana'', cid_expired = False\<rparr>"
    "parse_address ''ana@o'' = Some \<lparr>ma_mailbox = ''ana'', ma_host = ''o''\<rparr>"
    by code_simp+
  then show ?thesis
    by (simp add: sender_of_def demo_libs_def parse_certificate_identity_def claimed_address_def demo_x509_def Let_def)
qed

lemma demo_sha [simp]: "lb_sha demo_libs b = b"
  by (simp add: demo_libs_def)

lemma demo_ready:
  assumes "mb_identities s ''ana@o'' = None \<or> pinned demo_codec s ''ana@o'' (encode_hex cert)"
  shows "ready demo_libs (misfin_config_new [] [] [demo_served]) demo_codec s demo_address demo_served cert now"
proof -
  have "parse_certificate_identity (lb_x509 demo_libs) cert now =
      Some \<lparr>cid_mailbox = Some ''ana'', cid_hosts = [to_lower ''o''], cid_blurb = Some ''Ana'', cid_expired = False\<rparr>"
    by (simp add: demo_libs_def parse_certificate_identity_def demo_x509_def subject_attribute_def List.map_filter_def)
  moreover have "sha256_hex (lb_sha demo_libs) cert = encode_hex cert" by (simp add: sha256_hex_def)
  moreover have "url_reads_target (lb_url demo_libs) demo_address"
    by (simp add: url_reads_target_def demo_libs_def demo_address_def)
  ultimately show ?thesis
    using assms
    by (simp add: ready_def demo_sender find_mailbox_def misfin_config_new_def demo_served_def as_addr_spec_def)
qed

lemma demo_mail_request: "request_ok demo_address ''hi''"
  by (simp add: request_ok_def demo_address_def address_ok_def is_word_def to_lower_def lower_char_def is_ascii_upper_def
      between_def ascii_def ascii_ws_def target_of_def as_addr_spec_def MAX_REQUEST_def ascii_valid_utf8)

definition demo_me :: identity_material where
  "demo_me = \<lparr>im_certificate = ''A'', im_private_key = ''K''\<rparr>"

definition demo_server :: "string \<Rightarrow> stream_end \<Rightarrow> string option \<times> (received_message + pinned_identity) mailbox_store" where
  "demo_server = misfin_serve demo_libs (misfin_config_new [] [] [demo_served]) demo_codec all_commit empty_store
     \<lparr>mp_certificate = Some (im_certificate demo_me), mp_genuine = True\<rparr> 7"

lemma misfin_delivery_witness:
  "misfin_send (\<lambda>b. b) (\<lambda>name addr chain. Inr ([''S''], as_peer (\<lambda>w e. fst (demo_server w e)))) demo_address ''hi''
     \<lparr>so_identity = Some demo_me, so_extra_chain = [], so_port = None, so_expected_fingerprint = None, so_connect_addr = None\<rparr> =
     Inr \<lparr>sr_status = Delivered, sr_meta = ''00ff'', sr_server_fingerprint = ''53''\<rparr> \<and>
   list_mailbox demo_codec True (snd (demo_server (target_of demo_address @ '' '' @ ''hi'' @ CRLF) Eof)) ''me@h'' =
     Inr [\<lparr>rm_seq = 0, rm_recipient = ''me@h'', rm_sender_fingerprint = ''41'', rm_sender_address = Some ''ana@o'',
           rm_body = ''hi'', rm_received_at = 7\<rparr>]"
proof -
  have "encode_hex ''A'' = ''41''" "encode_hex ''S'' = ''53''" "visible ''00ff''" "trim_newlines ''hi'' = ''hi''" by code_simp+
  then show ?thesis
    using misfin_delivery [OF demo_codec_ok holds_log_empty _ demo_mail_request _ _ demo_ready demo_server_def _ refl refl,
        where dial = "\<lambda>name addr chain. Inr ([''S''], as_peer (\<lambda>w e. fst (demo_server w e)))" and server_cert = "''S''"
          and sha = "\<lambda>b. b"]
    by (simp add: demo_served_def MAX_REQUEST_def next_message_def demo_sender demo_me_def sha256_hex_def
        empty_store_def as_addr_spec_def demo_address_def)
qed

lemma misfin_stored_witness:
  "holds_log demo_codec (snd (misfin_handle_connection demo_libs (misfin_config_new [] [] [demo_served]) demo_codec all_commit empty_store
     None 7 (target_of demo_address @ '' '' @ ''hi'' @ CRLF) Eof)) []"
  using misfin_stored_iff_delivered [OF demo_codec_ok holds_log_empty, of demo_libs "misfin_config_new [] [] [demo_served]" all_commit
      None 7 "target_of demo_address @ '' '' @ ''hi'' @ CRLF" Eof]
  by (auto simp: prod_eq_iff)

lemma misfin_impersonation_witness:
  "\<exists>s'. misfin_serve demo_libs (misfin_config_new [] [] [demo_served]) demo_codec all_commit
      (snd (check_and_record_identity demo_codec True empty_store ''ana@o'' (encode_hex ''A'') 1))
      \<lparr>mp_certificate = Some ''A'', mp_genuine = False\<rparr> 7 (target_of demo_address @ '' '' @ ''hi'' @ CRLF) Eof =
      (Some (misfin_response_encode (response_new 20 ''00ff'')), s') \<and>
    list_mailbox demo_codec True s' ''me@h'' =
      Inr [\<lparr>rm_seq = 0, rm_recipient = ''me@h'', rm_sender_fingerprint = encode_hex ''A'', rm_sender_address = Some ''ana@o'',
           rm_body = ''hi'', rm_received_at = 7\<rparr>]"
proof -
  let ?s = "snd (check_and_record_identity demo_codec True empty_store ''ana@o'' (encode_hex ''A'') 1)"
  have log: "holds_log demo_codec ?s []"
    by (rule holds_log_unchanged [OF check_identity_tables holds_log_empty])
  have pin: "pinned demo_codec ?s ''ana@o'' (encode_hex ''A'')"
    by (rule check_pins [OF demo_codec_ok, of True empty_store "''ana@o''" "encode_hex ''A''" 1 FirstContact])
      (simp_all add: check_and_record_identity_def empty_store_def)
  have "trim_newlines ''hi'' = ''hi''" by code_simp
  then show ?thesis
    using misfin_impersonation [OF demo_codec_ok log _ demo_mail_request demo_ready demo_sender _ refl, of "''A''"] pin
    by (simp add: demo_served_def sha256_hex_def as_addr_spec_def demo_address_def)
qed

end
