(* ===== verification/Tls_Connect.thy ===== *)
theory Tls_Connect
  imports Kepler Gopher_Net Text_Protocol Scorpion_Net Misfin_Delivery Gemini_Net
begin

text \<open>
  The TLS connectors (\<open>tls.rs\<close> of kepler, gopher, scorpion and gemini, the \<open>tls\<close> module of the Text
  protocol, and the connecting half of misfin's \<open>send\<close>). What a crate decides is a policy: whether
  a certificate and a handshake signature are accepted, and whether sessions are resumed. rustls is a
  parameter of the network: with which servers a handshake under a policy succeeds.
\<close>

section \<open>Policies and the handshake\<close>

text \<open>
  The verifier's answers to a leaf certificate and to a handshake signature, of which it is told
  whether it is genuine under the certificate's key; and whether session tickets are reused.
\<close>

record tls_policy =
  tp_cert :: "string \<Rightarrow> bool"
  tp_signature :: "bool \<Rightarrow> bool"
  tp_resumption :: bool

text \<open>What answers at an address: the certificates it shows, and what it writes back over the session.\<close>

record tls_endpoint =
  te_certs :: "string list"
  te_answer :: "string \<Rightarrow> string \<times> stream_end"

record tls_network =
  tn_tcp :: "string \<Rightarrow> nat \<Rightarrow> tls_endpoint option"
  tn_name_ok :: "string \<Rightarrow> bool"
  tn_handshake :: "tls_policy \<Rightarrow> string \<times> nat \<Rightarrow> bool"

datatype tls_failure = TcpFailed | NameRefused | HandshakeFailed

text \<open>The three steps in their order: the TCP connection, the server name, the handshake.\<close>

definition tls_connect :: "tls_policy \<Rightarrow> tls_network \<Rightarrow> string \<Rightarrow> string \<times> nat \<Rightarrow> tls_failure + tls_endpoint" where
  "tls_connect pol net name addr =
     (case tn_tcp net (fst addr) (snd addr) of None \<Rightarrow> Inl TcpFailed
      | Some ep \<Rightarrow>
          if \<not> tn_name_ok net name then Inl NameRefused
          else if \<not> tn_handshake net pol addr then Inl HandshakeFailed
          else Inr ep)"

section \<open>The crates\<close>

definition kepler_accept_any :: tls_policy where
  "kepler_accept_any = \<lparr>tp_cert = \<lambda>_. True, tp_signature = \<lambda>_. True, tp_resumption = True\<rparr>"

definition kepler_exchange_tls :: "tls_network \<Rightarrow> string \<Rightarrow> nat \<Rightarrow> string \<Rightarrow> kepler_error + kepler_response" where
  "kepler_exchange_tls net host port request =
     (case tls_connect kepler_accept_any net host (host, port) of
        Inl e \<Rightarrow> Inl KpConnect | Inr ep \<Rightarrow> kepler_exchange (te_answer ep) request)"

definition gopher_accept_any :: tls_policy where
  "gopher_accept_any = \<lparr>tp_cert = \<lambda>_. True, tp_signature = \<lambda>_. True, tp_resumption = True\<rparr>"

definition gopher_tls_connect :: "tls_network \<Rightarrow> string \<Rightarrow> nat \<Rightarrow> peer option" where
  "gopher_tls_connect net host port =
     (case tls_connect gopher_accept_any net host (host, port) of Inl e \<Rightarrow> None | Inr ep \<Rightarrow> Some (te_answer ep))"

definition text_accept_any :: tls_policy where
  "text_accept_any = \<lparr>tp_cert = \<lambda>_. True, tp_signature = \<lambda>_. True, tp_resumption = True\<rparr>"

definition text_tls_connect :: "tls_network \<Rightarrow> string \<Rightarrow> nat \<Rightarrow> (string \<Rightarrow> string \<times> stream_end) option" where
  "text_tls_connect net host port =
     (case tls_connect text_accept_any net host (host, port) of Inl e \<Rightarrow> None | Inr ep \<Rightarrow> Some (te_answer ep))"

text \<open>\<open>fetch_tls\<close>: the URL is checked as in \<open>fetch\<close>, and the default port is that of TLS.\<close>

definition text_fetch_tls :: "url_parser \<Rightarrow> tls_network \<Rightarrow> string \<Rightarrow> text_error + text_response" where
  "text_fetch_tls up net iri = text_fetch TEXT_TLS_PORT up (text_tls_connect net) iri"

definition titan_accept_any :: tls_policy where
  "titan_accept_any = \<lparr>tp_cert = \<lambda>_. True, tp_signature = \<lambda>_. True, tp_resumption = True\<rparr>"

text \<open>Titan's \<open>upload\<close> with its connection: the URL is parsed by the caller.\<close>

definition TITAN_PORT :: nat where "TITAN_PORT = 1965"

definition titan_upload_to ::
    "tls_network \<Rightarrow> url \<Rightarrow> string \<Rightarrow> string \<Rightarrow> string \<Rightarrow> string option \<Rightarrow> gemini_error + gemini_response" where
  "titan_upload_to net u shown body mime token =
     (case url_host u of None \<Rightarrow> Inl GemBadUrl
      | Some host \<Rightarrow>
        (case tls_connect titan_accept_any net host (host, case url_port u of Some p \<Rightarrow> p | None \<Rightarrow> TITAN_PORT) of
           Inl e \<Rightarrow> Inl GemConnect | Inr ep \<Rightarrow> titan_upload (te_answer ep) shown body mime token))"

text \<open>Navigation to a Titan URL: an upload of nothing.\<close>

definition titan_fetch_to :: "tls_network \<Rightarrow> url \<Rightarrow> string \<Rightarrow> gemini_error + gemini_response" where
  "titan_fetch_to net u shown = titan_upload_to net u shown [] [] None"

text \<open>
  Scorpion leaves the verifier to the caller; \<open>base_config\<close> only turns resumption off, which the
  specification asks for because a reused ticket identifies the client.
\<close>

definition base_config :: "(string \<Rightarrow> bool) \<times> (bool \<Rightarrow> bool) \<Rightarrow> tls_policy" where
  "base_config verifier = \<lparr>tp_cert = fst verifier, tp_signature = snd verifier, tp_resumption = False\<rparr>"

definition scorpion_connect_with ::
    "url_parser \<Rightarrow> tls_network \<Rightarrow> string \<Rightarrow> (string \<Rightarrow> bool) \<times> (bool \<Rightarrow> bool) \<Rightarrow>
     (scorpion_client_error + tls_failure) + tls_endpoint" where
  "scorpion_connect_with up net u verifier =
     (case authority up u of Inl e \<Rightarrow> Inl (Inl e)
      | Inr (host, port) \<Rightarrow>
        (case tn_tcp net host port of None \<Rightarrow> Inl (Inr TcpFailed)
         | Some ep \<Rightarrow>
             if \<not> tn_name_ok net host then Inl (Inl (CeUrl (host @ '' is not a valid server name'')))
             else if \<not> tn_handshake net (base_config verifier) (host, port) then Inl (Inr HandshakeFailed)
             else Inr ep))"

definition scorpion_accept_any :: "(string \<Rightarrow> bool) \<times> (bool \<Rightarrow> bool)" where
  "scorpion_accept_any = (\<lambda>_. True, \<lambda>_. True)"

datatype tls_version = Tls12 | Tls13

definition warn_on_client_cert :: "tls_version option \<Rightarrow> bool" where
  "warn_on_client_cert negotiated \<longleftrightarrow> negotiated \<noteq> Some Tls13"



section \<open>Properties\<close>















end
