(* ===== verification/Guppy_Files.thy ===== *)
theory Guppy_Files
  imports Guppy_Server Nex Spartan
begin

text \<open>
  Guppy's static-directory handler (\<open>FileHandler\<close> in \<open>crates/guppy-protocol/src/server.rs\<close>) and
  the confinement of the three static handlers of the repository.
\<close>

definition guppy_resolve :: "(string \<Rightarrow> string) \<Rightarrow> path \<Rightarrow> string \<Rightarrow> path option" where
  "guppy_resolve pct root p =
     (case from_utf8 (pct p) of None \<Rightarrow> None
      | Some decoded \<Rightarrow>
        (case push_segments root (split_all (CHR ''/'') decoded) of None \<Rightarrow> None
         | Some resolved \<Rightarrow> Some (if ends_with ''/'' decoded then resolved @ [''index.gmi''] else resolved)))"

definition guppy_mime_for :: "path \<Rightarrow> string" where
  "guppy_mime_for p =
     (let ext = extension p in
      if ext = ''gmi'' \<or> ext = ''gemini'' then ''text/gemini''
      else if ext = ''txt'' \<or> ext = [] then ''text/plain''
      else if ext = ''md'' then ''text/markdown''
      else if ext = ''png'' then ''image/png''
      else if ext = ''jpg'' \<or> ext = ''jpeg'' then ''image/jpeg''
      else ''application/octet-stream'')"

definition guppy_handle :: "(string \<Rightarrow> string) \<Rightarrow> file_system \<Rightarrow> path \<Rightarrow> 'addr request \<Rightarrow> guppy_response" where
  "guppy_handle pct fs root q =
     (case guppy_resolve pct root (r_path q) of None \<Rightarrow> GError ''Bad path.''
      | Some p0 \<Rightarrow>
          let p = (if is_dir_at fs p0 then p0 @ [''index.gmi''] else p0) in
          (case read_at fs p of
             FileBytes body \<Rightarrow> GSuccess (guppy_mime_for p) body
           | _ \<Rightarrow> GError (r_path q @ '' not found'')))"

interpretation guppy_files: directory_handler "guppy_resolve pct" r_path "guppy_handle pct" "''index.gmi''" for pct
proof (unfold_locales, goal_cases)
  case (1 root w p)
  then obtain d r where d: "push_segments root (split_all (CHR ''/'') d) = Some r" "p = r \<or> p = r @ [''index.gmi'']"
    by (auto simp: guppy_resolve_def split: option.splits if_splits)
  then have "below root r" using push_segments_below split_slash_no_slash by blast
  with d(2) show ?case by (auto simp: safe_segment_def)
next
  case 2
  show ?case by (simp add: safe_segment_def)
next
  case (3 root q fs fs')
  show ?case
  proof (cases "guppy_resolve pct root (r_path q)")
    case (Some p)
    with 3 have "same_at fs fs' p" "same_at fs fs' (p @ [''index.gmi''])" by blast+
    then show ?thesis by (simp add: Some guppy_handle_def same_atD)
  qed (simp add: guppy_handle_def)
qed

text \<open>A path that climbs, or names a drive or a backslash, is refused by the three resolvers.\<close>

lemma resolvers_refuse:
  assumes "list_ex refused_segment (split_all (CHR ''/'') (pct p))"
  shows "nex_resolve pct root p = None" "spartan_resolve pct root p = None" "guppy_resolve pct root p = None"
  using assms by (simp_all add: nex_resolve_def spartan_resolve_def guppy_resolve_def from_utf8_def push_segments_exact)

text \<open>
  (C12) The static handlers never leave their root: two file systems that agree on the paths below
  the root, that is on the root extended by components that are neither empty nor dots and hold no
  slash, backslash or colon, get the same answers to every request from the nex, the spartan
  and the guppy handler; and a request whose decoded path has a component \<open>..\<close> is refused.
\<close>

theorem file_handlers_confined:
  assumes "same_below root fs fs'"
  shows "nex_handle pct fs root p = nex_handle pct fs' root p
    \<and> spartan_handle pct fs root sq = spartan_handle pct fs' root sq
    \<and> guppy_handle pct fs root gq = guppy_handle pct fs' root gq
    \<and> (''..'' \<in> set (split_all (CHR ''/'') (pct p)) \<longrightarrow>
        nex_handle pct fs root p = ''bad path'' @ [LF]
        \<and> (pq_path sq = p \<and> pq_data sq = [] \<longrightarrow> spartan_handle pct fs root sq = SendClientError ''Bad path.'')
        \<and> (r_path gq = p \<longrightarrow> guppy_handle pct fs root gq = GError ''Bad path.''))"
proof -
  have "list_ex refused_segment (split_all (CHR ''/'') (pct p))" if "''..'' \<in> set (split_all (CHR ''/'') (pct p))"
    using that by (auto simp: list_ex_iff refused_segment_def)
  then show ?thesis
    using nex_files.confined [OF assms] spartan_files.confined [OF assms] guppy_files.confined [OF assms]
    by (auto simp: nex_handle_def spartan_handle_def guppy_handle_def resolvers_refuse)
qed

lemma file_handlers_confined_witness:
  "nex_handle id demo_site [''srv''] ''/../etc/passwd'' = ''bad path'' @ [LF] \<and>
   nex_handle id (demo_site\<lparr>read_at := (read_at demo_site)([''etc'', ''passwd''] := FileBytes ''root'')\<rparr>) [''srv''] ''/etc/passwd'' =
   nex_handle id demo_site [''srv''] ''/etc/passwd''"
proof -
  let ?fs = "demo_site\<lparr>read_at := (read_at demo_site)([''etc'', ''passwd''] := FileBytes ''root'')\<rparr>"
  have "same_below [''srv''] ?fs demo_site" "same_below [''srv''] demo_site demo_site"
    by (auto simp: same_below_def below_def same_at_def)
  moreover have "''..'' \<in> set (split_all (CHR ''/'') (id ''/../etc/passwd''))" by code_simp
  ultimately show ?thesis
    using file_handlers_confined [of "[''srv'']" ?fs demo_site id "''/etc/passwd''"]
      file_handlers_confined [of "[''srv'']" demo_site demo_site id "''/../etc/passwd''"]
    by blast
qed

end
