(* ===== verification/Cli.thy ===== *)
theory Cli
  imports Guppy_Files Guppy_Client Rust_Words
begin

text \<open>
  The command-line tools \<open>guppy\<close>, \<open>nex\<close> and \<open>spartan\<close> (\<open>crates/*/src/bin/*.rs\<close>): the flag loop they
  share, and their commands as functions of the library's \<open>fetch\<close>. What a command prints on standard
  output, the error it exits with and the server it runs are its outcome. Error texts are
  constructors; the standard library's socket-address parser, binding and a closed standard output
  are parameters.
\<close>

section \<open>The flag loop\<close>

datatype cli_error =
    UsageText | NeedsValue string | UnknownFlag string | PortNotNumber | UnknownCommand string
  | CommandUsage string | EmptyInput string | RootRequired | FromRequired | ListenNotAddress
  | HostsDiffer string string | RuntimeFailed | BindFailed | WriteFailed | LibraryError | LibraryPanicked | AnsweredError string

record listen_flags =
  lf_positional :: "string list"
  lf_root :: "string option"
  lf_listen :: "string option"

fun parse_listen_flags :: "string list \<Rightarrow> listen_flags \<Rightarrow> cli_error + listen_flags" where
  "parse_listen_flags [] F = Inr F"
| "parse_listen_flags (arg # rest) F =
     (if arg = ''--root''
      then (case rest of [] \<Rightarrow> Inl (NeedsValue ''--root'')
            | v # rest' \<Rightarrow> parse_listen_flags rest' (F\<lparr>lf_root := Some v\<rparr>))
      else if arg = ''--listen''
      then (case rest of [] \<Rightarrow> Inl (NeedsValue ''--listen'')
            | v # rest' \<Rightarrow> parse_listen_flags rest' (F\<lparr>lf_listen := Some v\<rparr>))
      else if starts_with ''--'' arg then Inl (UnknownFlag arg)
      else parse_listen_flags rest (F\<lparr>lf_positional := lf_positional F @ [arg]\<rparr>))"

definition no_flags :: listen_flags where
  "no_flags = \<lparr>lf_positional = [], lf_root = None, lf_listen = None\<rparr>"

text \<open>A command line as its reader sees it: words, and flags with their values.\<close>

datatype cli_item = Word string | Flag string string

fun item_args :: "cli_item \<Rightarrow> string list" where
  "item_args (Word w) = [w]" | "item_args (Flag n v) = [n, v]"

definition item_ok :: "(string \<Rightarrow> bool) \<Rightarrow> cli_item \<Rightarrow> bool" where
  "item_ok known it = (case it of Word w \<Rightarrow> \<not> known w \<and> \<not> starts_with ''--'' w | Flag n v \<Rightarrow> known n)"

definition words_of :: "cli_item list \<Rightarrow> string list" where
  "words_of items = List.map_filter (\<lambda>it. case it of Word w \<Rightarrow> Some w | Flag n v \<Rightarrow> None) items"

definition flags_of :: "cli_item list \<Rightarrow> (string \<times> string) list" where
  "flags_of items = List.map_filter (\<lambda>it. case it of Word w \<Rightarrow> None | Flag n v \<Rightarrow> Some (n, v)) items"

text \<open>The value that counts: of a repeated flag, the last one.\<close>

definition last_value :: "string \<Rightarrow> cli_item list \<Rightarrow> string option" where
  "last_value n items = map_of (rev (flags_of items)) n"

lemma words_of_simps [simp]:
  "words_of [] = []" "words_of (Word w # its) = w # words_of its" "words_of (Flag n v # its) = words_of its"
  by (simp_all add: words_of_def List.map_filter_simps)

lemma flags_of_simps [simp]:
  "flags_of [] = []" "flags_of (Word w # its) = flags_of its" "flags_of (Flag n v # its) = (n, v) # flags_of its"
  by (simp_all add: flags_of_def List.map_filter_simps)

lemma last_value_simps [simp]:
  "last_value n [] = None" "last_value n (Word w # its) = last_value n its"
  "last_value n (Flag m v # its) = (case last_value n its of Some u \<Rightarrow> Some u | None \<Rightarrow> if m = n then Some v else None)"
  by (auto simp: last_value_def map_add_def split: option.split)

text \<open>
  The contract of such a loop: what it does with each argument. \<open>put\<close> stores the value of a known
  flag, or refuses it; \<open>word\<close> keeps a positional argument.
\<close>

locale flag_loop =
  fixes parse :: "string list \<Rightarrow> 'f \<Rightarrow> cli_error + 'f"
    and known :: "string \<Rightarrow> bool"
    and put :: "string \<Rightarrow> string \<Rightarrow> 'f \<Rightarrow> cli_error + 'f"
    and word :: "string \<Rightarrow> 'f \<Rightarrow> 'f"
  assumes parse_end: "parse [] f = Inr f"
    and parse_cut: "known a \<Longrightarrow> parse [a] f = Inl (NeedsValue a)"
    and parse_flag: "known a \<Longrightarrow> parse (a # v # rest) f = (case put a v f of Inl e \<Rightarrow> Inl e | Inr g \<Rightarrow> parse rest g)"
    and parse_unknown: "\<not> known a \<Longrightarrow> starts_with ''--'' a \<Longrightarrow> parse (a # rest) f = Inl (UnknownFlag a)"
    and parse_word: "\<not> known a \<Longrightarrow> \<not> starts_with ''--'' a \<Longrightarrow> parse (a # rest) f = parse rest (word a f)"
begin

fun apply_items :: "cli_item list \<Rightarrow> 'f \<Rightarrow> cli_error + 'f" where
  "apply_items [] f = Inr f"
| "apply_items (Word w # its) f = apply_items its (word w f)"
| "apply_items (Flag n v # its) f = (case put n v f of Inl e \<Rightarrow> Inl e | Inr g \<Rightarrow> apply_items its g)"

lemma parse_items:
  "list_all (item_ok known) items \<Longrightarrow> parse (concat (map item_args items)) f = apply_items items f"
  by (induction items f rule: apply_items.induct)
    (auto simp: item_ok_def parse_end parse_flag parse_word split: sum.split)

lemma accepted_items:
  "parse args f = Inr g \<Longrightarrow> \<exists>items. list_all (item_ok known) items \<and> args = concat (map item_args items)"
proof (induction "length args" arbitrary: args f rule: less_induct)
  case less
  show ?case
  proof (cases args)
    case Nil
    then show ?thesis by (intro exI [of _ "[]"]) simp
  next
    case (Cons a rest)
    show ?thesis
    proof (cases "known a")
      case True
      then obtain v rest' where r: "rest = v # rest'" using less.prems Cons parse_cut by (cases rest) auto
      then obtain f' where "parse rest' f' = Inr g"
        using less.prems Cons True parse_flag by (auto split: sum.splits)
      then obtain its where "list_all (item_ok known) its" "rest' = concat (map item_args its)"
        using less.hyps [of rest'] Cons r by auto
      then show ?thesis using Cons r True by (intro exI [of _ "Flag a v # its"]) (simp add: item_ok_def)
    next
      case False
      then have w: "\<not> starts_with ''--'' a" using less.prems Cons parse_unknown by auto
      then have "parse rest (word a f) = Inr g" using less.prems Cons False parse_word by simp
      then obtain its where "list_all (item_ok known) its" "rest = concat (map item_args its)"
        using less.hyps [of rest] Cons by auto
      then show ?thesis using Cons False w by (intro exI [of _ "Word a # its"]) (simp add: item_ok_def)
    qed
  qed
qed

lemma parse_exact:
  "parse args f = Inr g \<longleftrightarrow>
   (\<exists>items. list_all (item_ok known) items \<and> args = concat (map item_args items) \<and> apply_items items f = Inr g)"
  using accepted_items parse_items by metis

end

definition listen_known :: "string \<Rightarrow> bool" where
  "listen_known a \<longleftrightarrow> a = ''--root'' \<or> a = ''--listen''"

definition listen_put :: "string \<Rightarrow> string \<Rightarrow> listen_flags \<Rightarrow> cli_error + listen_flags" where
  "listen_put n v F = Inr (if n = ''--root'' then F\<lparr>lf_root := Some v\<rparr> else F\<lparr>lf_listen := Some v\<rparr>)"

interpretation listen: flag_loop parse_listen_flags listen_known listen_put
  "\<lambda>w F. F\<lparr>lf_positional := lf_positional F @ [w]\<rparr>"
  by unfold_locales (auto simp: listen_known_def listen_put_def)

lemma listen_apply:
  "list_all (item_ok listen_known) items \<Longrightarrow>
   listen.apply_items items F =
     Inr \<lparr>lf_positional = lf_positional F @ words_of items,
          lf_root = (case last_value ''--root'' items of Some v \<Rightarrow> Some v | None \<Rightarrow> lf_root F),
          lf_listen = (case last_value ''--listen'' items of Some v \<Rightarrow> Some v | None \<Rightarrow> lf_listen F)\<rparr>"
  by (induction items F rule: listen.apply_items.induct)
    (auto simp: listen_put_def item_ok_def listen_known_def split: option.split)

section \<open>The commands\<close>

record 'a cli_env =
  ev_runtime :: bool
  ev_stdout :: bool
  ev_socket_addr :: "string \<Rightarrow> 'a option"
  ev_bind :: "'a \<Rightarrow> bool"

text \<open>What a run prints, the directory and address it serves, and how it exits.\<close>

record 'a cli_outcome =
  co_stdout :: string
  co_serving :: "(string \<times> 'a) option"
  co_error :: "cli_error option"

definition fails :: "cli_error \<Rightarrow> 'a cli_outcome" where
  "fails e = \<lparr>co_stdout = [], co_serving = None, co_error = Some e\<rparr>"

definition prints :: "string \<Rightarrow> 'a cli_outcome" where
  "prints out = \<lparr>co_stdout = out, co_serving = None, co_error = None\<rparr>"

definition write_body :: "'a cli_env \<Rightarrow> string \<Rightarrow> 'a cli_outcome" where
  "write_body env body = (if ev_stdout env then prints body else fails WriteFailed)"

text \<open>\<open>serve\<close>: the same in the three tools but for the default address.\<close>

definition cli_serve :: "'a cli_env \<Rightarrow> string \<Rightarrow> listen_flags \<Rightarrow> 'a cli_outcome" where
  "cli_serve env default_listen F =
     (case lf_root F of None \<Rightarrow> fails RootRequired
      | Some root \<Rightarrow>
        (case ev_socket_addr env (case lf_listen F of Some l \<Rightarrow> l | None \<Rightarrow> default_listen) of
           None \<Rightarrow> fails ListenNotAddress
         | Some addr \<Rightarrow>
             if \<not> ev_runtime env then fails RuntimeFailed
             else if \<not> ev_bind env addr then fails BindFailed
             else \<lparr>co_stdout = [], co_serving = Some (root, addr), co_error = None\<rparr>))"

definition guppy_default_listen :: string where "guppy_default_listen = ''0.0.0.0:6775''"
definition nex_default_listen :: string where "nex_default_listen = ''0.0.0.0:1900''"
definition spartan_default_listen :: string where "spartan_default_listen = ''0.0.0.0:300''"

abbreviation println :: "string \<Rightarrow> string" where
  "println s \<equiv> s @ [LF]"

text \<open>
  The library's \<open>fetch\<close> is an argument: what it returns for a URL, for one behaviour of the network.
\<close>

definition guppy_usage :: string where
  "guppy_usage = concat (map (\<lambda>l. l @ [LF])
     [''guppy '' @ [CHR 0xE2, CHR 0x80, CHR 0x94] @ '' the Guppy protocol (spec: github.com/dimkr/guppy-protocol, v0.4.4)'',
      [],
      ''USAGE:'',
      ''  guppy fetch <guppy://url>'',
      ''      Fetch a URL and print the body. Attach input as the URL's query'',
      ''      (percent-encoded) when a prompt asks for it.'',
      [],
      ''  guppy serve --root DIR [--listen ADDR:PORT]'',
      ''      Serve a directory (index.gmi per directory, gemtext-first).'',
      ''      Default listen address is 0.0.0.0:6775.''])"

definition guppy_print :: "'a cli_env \<Rightarrow> guppy_response \<Rightarrow> 'a cli_outcome" where
  "guppy_print env response =
     (case response of
        GSuccess mime body \<Rightarrow> write_body env body
      | GPrompt t \<Rightarrow>
          prints (println (''input required: '' @ t) @
                  println ''(repeat with the input as the URL query, e.g. ?your%20answer)'')
      | GRedirect target \<Rightarrow> prints (println (''redirect: '' @ target))
      | GError message \<Rightarrow> fails (AnsweredError message))"

text \<open>The match on the command, after the flags.\<close>

definition guppy_run :: "'a cli_env \<Rightarrow> (string \<Rightarrow> client_result) \<Rightarrow> string list \<Rightarrow> 'a cli_outcome" where
  "guppy_run env fetch args =
     (case args of [] \<Rightarrow> fails UsageText
      | command # rest \<Rightarrow>
        (case parse_listen_flags rest no_flags of Inl e \<Rightarrow> fails e
         | Inr F \<Rightarrow>
           if command = ''fetch'' then
             (case lf_positional F of
                [u] \<Rightarrow>
                  if \<not> ev_runtime env then fails RuntimeFailed
                  else (case fetch u of
                     Done response \<Rightarrow> guppy_print env response
                   | Failed e \<Rightarrow> fails LibraryError
                   | Panicked \<Rightarrow> fails LibraryPanicked)
              | _ \<Rightarrow> fails (CommandUsage ''fetch''))
           else if command = ''serve'' then cli_serve env guppy_default_listen F
           else if command \<in> {''--help'', ''-h'', ''help''} then prints (println guppy_usage)
           else fails (UnknownCommand command)))"

definition nex_usage :: string where
  "nex_usage = concat (map (\<lambda>l. l @ [LF])
     [''nex '' @ [CHR 0xE2, CHR 0x80, CHR 0x94] @ '' the Nex protocol (spec: nex://nightfall.city/nex/info/specification.txt)'',
      [],
      ''USAGE:'',
      ''  nex fetch <nex://url>'',
      ''      Fetch a URL and print the response.'',
      [],
      ''  nex serve --root DIR [--listen ADDR:PORT]'',
      ''      Serve a directory (index.nex per directory, else a generated listing).'',
      ''      Default listen address is 0.0.0.0:1900.''])"

definition nex_run :: "'a cli_env \<Rightarrow> (string \<Rightarrow> nex_error + string) \<Rightarrow> string list \<Rightarrow> 'a cli_outcome" where
  "nex_run env fetch args =
     (case args of [] \<Rightarrow> fails UsageText
      | command # rest \<Rightarrow>
        (case parse_listen_flags rest no_flags of Inl e \<Rightarrow> fails e
         | Inr F \<Rightarrow>
           if command = ''fetch'' then
             (case lf_positional F of
                [u] \<Rightarrow>
                  if \<not> ev_runtime env then fails RuntimeFailed
                  else (case fetch u of Inl e \<Rightarrow> fails LibraryError | Inr body \<Rightarrow> write_body env body)
              | _ \<Rightarrow> fails (CommandUsage ''fetch''))
           else if command = ''serve'' then cli_serve env nex_default_listen F
           else if command \<in> {''--help'', ''-h'', ''help''} then prints (println nex_usage)
           else fails (UnknownCommand command)))"

fun spartan_status_name :: "spartan_status \<Rightarrow> string" where
  "spartan_status_name SpaSuccess = ''success''"
| "spartan_status_name SpaRedirect = ''redirect''"
| "spartan_status_name SpaClientError = ''client error''"
| "spartan_status_name SpaServerError = ''server error''"

definition spartan_status_text :: "spartan_status \<Rightarrow> string" where
  "spartan_status_text s = show_nat (spartan_code s) @ '' ('' @ spartan_status_name s @ '')''"

definition spartan_print :: "'a cli_env \<Rightarrow> spartan_reply \<Rightarrow> 'a cli_outcome" where
  "spartan_print env r =
     (if sp_status r = SpaSuccess then write_body env (sp_body r)
      else \<lparr>co_stdout = println (spartan_status_text (sp_status r) @ '' '' @ sp_meta r), co_serving = None,
            co_error = Some (AnsweredError (spartan_status_text (sp_status r)))\<rparr>)"

definition spartan_usage :: string where
  "spartan_usage = concat (map (\<lambda>l. l @ [LF])
     [''spartan '' @ [CHR 0xE2, CHR 0x80, CHR 0x94] @ '' the Spartan protocol '' @ [CHR 0xF0, CHR 0x9F, CHR 0x92, CHR 0xAA] @ '' (spec: github.com/michael-lazar/spartan)'',
      [],
      ''USAGE:'',
      ''  spartan fetch <spartan://url>'',
      ''      Fetch a URL and print the body (query components upload per the spec).'',
      [],
      ''  spartan submit <spartan://url> <data...>'',
      ''      Upload data as the request's data block (the =: prompt flow).'',
      [],
      ''  spartan serve --root DIR [--listen ADDR:PORT]'',
      ''      Serve a directory of files (index.gmi per directory, gemtext-first).'',
      ''      Default listen address is 0.0.0.0:300 (may need privileges; try'',
      ''      --listen 0.0.0.0:3000 for testing).''])"

definition spartan_run ::
    "'a cli_env \<Rightarrow> (string \<Rightarrow> spartan_error + spartan_reply) \<Rightarrow> (string \<Rightarrow> string \<Rightarrow> spartan_error + spartan_reply) \<Rightarrow>
     string list \<Rightarrow> 'a cli_outcome" where
  "spartan_run env fetch submit args =
     (case args of [] \<Rightarrow> fails UsageText
      | command # rest \<Rightarrow>
        (case parse_listen_flags rest no_flags of Inl e \<Rightarrow> fails e
         | Inr F \<Rightarrow>
           if command = ''fetch'' then
             (case lf_positional F of
                [u] \<Rightarrow>
                  if \<not> ev_runtime env then fails RuntimeFailed
                  else (case fetch u of Inl e \<Rightarrow> fails LibraryError | Inr r \<Rightarrow> spartan_print env r)
              | _ \<Rightarrow> fails (CommandUsage ''fetch''))
           else if command = ''submit'' then
             (case lf_positional F of
                [] \<Rightarrow> fails (CommandUsage ''submit'')
              | u # parts \<Rightarrow>
                  if parts = [] then fails (EmptyInput ''submit'')
                  else if \<not> ev_runtime env then fails RuntimeFailed
                  else (case submit u (join_with '' '' parts) of
                     Inl e \<Rightarrow> fails LibraryError | Inr r \<Rightarrow> spartan_print env r))
           else if command = ''serve'' then cli_serve env spartan_default_listen F
           else if command \<in> {''--help'', ''-h'', ''help''} then prints (println spartan_usage)
           else fails (UnknownCommand command)))"

text \<open>\<open>main\<close>: the exit status, and nothing else, tells a failure.\<close>

definition exit_code :: "'a cli_outcome \<Rightarrow> nat" where
  "exit_code out = (if co_error out = None then 0 else 1)"

section \<open>Properties\<close>

text \<open>
  (C22) The flag loop of the tools accepts exactly the command lines made of words that do not begin
  with two dashes and of the flags \<open>--root\<close> and \<open>--listen\<close>, each followed by a value (any value, even
  one that looks like a flag), in any order; the words are kept in order, and of a repeated flag
  the last value counts.
\<close>

theorem listen_flags_exact:
  "parse_listen_flags args no_flags = Inr F \<longleftrightarrow>
   (\<exists>items. list_all (item_ok listen_known) items \<and> args = concat (map item_args items) \<and>
      F = \<lparr>lf_positional = words_of items, lf_root = last_value ''--root'' items, lf_listen = last_value ''--listen'' items\<rparr>)"
proof -
  have "listen.apply_items items no_flags =
      Inr \<lparr>lf_positional = words_of items, lf_root = last_value ''--root'' items, lf_listen = last_value ''--listen'' items\<rparr>"
    if "list_all (item_ok listen_known) items" for items
    using listen_apply [OF that, of no_flags] by (simp add: no_flags_def split: option.split)
  then show ?thesis unfolding listen.parse_exact by auto
qed

text \<open>
  The \<open>nex\<close> tool against a directory that another \<open>nex\<close> serves: \<open>nex fetch\<close> of the URL of a file
  there prints exactly the file's bytes and exits successfully.
\<close>

theorem nex_tool_prints_file:
  assumes "up u = Some p" "url_scheme p = ''nex''" "url_host p = Some host" "\<not> starts_with ''--'' u"
    and "nex_admits default_nex_config (url_path p)"
    and "nex_resolve pct root (url_path p) = Some q" "\<not> is_directory_path (url_path p)" "\<not> is_dir_at fs q"
    and "read_at fs q = FileBytes body" "length body \<le> max_body" "ev_runtime env" "ev_stdout env"
    and "dial = (\<lambda>_ _. Some (as_peer (nex_handle_connection default_nex_config (nex_handle pct fs root))))"
  shows "nex_run env (nex_fetch up dial max_body) [''fetch'', u] = prints body"
proof -
  have "nex_handle pct fs root (url_path p) = body"
    using assms(6-9) by (simp add: nex_handle_def)
  then have "nex_fetch up dial max_body u = Inr body"
    using assms(1-3,10,13) nex.peer_answers [OF assms(5), of "nex_handle pct fs root"]
    by (simp add: nex_fetch_def nex_fetch_path_def read_within_def)
  moreover have "u \<noteq> ''--root''" "u \<noteq> ''--listen''" using assms(4) by (auto simp: starts_with_def)
  ultimately show ?thesis
    using assms(4,11,12) by (simp add: nex_run_def no_flags_def write_body_def)
qed

end
