(* ===== verification/Misfin_System.thy ===== *)
theory Misfin_System
  imports Misfin_Delivery
begin

text \<open>
  The misfin server as it runs (\<open>MisfinServer\<close>, \<open>BoundMisfinServer\<close> in \<open>crates/misfin/src/server.rs\<close>):
  an accept loop that spawns one task per connection, all of them over one mailbox store. The
  database serialises its transactions and nothing else, so a task is split where the code opens
  a transaction: the tasks interleave there. An operator may release a pin at any moment
  (\<open>forget_sender_identity\<close> through another handle of the store).
\<close>

section \<open>A connection, cut at its transactions\<close>

text \<open>What \<open>dispatch\<close> decides before it touches the store.\<close>

record delivery_job =
  dj_recipient :: misfin_address
  dj_served :: string
  dj_fingerprint :: string
  dj_sender :: "misfin_sender option"
  dj_message :: string
  dj_now :: nat

datatype decision = Refused misfin_response | Admitted delivery_job

definition dispatch_decide ::
    "misfin_libs \<Rightarrow> misfin_config \<Rightarrow> string \<Rightarrow> string option \<Rightarrow> nat \<Rightarrow> decision" where
  "dispatch_decide lb cfg request peer_cert now =
     (case peer_cert of None \<Rightarrow> Refused (response_new 60 ''Certificate required.'')
      | Some cert \<Rightarrow>
      (case split_request request of None \<Rightarrow> Refused (response_new 59 ''Malformed request.'')
       | Some (target, message) \<Rightarrow>
       (case parse_recipient (lb_url lb) target of None \<Rightarrow> Refused (response_new 59 ''Malformed recipient address.'')
        | Some recipient \<Rightarrow>
          if \<not> serves_host cfg (ma_host recipient) then Refused (response_new 53 ''Domain not serviced.'')
          else (case find_mailbox cfg recipient of None \<Rightarrow> Refused (response_new 51 ''Mailbox doesn't exist.'')
          | Some served \<Rightarrow>
            let identity = parse_certificate_identity (lb_x509 lb) cert now
            in if (case identity of Some i \<Rightarrow> cid_expired i | None \<Rightarrow> False)
               then Refused (response_new 62 ''Certificate is outside its validity window.'')
               else
                 let claimed = Option.bind identity claimed_address in
                 if claimed = None \<and> mc_require_sender_identity cfg
                 then Refused (response_new 62 ''Certificate is not a misfin identity.'')
                 else Admitted
                   \<lparr>dj_recipient = recipient, dj_served = sm_fingerprint served,
                    dj_fingerprint = sha256_hex (lb_sha lb) cert,
                    dj_sender = map_option (\<lambda>a. \<lparr>ms_address = a, ms_blurb = Option.bind identity cid_blurb\<rparr>) claimed,
                    dj_message = message, dj_now = now\<rparr>))))"

text \<open>
  A task: accepted, about to check its sender, to record its fingerprint, to store its message, or
  done, with the response it writes (none when it only drops the connection, or panicked).
\<close>

datatype misfin_task =
    TaskAccepted misfin_peer string stream_end
  | TaskIdentity delivery_job
  | TaskSender delivery_job
  | TaskMessage delivery_job
  | TaskDone "misfin_response option"

definition task_request ::
    "misfin_libs \<Rightarrow> misfin_config \<Rightarrow> nat \<Rightarrow> misfin_peer \<Rightarrow> string \<Rightarrow> stream_end \<Rightarrow> misfin_task" where
  "task_request lb cfg now peer input e =
     (case accept_peer peer of None \<Rightarrow> TaskDone None
      | Some cert \<Rightarrow>
        (case misfin_read_request [] input e of
           RequestFailed \<Rightarrow> TaskDone None
         | RequestTooLong \<Rightarrow> TaskDone (Some (response_new 59 ''Request exceeds 2048 bytes.''))
         | RequestNotUtf8 \<Rightarrow> TaskDone (Some (response_new 59 ''Request is not UTF-8.''))
         | RequestLine request \<Rightarrow>
             (case dispatch_decide lb cfg request cert now of
                Refused r \<Rightarrow> TaskDone (Some r) | Admitted j \<Rightarrow> TaskIdentity j)))"

text \<open>The three transactions, each with what the task does next and the event it adds to the history.\<close>

definition task_identity ::
    "misfin_config \<Rightarrow> 'v codec \<Rightarrow> bool \<Rightarrow> delivery_job \<Rightarrow> 'v mailbox_store \<Rightarrow>
     store_event list \<times> misfin_task \<times> 'v mailbox_store" where
  "task_identity cfg cd commits j s =
     (case dj_sender j of None \<Rightarrow> ([], TaskSender j, s)
      | Some x \<Rightarrow>
        (let addr = as_addr_spec (ms_address x) in
         case check_and_record_identity cd commits s addr (dj_fingerprint j) (dj_now j) of (res, s') \<Rightarrow>
           ([IdentityChecked addr (dj_fingerprint j) (dj_now j) res],
            (case res of
               Inl _ \<Rightarrow> TaskDone (Some (response_new 40 ''Temporary server error.''))
             | Inr check \<Rightarrow>
                 if is_changed check \<and> mc_reject_changed_sender cfg
                 then TaskDone (Some (response_new 63 ''Your fingerprint changed for a known identity.''))
                 else TaskSender j), s')))"

definition task_sender ::
    "bool \<Rightarrow> delivery_job \<Rightarrow> 'v mailbox_store \<Rightarrow> store_event list \<times> misfin_task \<times> 'v mailbox_store" where
  "task_sender commits j s =
     (case record_sender commits s (dj_fingerprint j) (dj_now j) of (res, s') \<Rightarrow>
        ([SenderRecorded (dj_fingerprint j) (dj_now j) res],
         (case res of
            Inl _ \<Rightarrow> TaskDone (Some (response_new 40 ''Temporary server error.'')) | Inr _ \<Rightarrow> TaskMessage j), s'))"

definition task_message ::
    "'v codec \<Rightarrow> bool \<Rightarrow> delivery_job \<Rightarrow> 'v mailbox_store \<Rightarrow>
     store_event list \<times> misfin_task \<times> 'v mailbox_store" where
  "task_message cd commits j s =
     (case store_message cd commits s (dj_recipient j) (dj_fingerprint j) (dj_sender j) (dj_message j) (dj_now j) of
        (res, s') \<Rightarrow>
          ([Stored (dj_recipient j) (dj_fingerprint j) (dj_sender j) (dj_message j) (dj_now j) res],
           TaskDone (case res of
              Inr _ \<Rightarrow> Some (response_new 20 (dj_served j))
            | Inl SequenceOverflow \<Rightarrow> None
            | Inl StorageFailed \<Rightarrow> Some (response_new 40 ''Temporary server error.'')), s'))"

fun task_turn ::
    "misfin_libs \<Rightarrow> misfin_config \<Rightarrow> 'v codec \<Rightarrow> nat \<Rightarrow> bool \<Rightarrow> misfin_task \<Rightarrow> 'v mailbox_store \<Rightarrow>
     store_event list \<times> misfin_task \<times> 'v mailbox_store" where
  "task_turn lb cfg cd now commits (TaskAccepted peer input e) s = ([], task_request lb cfg now peer input e, s)"
| "task_turn lb cfg cd now commits (TaskIdentity j) s = task_identity cfg cd commits j s"
| "task_turn lb cfg cd now commits (TaskSender j) s = task_sender commits j s"
| "task_turn lb cfg cd now commits (TaskMessage j) s = task_message cd commits j s"
| "task_turn lb cfg cd now commits (TaskDone r) s = ([], TaskDone r, s)"

section \<open>The server\<close>

datatype misfin_server_error = ServerConfigError | ServerIoError | ServerStorageError

record 'v misfin_system =
  sy_accepting :: bool
  sy_tasks :: "misfin_task list"
  sy_store :: "'v mailbox_store"

text \<open>\<open>new\<close> and \<open>bind\<close>: rustls refuses an unusable certificate or key, the system an address.\<close>

definition misfin_server_new ::
    "(string \<Rightarrow> string \<Rightarrow> bool) \<Rightarrow> misfin_config \<Rightarrow> 'v mailbox_store \<Rightarrow> misfin_server_error + misfin_config \<times> 'v mailbox_store" where
  "misfin_server_new usable cfg s =
     (if usable (mc_tls_certificate cfg) (mc_tls_private_key cfg) then Inr (cfg, s) else Inl ServerConfigError)"

definition misfin_bind ::
    "bool \<Rightarrow> misfin_config \<times> 'v mailbox_store \<Rightarrow> misfin_server_error + misfin_config \<times> 'v misfin_system" where
  "misfin_bind bindable server =
     (if bindable then Inr (fst server, \<lparr>sy_accepting = True, sy_tasks = [], sy_store = snd server\<rparr>) else Inl ServerIoError)"

text \<open>One thing that happens next; a task's turn comes with the clock and its transaction's outcome.\<close>

datatype server_event =
    ConnectionAccepted misfin_peer string stream_end
  | AcceptFailed
  | ShutdownResolved
  | TaskTurn nat nat bool
  | PinReleased string bool

fun server_turn ::
    "misfin_libs \<Rightarrow> misfin_config \<Rightarrow> 'v codec \<Rightarrow> server_event \<Rightarrow> 'v misfin_system \<Rightarrow> store_event list \<times> 'v misfin_system" where
  "server_turn lb cfg cd (ConnectionAccepted peer input e) S =
     ([], if sy_accepting S then S\<lparr>sy_tasks := sy_tasks S @ [TaskAccepted peer input e]\<rparr> else S)"
| "server_turn lb cfg cd AcceptFailed S = ([], S)"
| "server_turn lb cfg cd ShutdownResolved S = ([], S\<lparr>sy_accepting := False\<rparr>)"
| "server_turn lb cfg cd (TaskTurn i now commits) S =
     (if i < length (sy_tasks S)
      then (case task_turn lb cfg cd now commits (sy_tasks S ! i) (sy_store S) of (es, t, s) \<Rightarrow>
              (es, S\<lparr>sy_tasks := (sy_tasks S)[i := t], sy_store := s\<rparr>))
      else ([], S))"
| "server_turn lb cfg cd (PinReleased addr commits) S =
     (case forget_sender_identity commits (sy_store S) addr of (res, s) \<Rightarrow> ([Forgotten addr res], S\<lparr>sy_store := s\<rparr>))"

text \<open>A run of the server, with the history of its store.\<close>

inductive misfin_run ::
    "misfin_libs \<Rightarrow> misfin_config \<Rightarrow> 'v codec \<Rightarrow> 'v misfin_system \<Rightarrow> server_event list \<Rightarrow> store_event list \<Rightarrow>
     'v misfin_system \<Rightarrow> bool"
  for lb cfg cd S0 where
  run_start: "misfin_run lb cfg cd S0 [] [] S0"
| run_turn: "misfin_run lb cfg cd S0 vs es S \<Longrightarrow> server_turn lb cfg cd v S = (es', S') \<Longrightarrow>
    misfin_run lb cfg cd S0 (vs @ [v]) (es @ es') S'"

section \<open>One task by itself is one connection\<close>

definition dispatch_admitted ::
    "misfin_config \<Rightarrow> 'v codec \<Rightarrow> commits \<Rightarrow> 'v mailbox_store \<Rightarrow> delivery_job \<Rightarrow> misfin_response option \<times> 'v mailbox_store" where
  "dispatch_admitted cfg cd cm s j =
     (case dispatch_identity cfg cd (cm_identity cm) s (dj_sender j) (dj_fingerprint j) (dj_now j) of
        (Some r, s1) \<Rightarrow> (Some r, s1)
      | (None, s1) \<Rightarrow>
          dispatch_store cd cm s1 (dj_recipient j) (dj_served j) (dj_fingerprint j) (dj_sender j) (dj_message j) (dj_now j))"

lemma dispatch_split:
  "misfin_dispatch lb cfg cd cm s request peer_cert now =
     (case dispatch_decide lb cfg request peer_cert now of
        Refused r \<Rightarrow> (Some r, s) | Admitted j \<Rightarrow> dispatch_admitted cfg cd cm s j)"
  unfolding misfin_dispatch_def dispatch_decide_def dispatch_admitted_def Let_def
  by (simp split: option.split prod.split)

fun task_turns ::
    "misfin_libs \<Rightarrow> misfin_config \<Rightarrow> 'v codec \<Rightarrow> nat \<Rightarrow> bool list \<Rightarrow> misfin_task \<Rightarrow> 'v mailbox_store \<Rightarrow>
     misfin_task \<times> 'v mailbox_store" where
  "task_turns lb cfg cd now [] t s = (t, s)"
| "task_turns lb cfg cd now (c # cs) t s =
     (case task_turn lb cfg cd now c t s of (_, t', s') \<Rightarrow> task_turns lb cfg cd now cs t' s')"

lemma task_turns_done [simp]: "task_turns lb cfg cd now cs (TaskDone r) s = (TaskDone r, s)"
  by (induction cs) auto

lemma task_stores:
  "task_turns lb cfg cd now [cm_sender cm, cm_message cm] (TaskSender j) s =
     (case dispatch_store cd cm s (dj_recipient j) (dj_served j) (dj_fingerprint j) (dj_sender j) (dj_message j) (dj_now j) of
        (r, s') \<Rightarrow> (TaskDone r, s'))"
  unfolding dispatch_store_def
  by (auto simp: task_sender_def task_message_def split: sum.split prod.split store_error.split)

lemma task_admitted:
  "task_turns lb cfg cd now [cm_identity cm, cm_sender cm, cm_message cm] (TaskIdentity j) s =
     (case dispatch_admitted cfg cd cm s j of (r, s') \<Rightarrow> (TaskDone r, s'))"
proof (cases "dj_sender j")
  case None
  then show ?thesis
    using task_stores [of lb cfg cd now cm j s]
    by (simp add: dispatch_admitted_def dispatch_identity_def task_identity_def)
next
  case (Some x)
  obtain res s1 where
    "check_and_record_identity cd (cm_identity cm) s (as_addr_spec (ms_address x)) (dj_fingerprint j) (dj_now j) = (res, s1)"
    by force
  with Some show ?thesis
    using task_stores [of lb cfg cd now cm j s1]
    by (auto simp: dispatch_admitted_def dispatch_identity_def task_identity_def Let_def split: sum.split)
qed

text \<open>
  The task is the connection: the four turns of a task, with nothing else running in between,
  write what the sequential handler of one connection writes and leave the store as it does,
  whichever of the transactions fail.
\<close>

theorem misfin_task_alone:
  "\<exists>r. task_turns lb cfg cd now [True, cm_identity cm, cm_sender cm, cm_message cm] (TaskAccepted peer input e) s =
      (TaskDone r, snd (misfin_serve lb cfg cd cm s peer now input e)) \<and>
    fst (misfin_serve lb cfg cd cm s peer now input e) = map_option misfin_response_encode r"
proof (cases "accept_peer peer")
  case (Some cert)
  then show ?thesis
  proof (cases "misfin_read_request [] input e")
    case (RequestLine request)
    then show ?thesis
    proof (cases "dispatch_decide lb cfg request cert now")
      case (Admitted j)
      obtain r s' where d: "dispatch_admitted cfg cd cm s j = (r, s')" by force
      then show ?thesis
        using Some RequestLine Admitted task_admitted [of lb cfg cd now cm j s]
        by (simp add: task_request_def misfin_serve_def misfin_handle_connection_def dispatch_split)
    qed (use Some in \<open>simp add: task_request_def misfin_serve_def misfin_handle_connection_def dispatch_split\<close>)
  qed (simp_all add: task_request_def misfin_serve_def misfin_handle_connection_def)
qed (simp add: task_request_def misfin_serve_def)

section \<open>The history of a run\<close>

lemma store_run_append: "store_run cd t es' u \<Longrightarrow> store_run cd s es t \<Longrightarrow> store_run cd s (es @ es') u"
  by (induction rule: store_run.induct) (auto intro: store_run.run_step simp flip: append_assoc)

lemma store_run_single: "store_step cd s e t \<Longrightarrow> store_run cd s [e] t"
  using run_step [OF run_empty] by fastforce

lemma task_turn_history:
  assumes "task_turn lb cfg cd now c t s = (es, t', s')"
  shows "store_run cd s es s'"
proof (cases t)
  case (TaskIdentity j)
  show ?thesis
  proof (cases "dj_sender j")
    case (Some x)
    with assms TaskIdentity show ?thesis
      by (auto simp: task_identity_def Let_def split: prod.splits intro!: store_run_single store_step.step_check)
  qed (use assms TaskIdentity in \<open>auto simp: task_identity_def intro: run_empty\<close>)
qed (use assms in \<open>auto simp: task_sender_def task_message_def split: prod.splits
      intro!: store_run_single run_empty intro: store_step.step_record store_step.step_store\<close>)

lemma server_turn_history:
  assumes "server_turn lb cfg cd v S = (es, S')"
  shows "store_run cd (sy_store S) es (sy_store S')"
proof (cases v)
  case (PinReleased a c)
  obtain res s where f: "forget_sender_identity c (sy_store S) a = (res, s)" by force
  then have "es = [Forgotten a res]" "sy_store S' = s" using assms PinReleased by auto
  then show ?thesis using store_run_single [OF step_forget [OF f]] by simp
qed (use assms in \<open>auto intro: run_empty dest: task_turn_history split: if_splits prod.splits\<close>)

lemma run_history: "misfin_run lb cfg cd S0 vs es S \<Longrightarrow> store_run cd (sy_store S0) es (sy_store S)"
proof (induction rule: misfin_run.induct)
  case (run_turn vs es S v es' S')
  then show ?case using store_run_append server_turn_history by blast
qed (rule run_empty)

section \<open>Answers and stored messages\<close>

fun answered_20 :: "misfin_task \<Rightarrow> bool" where
  "answered_20 (TaskDone (Some r)) = (mr_status r = 20)"
| "answered_20 t = False"

lemma status_new [simp]: "mr_status (response_new k m) = k"
  by (simp add: response_new_def)

lemma decide_refuses: "dispatch_decide lb cfg request cert now = Refused r \<Longrightarrow> mr_status r \<noteq> 20"
  by (auto simp: dispatch_decide_def Let_def split: option.splits prod.splits if_splits)

lemma request_unanswered: "\<not> answered_20 (task_request lb cfg now peer input e)"
  by (auto simp: task_request_def split: option.split request_read.split decision.split dest: decide_refuses)

lemma delivered_Nil [simp]: "delivered [] = []"
  by (simp add: delivered_def List.map_filter_def)

lemma delivered_append: "delivered (es @ es') = delivered es @ delivered es'"
  by (simp add: delivered_def List.map_filter_def)

lemma delivered_single:
  "delivered [Stored r fp sn b at res] = (case res of Inr seq \<Rightarrow> [the (delivered_message (Stored r fp sn b at res))] | Inl _ \<Rightarrow> [])"
  "delivered [SenderRecorded fp at' res1] = []" "delivered [IdentityChecked a fp at' res2] = []"
  "delivered [Forgotten a res3] = []"
  by (simp_all add: delivered_def List.map_filter_def split: sum.split)

lemma task_turn_answers:
  assumes "task_turn lb cfg cd now c t s = (es, t', s')"
  shows "length (delivered es) + of_bool (answered_20 t) = of_bool (answered_20 t')"
proof (cases t)
  case (TaskIdentity j)
  with assms show ?thesis
    by (auto simp: task_identity_def Let_def delivered_single split: option.splits prod.splits sum.splits if_splits)
next
  case (TaskSender j)
  with assms show ?thesis
    by (auto simp: task_sender_def delivered_single split: prod.splits sum.splits)
next
  case (TaskMessage j)
  with assms show ?thesis
    by (auto simp: task_message_def delivered_single split: prod.splits sum.splits store_error.splits)
qed (use assms request_unanswered in auto)

lemma filter_update:
  "i < length xs \<Longrightarrow> length (filter P (xs[i := y])) + of_bool (P (xs ! i)) = length (filter P xs) + of_bool (P y)"
proof (induction xs arbitrary: i)
  case (Cons x xs)
  then show ?case by (cases i) auto
qed simp

lemma server_turn_answers:
  assumes "server_turn lb cfg cd v S = (es, S')"
  shows "length (filter answered_20 (sy_tasks S')) = length (filter answered_20 (sy_tasks S)) + length (delivered es)"
proof (cases v)
  case (TaskTurn i now c)
  show ?thesis
  proof (cases "i < length (sy_tasks S)")
    case True
    obtain es1 t s where t: "task_turn lb cfg cd now c (sy_tasks S ! i) (sy_store S) = (es1, t, s)"
      by (metis prod_cases3)
    then have "es1 = es" "sy_tasks S' = (sy_tasks S)[i := t]" using assms TaskTurn True by auto
    then show ?thesis
      using task_turn_answers [OF t] filter_update [OF True, of answered_20 t] by simp
  qed (use assms TaskTurn in auto)
qed (use assms in \<open>auto simp: delivered_single split: prod.splits\<close>)

lemma run_answers:
  "misfin_run lb cfg cd S0 vs es S \<Longrightarrow>
   length (filter answered_20 (sy_tasks S)) = length (filter answered_20 (sy_tasks S0)) + length (delivered es)"
  by (induction rule: misfin_run.induct) (auto simp: delivered_append dest: server_turn_answers)

section \<open>One certificate per claimed address\<close>

definition claims :: "delivery_job \<Rightarrow> string \<Rightarrow> bool" where
  "claims j a \<longleftrightarrow> (\<exists>x. dj_sender j = Some x \<and> as_addr_spec (ms_address x) = a)"

text \<open>A task past its check holds the certificate that its claimed address is pinned to.\<close>

fun task_settled :: "'v codec \<Rightarrow> string \<Rightarrow> 'v mailbox_store \<Rightarrow> misfin_task \<Rightarrow> bool" where
  "task_settled cd a s (TaskSender j) = (claims j a \<longrightarrow> pinned cd s a (dj_fingerprint j))"
| "task_settled cd a s (TaskMessage j) = (claims j a \<longrightarrow> pinned cd s a (dj_fingerprint j))"
| "task_settled cd a s t = True"

definition message_settled :: "'v codec \<Rightarrow> string \<Rightarrow> 'v mailbox_store \<Rightarrow> received_message \<Rightarrow> bool" where
  "message_settled cd a s m \<longleftrightarrow> (rm_sender_address m = Some a \<longrightarrow> pinned cd s a (rm_sender_fingerprint m))"

lemma task_settled_kept:
  "task_settled cd a s t \<Longrightarrow> (\<And>fp. pinned cd s a fp \<Longrightarrow> pinned cd s' a fp) \<Longrightarrow> task_settled cd a s' t"
  by (cases t) auto

lemma task_turn_settled:
  assumes "task_turn lb cfg cd now c t s = (es, t', s')" "task_settled cd a s t" "codec_ok cd"
    and "mc_reject_changed_sender cfg" "\<forall>b. Forgotten a (Inr b) \<notin> set es"
  shows "task_settled cd a s' t' \<and> (\<forall>m \<in> set (delivered es). message_settled cd a s' m)"
proof -
  have keep: "pinned cd s a fp \<Longrightarrow> pinned cd s' a fp" for fp
    using run_keeps_pin [OF task_turn_history [OF assms(1)] _ assms(5)] .
  show ?thesis
  proof (cases t)
    case (TaskAccepted peer input e)
    with assms(1) show ?thesis
      by (auto simp: task_request_def split: option.splits request_read.splits decision.splits)
  next
    case (TaskIdentity j)
    with assms(1,3,4) show ?thesis
      using check_pins [of cd c s a "dj_fingerprint j" "dj_now j" _ s']
      by (auto simp: task_identity_def Let_def delivered_single claims_def split: option.splits prod.splits sum.splits if_splits)
  next
    case (TaskSender j)
    with assms(1,2) keep show ?thesis
      by (auto simp: task_sender_def delivered_single split: prod.splits sum.splits)
  next
    case (TaskMessage j)
    with assms(1,2) keep show ?thesis
      by (auto simp: task_message_def delivered_single message_settled_def claims_def split: prod.splits sum.splits)
  qed (use assms in auto)
qed

lemma run_settled:
  assumes "misfin_run lb cfg cd S0 vs es S" "sy_tasks S0 = []" "codec_ok cd" "mc_reject_changed_sender cfg"
    and "\<forall>b. Forgotten a (Inr b) \<notin> set es"
  shows "(\<forall>t \<in> set (sy_tasks S). task_settled cd a (sy_store S) t) \<and> (\<forall>m \<in> set (delivered es). message_settled cd a (sy_store S) m)"
  using assms
proof (induction rule: misfin_run.induct)
  case (run_turn vs es S v es' S')
  have keep: "pinned cd (sy_store S) a fp \<Longrightarrow> pinned cd (sy_store S') a fp" for fp
    using run_keeps_pin [OF server_turn_history [OF run_turn.hyps(2)]] run_turn.prems(4) by auto
  have old: "\<forall>t \<in> set (sy_tasks S). task_settled cd a (sy_store S') t" "\<forall>m \<in> set (delivered es). message_settled cd a (sy_store S') m"
    using run_turn keep task_settled_kept by (fastforce simp: message_settled_def)+
  show ?case
  proof (cases v)
    case (TaskTurn i now c)
    show ?thesis
    proof (cases "i < length (sy_tasks S)")
      case True
      obtain es1 t s where t: "task_turn lb cfg cd now c (sy_tasks S ! i) (sy_store S) = (es1, t, s)"
        by (metis prod_cases3)
      then have e: "es1 = es'" "S' = S\<lparr>sy_tasks := (sy_tasks S)[i := t], sy_store := s\<rparr>"
        using run_turn.hyps(2) TaskTurn True by auto
      have "task_settled cd a s t \<and> (\<forall>m \<in> set (delivered es1). message_settled cd a s m)"
        using run_turn True e by (intro task_turn_settled [OF t]) auto
      with old e show ?thesis by (auto simp: delivered_append dest!: set_update_subset_insert [THEN subsetD])
    qed (use run_turn.hyps(2) TaskTurn old in auto)
  qed (use run_turn.hyps(2) old in \<open>auto simp: delivered_append delivered_single split: prod.splits if_splits\<close>)
qed simp

lemma pinned_unique: "pinned cd s a fp \<Longrightarrow> pinned cd s a fp' \<Longrightarrow> fp = fp'"
  by (auto simp: pinned_def)

section \<open>Properties\<close>

text \<open>
  (C7) The server over its store: from any well-formed log, whatever connections arrive, however
  their tasks and the operator interleave and whichever transactions fail, every mailbox lists its
  earlier messages followed by the ones delivered to it in this run, in the order of their
  transactions, and as many messages were delivered as connections are answered with status 20.
\<close>

theorem misfin_server_log:
  assumes "codec_ok cd" "holds_log cd s log"
    and "misfin_server_new usable config s = Inr server" "misfin_bind True server = Inr (cfg, S0)"
    and "misfin_run lb cfg cd S0 vs es S"
  shows "list_mailbox cd True (sy_store S) r = Inr (filter (\<lambda>m. rm_recipient m = r) (log @ delivered es)) \<and>
    length (delivered es) = length (filter answered_20 (sy_tasks S))"
proof -
  have S0: "sy_store S0 = s" "sy_tasks S0 = []"
    using assms(3,4) by (auto simp: misfin_server_new_def misfin_bind_def split: if_splits)
  then have "holds_log cd (sy_store S) (log @ delivered es)"
    using run_log [OF run_history [OF assms(5)]] assms(2) by simp
  then show ?thesis
    using list_mailbox_log [OF assms(1)] run_answers [OF assms(5)] S0 by simp
qed

text \<open>
  (C6) One certificate per claimed address, in every interleaving: when changed senders are rejected
  and no operator releases the pin of an address, all messages that a run of the server delivers
  under that address carry one and the same certificate fingerprint, even when several first
  contacts race each other.
\<close>

theorem misfin_one_certificate:
  assumes "codec_ok cd" "mc_reject_changed_sender cfg"
    and "misfin_run lb cfg cd \<lparr>sy_accepting = True, sy_tasks = [], sy_store = s\<rparr> vs es S"
    and "\<forall>b. Forgotten a (Inr b) \<notin> set es"
    and "m \<in> set (delivered es)" "rm_sender_address m = Some a"
    and "m' \<in> set (delivered es)" "rm_sender_address m' = Some a"
  shows "rm_sender_fingerprint m = rm_sender_fingerprint m'"
proof -
  have "message_settled cd a (sy_store S) m" "message_settled cd a (sy_store S) m'"
    using run_settled [OF assms(3) _ assms(1,2,4)] assms(5,7) by simp_all
  with assms(6,8) show ?thesis unfolding message_settled_def by (blast intro: pinned_unique)
qed

section \<open>Instances\<close>

fun server_turns ::
    "misfin_libs \<Rightarrow> misfin_config \<Rightarrow> 'v codec \<Rightarrow> server_event list \<Rightarrow> 'v misfin_system \<Rightarrow> store_event list \<times> 'v misfin_system" where
  "server_turns lb cfg cd [] S = ([], S)"
| "server_turns lb cfg cd (v # vs) S =
     (case server_turn lb cfg cd v S of (es, S') \<Rightarrow>
      case server_turns lb cfg cd vs S' of (es', S'') \<Rightarrow> (es @ es', S''))"

lemma server_turns_run_from:
  "misfin_run lb cfg cd S0 vs0 es0 S \<Longrightarrow> server_turns lb cfg cd vs S = (es, S') \<Longrightarrow>
   misfin_run lb cfg cd S0 (vs0 @ vs) (es0 @ es) S'"
proof (induction vs arbitrary: vs0 es0 S es)
  case (Cons v vs)
  obtain e T where t: "server_turn lb cfg cd v S = (e, T)" by force
  obtain f where f: "server_turns lb cfg cd vs T = (f, S')" "es = e @ f"
    using Cons.prems(2) t by (auto split: prod.splits)
  show ?case using Cons.IH [OF run_turn [OF Cons.prems(1) t] f(1)] f(2) by simp
qed simp

lemmas server_turns_run = server_turns_run_from [OF run_start, simplified]

definition demo_config :: misfin_config where
  "demo_config = misfin_config_new [] [] [demo_served]"

definition demo_job :: "nat \<Rightarrow> delivery_job" where
  "demo_job now =
     \<lparr>dj_recipient = demo_address, dj_served = ''00ff'', dj_fingerprint = ''41'',
      dj_sender = Some \<lparr>ms_address = \<lparr>ma_mailbox = ''ana'', ma_host = ''o''\<rparr>, ms_blurb = Some ''Ana''\<rparr>,
      dj_message = ''hi'', dj_now = now\<rparr>"

definition demo_bytes :: string where
  "demo_bytes = target_of demo_address @ '' '' @ ''hi'' @ CRLF"

abbreviation demo_connection :: server_event where
  "demo_connection \<equiv> ConnectionAccepted \<lparr>mp_certificate = Some ''A'', mp_genuine = True\<rparr> demo_bytes Eof"

lemma demo_task:
  "task_request demo_libs demo_config now \<lparr>mp_certificate = Some ''A'', mp_genuine = True\<rparr> demo_bytes Eof = TaskIdentity (demo_job now)"
proof -
  have ok: "address_ok demo_address" "url_reads_target (lb_url demo_libs) demo_address"
    using demo_mail_request by (simp_all add: request_ok_def url_reads_target_def demo_libs_def demo_address_def)
  have hex: "encode_hex ''A'' = ''41''" "trim_newlines ''hi'' = ''hi''" by code_simp+
  have id: "parse_certificate_identity (lb_x509 demo_libs) ''A'' now =
      Some \<lparr>cid_mailbox = Some ''ana'', cid_hosts = [to_lower ''o''], cid_blurb = Some ''Ana'', cid_expired = False\<rparr>"
    by (simp add: demo_libs_def parse_certificate_identity_def demo_x509_def subject_attribute_def List.map_filter_def)
  have "sender_of demo_libs ''A'' now = Some \<lparr>ms_address = \<lparr>ma_mailbox = ''ana'', ma_host = ''o''\<rparr>, ms_blurb = Some ''Ana''\<rparr>"
    by (rule demo_sender)
  then have claim: "claimed_address \<lparr>cid_mailbox = Some ''ana'', cid_hosts = [to_lower ''o''], cid_blurb = Some ''Ana'', cid_expired = False\<rparr> =
      Some \<lparr>ma_mailbox = ''ana'', ma_host = ''o''\<rparr>"
    by (auto simp: sender_of_def id Let_def)
  have "find_mailbox demo_config demo_address = Some demo_served" "serves_host demo_config (ma_host demo_address)"
    by (simp_all add: demo_config_def find_mailbox_def serves_host_def misfin_config_new_def demo_served_def)
  then have "dispatch_decide demo_libs demo_config (target_of demo_address @ '' '' @ ''hi'') (Some ''A'') now =
      Admitted (demo_job now)"
    using split_request_sent [OF ok(1), of "''hi''"] parse_recipient_sent [OF ok] hex
    by (simp add: dispatch_decide_def id claim demo_job_def demo_served_def sha256_hex_def demo_config_def
        misfin_config_new_def Let_def)
  then show ?thesis
    using server_reads_request [OF demo_mail_request] hex
    by (simp add: demo_bytes_def task_request_def accept_peer_def verify_client_cert_def verify_client_signature_def)
qed

text \<open>Two connections of the same sender, their turns alternating.\<close>

definition demo_events :: "server_event list" where
  "demo_events =
     [demo_connection, demo_connection, TaskTurn 0 7 True, TaskTurn 1 8 True, TaskTurn 1 8 True, TaskTurn 0 7 True,
      TaskTurn 1 8 True, TaskTurn 0 7 True, TaskTurn 1 8 True, ShutdownResolved, TaskTurn 0 7 True]"

definition demo_start :: "(received_message + pinned_identity) misfin_system" where
  "demo_start = \<lparr>sy_accepting = True, sy_tasks = [], sy_store = empty_store\<rparr>"

abbreviation demo_ana :: misfin_sender where
  "demo_ana \<equiv> \<lparr>ms_address = \<lparr>ma_mailbox = ''ana'', ma_host = ''o''\<rparr>, ms_blurb = Some ''Ana''\<rparr>"

definition demo_history :: "store_event list" where
  "demo_history =
     [IdentityChecked ''ana@o'' ''41'' 8 (Inr FirstContact), IdentityChecked ''ana@o'' ''41'' 7 (Inr IdentityMatch),
      SenderRecorded ''41'' 8 (Inr FirstSeen), SenderRecorded ''41'' 7 (Inr KnownSender),
      Stored demo_address ''41'' (Some demo_ana) ''hi'' 8 (Inr 0), Stored demo_address ''41'' (Some demo_ana) ''hi'' 7 (Inr 1)]"

lemma demo_turns:
  "\<exists>S. server_turns demo_libs demo_config demo_codec demo_events demo_start = (demo_history, S) \<and>
     sy_tasks S = [TaskDone (Some (response_new 20 ''00ff'')), TaskDone (Some (response_new 20 ''00ff''))]"
proof -
  have "mc_reject_changed_sender demo_config" by (simp add: demo_config_def misfin_config_new_def)
  then show ?thesis
    unfolding demo_events_def demo_start_def demo_history_def
    by (simp add: demo_task task_identity_def task_sender_def task_message_def demo_job_def Let_def
        check_and_record_identity_def record_sender_def store_message_def next_seq_def empty_store_def demo_codec_def
        as_addr_spec_def)
qed

lemma demo_run_of_server:
  obtains S where "misfin_run demo_libs demo_config demo_codec demo_start demo_events demo_history S"
    and "sy_tasks S = [TaskDone (Some (response_new 20 ''00ff'')), TaskDone (Some (response_new 20 ''00ff''))]"
  using demo_turns server_turns_run by metis

lemma demo_delivered:
  "delivered demo_history =
     [\<lparr>rm_seq = 0, rm_recipient = ''me@h'', rm_sender_fingerprint = ''41'', rm_sender_address = Some ''ana@o'', rm_body = ''hi'', rm_received_at = 8\<rparr>,
      \<lparr>rm_seq = 1, rm_recipient = ''me@h'', rm_sender_fingerprint = ''41'', rm_sender_address = Some ''ana@o'', rm_body = ''hi'', rm_received_at = 7\<rparr>]"
  by (simp add: demo_history_def delivered_def List.map_filter_def demo_address_def as_addr_spec_def)

lemma misfin_server_log_witness:
  "\<exists>S. misfin_run demo_libs demo_config demo_codec demo_start demo_events demo_history S \<and>
     list_mailbox demo_codec True (sy_store S) ''me@h'' = Inr (delivered demo_history) \<and>
     length (filter answered_20 (sy_tasks S)) = 2"
proof -
  obtain S where run: "misfin_run demo_libs demo_config demo_codec demo_start demo_events demo_history S"
    using demo_run_of_server by blast
  have "misfin_bind True (demo_config, empty_store) = Inr (demo_config, demo_start)"
    by (simp add: misfin_bind_def demo_start_def)
  from misfin_server_log [OF demo_codec_ok holds_log_empty _ this run, of "\<lambda>_ _. True" demo_config "''me@h''"] run
  show ?thesis by (auto simp: misfin_server_new_def demo_delivered)
qed

lemma misfin_one_certificate_witness:
  "rm_sender_fingerprint (delivered demo_history ! 0) = rm_sender_fingerprint (delivered demo_history ! 1)"
proof -
  obtain S where run: "misfin_run demo_libs demo_config demo_codec demo_start demo_events demo_history S"
    using demo_run_of_server by blast
  show ?thesis
    by (rule misfin_one_certificate [OF demo_codec_ok _ run [unfolded demo_start_def], where a = "''ana@o''"])
      (simp_all add: demo_config_def misfin_config_new_def demo_delivered, simp add: demo_history_def)
qed

end
