(* ===== verification/Misfin_Cli.thy ===== *)
theory Misfin_Cli
  imports Cli Misfin_System
begin

text \<open>
  The \<open>misfin\<close> tool (\<open>crates/misfin/src/bin/misfin.rs\<close>): its flags, and the commands that mint
  identities, send mail, start a mail server and list an inbox, as functions of the library's
  models. The directories of identities and the database files are the state of a run; certificate
  minting, dialling, the socket-address parser and binding are parameters.
\<close>

section \<open>Flags\<close>

record misfin_flags =
  mf_positional :: "string list"
  mf_root :: string
  mf_store :: string
  mf_blurb :: "string option"
  mf_from :: "string option"
  mf_port :: "nat option"
  mf_pin :: "string option"
  mf_listen :: "string option"

definition misfin_no_flags :: misfin_flags where
  "misfin_no_flags =
     \<lparr>mf_positional = [], mf_root = ''./misfin-data/identities'', mf_store = ''./misfin-data/mailbox.redb'',
      mf_blurb = None, mf_from = None, mf_port = None, mf_pin = None, mf_listen = None\<rparr>"

definition misfin_known :: "string \<Rightarrow> bool" where
  "misfin_known a \<longleftrightarrow> a \<in> {''--root'', ''--store'', ''--blurb'', ''--from'', ''--pin'', ''--listen'', ''--port''}"

text \<open>The assignment of a flag's value, in the order of the match.\<close>

definition misfin_put :: "string \<Rightarrow> string \<Rightarrow> misfin_flags \<Rightarrow> cli_error + misfin_flags" where
  "misfin_put n v F =
     (if n = ''--root'' then Inr (F\<lparr>mf_root := v\<rparr>)
      else if n = ''--store'' then Inr (F\<lparr>mf_store := v\<rparr>)
      else if n = ''--blurb'' then Inr (F\<lparr>mf_blurb := Some v\<rparr>)
      else if n = ''--from'' then Inr (F\<lparr>mf_from := Some v\<rparr>)
      else if n = ''--pin'' then Inr (F\<lparr>mf_pin := Some v\<rparr>)
      else if n = ''--listen'' then Inr (F\<lparr>mf_listen := Some v\<rparr>)
      else (case parse_uint u16_max v of None \<Rightarrow> Inl PortNotNumber | Some p \<Rightarrow> Inr (F\<lparr>mf_port := Some p\<rparr>)))"

fun misfin_parse_flags :: "string list \<Rightarrow> misfin_flags \<Rightarrow> cli_error + misfin_flags" where
  "misfin_parse_flags [] F = Inr F"
| "misfin_parse_flags (arg # rest) F =
     (if misfin_known arg
      then (case rest of [] \<Rightarrow> Inl (NeedsValue arg)
            | v # rest' \<Rightarrow> (case misfin_put arg v F of Inl e \<Rightarrow> Inl e | Inr G \<Rightarrow> misfin_parse_flags rest' G))
      else if starts_with ''--'' arg then Inl (UnknownFlag arg)
      else misfin_parse_flags rest (F\<lparr>mf_positional := mf_positional F @ [arg]\<rparr>))"

interpretation misfin_flags: flag_loop misfin_parse_flags misfin_known misfin_put
  "\<lambda>w F. F\<lparr>mf_positional := mf_positional F @ [w]\<rparr>"
  by unfold_locales auto

definition spec_for :: "string \<Rightarrow> string option \<Rightarrow> cli_error + misfin_identity_spec" where
  "spec_for address blurb =
     (case parse_address address of None \<Rightarrow> Inl LibraryError | Some a \<Rightarrow> Inr \<lparr>mi_address = a, mi_blurb = blurb\<rparr>)"

section \<open>The world of a run\<close>

text \<open>
  The identity directory at each root, and the database at each path (\<open>None\<close> where none can be
  opened or created; a new database is the empty store).
\<close>

record ('c, 'v) misfin_world =
  mw_dirs :: "string \<Rightarrow> 'c files"
  mw_stores :: "string \<Rightarrow> 'v mailbox_store option"

record ('c, 'v, 'a) misfin_env =
  me_sha :: "string \<Rightarrow> string"
  me_disk :: "'c disk"
  me_json :: "'c json"
  me_minted :: "misfin_identity_spec \<Rightarrow> client_identity option"
  me_codec :: "'v codec"
  me_readable :: bool
  me_runtime :: bool
  me_socket_addr :: "string \<Rightarrow> 'a option"
  me_usable :: "string \<Rightarrow> string \<Rightarrow> bool"
  me_bind :: "'a \<Rightarrow> bool"
  me_dial :: "string \<Rightarrow> string \<times> nat \<Rightarrow> (identity_material \<times> string list) option \<Rightarrow>
    send_error + string list \<times> (string \<Rightarrow> string \<times> stream_end)"

text \<open>What a run prints, the server it starts with its address and store path, and its error.\<close>

record ('v, 'a) misfin_outcome =
  mo_stdout :: string
  mo_server :: "('a \<times> string \<times> misfin_config \<times> 'v misfin_system) option"
  mo_error :: "cli_error option"

definition mo_fails :: "cli_error \<Rightarrow> ('v, 'a) misfin_outcome" where
  "mo_fails e = \<lparr>mo_stdout = [], mo_server = None, mo_error = Some e\<rparr>"

definition mo_prints :: "string \<Rightarrow> ('v, 'a) misfin_outcome" where
  "mo_prints out = \<lparr>mo_stdout = out, mo_server = None, mo_error = None\<rparr>"

definition load_material ::
    "('c, 'v, 'a) misfin_env \<Rightarrow> string \<Rightarrow> misfin_identity_spec \<Rightarrow> ('c, 'v) misfin_world \<Rightarrow>
     (cli_error + identity_material) \<times> ('c, 'v) misfin_world" where
  "load_material env root spec w =
     (case identity_material_with_root (me_disk env) (me_json env) (me_minted env spec) spec (mw_dirs w root) of
        (Inl e, fs) \<Rightarrow> (Inl LibraryError, w\<lparr>mw_dirs := (mw_dirs w)(root := fs)\<rparr>)
      | (Inr m, fs) \<Rightarrow> (Inr m, w\<lparr>mw_dirs := (mw_dirs w)(root := fs)\<rparr>))"

section \<open>id\<close>

definition join_path :: "string \<Rightarrow> string \<Rightarrow> string" where
  "join_path root f = (if root = [] \<or> ends_with ''/'' root then root @ f else root @ ''/'' @ f)"

definition print_status :: "string \<Rightarrow> identity_status \<Rightarrow> string" where
  "print_status root st =
     println (''address:     '' @ is_address st) @
     (case is_blurb st of Some b \<Rightarrow> println (''blurb:       '' @ b) | None \<Rightarrow> []) @
     println (''stored at:   '' @ join_path root (is_path st)) @
     (case is_fingerprint st of Some f \<Rightarrow> println (''fingerprint: '' @ f) | None \<Rightarrow> [])"

definition misfin_id ::
    "('c, 'v, 'a) misfin_env \<Rightarrow> misfin_flags \<Rightarrow> ('c, 'v) misfin_world \<Rightarrow> ('v, 'a) misfin_outcome \<times> ('c, 'v) misfin_world" where
  "misfin_id env F w =
     (case mf_positional F of
        [address] \<Rightarrow>
          (case spec_for address (mf_blurb F) of Inl e \<Rightarrow> (mo_fails e, w)
           | Inr spec \<Rightarrow>
             (case ensure_identity_with_root (me_sha env) (me_disk env) (me_json env) (me_minted env spec) spec
                     (mw_dirs w (mf_root F)) of
                (Inl e, fs) \<Rightarrow> (mo_fails LibraryError, w\<lparr>mw_dirs := (mw_dirs w)(mf_root F := fs)\<rparr>)
              | (Inr st, fs) \<Rightarrow> (mo_prints (print_status (mf_root F) st), w\<lparr>mw_dirs := (mw_dirs w)(mf_root F := fs)\<rparr>)))
      | _ \<Rightarrow> (mo_fails (CommandUsage ''id''), w))"

section \<open>send\<close>

fun misfin_status_name :: "misfin_status \<Rightarrow> string" where
  "misfin_status_name Delivered = ''message delivered''"
| "misfin_status_name SendHereInstead = ''send here instead''"
| "misfin_status_name SendHereForever = ''send here forever''"
| "misfin_status_name TemporaryError = ''temporary error''"
| "misfin_status_name ServerUnavailable = ''server is unavailable''"
| "misfin_status_name CgiError = ''CGI error''"
| "misfin_status_name ProxyingError = ''proxying error''"
| "misfin_status_name SlowDown = ''slow down''"
| "misfin_status_name MailboxFull = ''mailbox full''"
| "misfin_status_name PermanentError = ''permanent error''"
| "misfin_status_name MailboxDoesNotExist = ''mailbox doesn't exist''"
| "misfin_status_name MailboxGone = ''mailbox gone''"
| "misfin_status_name DomainNotServiced = ''domain not serviced''"
| "misfin_status_name BadRequest = ''bad request''"
| "misfin_status_name CertificateRequired = ''certificate required''"
| "misfin_status_name UnauthorizedSender = ''unauthorized sender''"
| "misfin_status_name CertificateInvalid = ''certificate invalid''"
| "misfin_status_name FingerprintChanged = ''fingerprint changed''"
| "misfin_status_name ProveIt = ''prove it''"
| "misfin_status_name (OtherStatus code) = []"

definition misfin_status_text :: "misfin_status \<Rightarrow> string" where
  "misfin_status_text s =
     (case s of OtherStatus code \<Rightarrow> ''unknown status '' @ show_nat code
      | _ \<Rightarrow> show_nat (misfin_code s) @ '' ('' @ misfin_status_name s @ '')'')"

definition misfin_send_command ::
    "('c, 'v, 'a) misfin_env \<Rightarrow> misfin_flags \<Rightarrow> ('c, 'v) misfin_world \<Rightarrow> ('v, 'a) misfin_outcome \<times> ('c, 'v) misfin_world" where
  "misfin_send_command env F w =
     (case mf_positional F of [] \<Rightarrow> (mo_fails (CommandUsage ''send''), w)
      | recipient # parts \<Rightarrow>
        if parts = [] then (mo_fails (EmptyInput ''send''), w)
        else (case mf_from F of None \<Rightarrow> (mo_fails FromRequired, w)
         | Some sender \<Rightarrow>
           (case parse_address recipient of None \<Rightarrow> (mo_fails LibraryError, w)
            | Some to_address \<Rightarrow>
              (case spec_for sender (mf_blurb F) of Inl e \<Rightarrow> (mo_fails e, w)
               | Inr spec \<Rightarrow>
                 (case load_material env (mf_root F) spec w of
                    (Inl e, w') \<Rightarrow> (mo_fails e, w')
                  | (Inr identity, w') \<Rightarrow>
                      if \<not> me_runtime env then (mo_fails RuntimeFailed, w')
                      else (case misfin_send (me_sha env) (me_dial env) to_address (join_with '' '' parts)
                              \<lparr>so_identity = Some identity, so_extra_chain = [], so_port = mf_port F,
                               so_expected_fingerprint = mf_pin F, so_connect_addr = None\<rparr> of
                         Inl e \<Rightarrow> (mo_fails LibraryError, w')
                       | Inr receipt \<Rightarrow>
                           (\<lparr>mo_stdout = println (misfin_status_text (sr_status receipt) @ '' '' @ sr_meta receipt) @
                                           println (''server fingerprint: '' @ sr_server_fingerprint receipt),
                             mo_server = None,
                             mo_error = (if misfin_is_success (sr_status receipt) then None
                               else Some (AnsweredError (misfin_status_text (sr_status receipt))))\<rparr>, w')))))))"

section \<open>serve\<close>

text \<open>The loop over the mailboxes: each with what is served and its material, minted on first use.\<close>

fun mint_served ::
    "('c, 'v, 'a) misfin_env \<Rightarrow> misfin_flags \<Rightarrow> string list \<Rightarrow> ('c, 'v) misfin_world \<Rightarrow>
     (cli_error + (served_mailbox \<times> identity_material) list) \<times> ('c, 'v) misfin_world" where
  "mint_served env F [] w = (Inr [], w)"
| "mint_served env F (mailbox # mailboxes) w =
     (case spec_for mailbox (mf_blurb F) of Inl e \<Rightarrow> (Inl e, w)
      | Inr spec \<Rightarrow>
        (case load_material env (mf_root F) spec w of (Inl e, w') \<Rightarrow> (Inl e, w')
         | (Inr m, w') \<Rightarrow>
           (case mint_served env F mailboxes w' of (Inl e, w'') \<Rightarrow> (Inl e, w'')
            | (Inr minted, w'') \<Rightarrow>
                (Inr ((\<lparr>sm_address = mi_address spec, sm_fingerprint = certificate_fingerprint (me_sha env) (im_certificate m)\<rparr>, m)
                      # minted), w''))))"

text \<open>What follows the loop, with the first mailbox's material as the server's identity.\<close>

definition start_server ::
    "('c, 'v, 'a) misfin_env \<Rightarrow> misfin_flags \<Rightarrow> served_mailbox list \<Rightarrow> identity_material \<Rightarrow> ('c, 'v) misfin_world \<Rightarrow>
     ('v, 'a) misfin_outcome" where
  "start_server env F served identity w =
     (let host = ma_host (sm_address (hd served)) in
      case find (\<lambda>m. ma_host (sm_address m) \<noteq> host) served of
        Some mismatched \<Rightarrow> mo_fails (HostsDiffer (ma_host (sm_address mismatched)) host)
      | None \<Rightarrow>
        (case me_socket_addr env (case mf_listen F of Some l \<Rightarrow> l | None \<Rightarrow> ''0.0.0.0:1958'') of
           None \<Rightarrow> mo_fails ListenNotAddress
         | Some addr \<Rightarrow>
           (case mw_stores w (mf_store F) of None \<Rightarrow> mo_fails LibraryError
            | Some s \<Rightarrow>
              (case misfin_server_new (me_usable env) (misfin_config_new (im_certificate identity) (im_private_key identity) served) s of
                 Inl e \<Rightarrow> mo_fails LibraryError
               | Inr server \<Rightarrow>
                   if \<not> me_runtime env then mo_fails RuntimeFailed
                   else (case misfin_bind (me_bind env addr) server of
                      Inl e \<Rightarrow> mo_fails BindFailed
                    | Inr (cfg, S) \<Rightarrow>
                        \<lparr>mo_stdout = [], mo_server = Some (addr, mf_store F, cfg, S), mo_error = None\<rparr>)))))"

definition misfin_serve_command ::
    "('c, 'v, 'a) misfin_env \<Rightarrow> misfin_flags \<Rightarrow> ('c, 'v) misfin_world \<Rightarrow> ('v, 'a) misfin_outcome \<times> ('c, 'v) misfin_world" where
  "misfin_serve_command env F w =
     (if mf_positional F = [] then (mo_fails (CommandUsage ''serve''), w)
      else (case mint_served env F (mf_positional F) w of
         (Inl e, w') \<Rightarrow> (mo_fails e, w')
       | (Inr minted, w') \<Rightarrow> (start_server env F (map fst minted) (snd (hd minted)) w', w')))"

section \<open>inbox\<close>

definition inbox_message :: "received_message \<Rightarrow> string" where
  "inbox_message m =
     (let sender = (case rm_sender_address m of Some a \<Rightarrow> a | None \<Rightarrow> ''fingerprint '' @ rm_sender_fingerprint m) in
      println (''#'' @ show_nat (rm_seq m) @ '' @'' @ show_nat (rm_received_at m) @ '' < '' @ sender) @
      concat (map (\<lambda>l. println (''  '' @ l)) (str_lines (rm_body m))))"

definition inbox_text :: "string \<Rightarrow> received_message list \<Rightarrow> string" where
  "inbox_text mailbox messages =
     (if messages = [] then println (''(no mail for '' @ mailbox @ '')'') else concat (map inbox_message messages))"

definition misfin_inbox ::
    "('c, 'v, 'a) misfin_env \<Rightarrow> misfin_flags \<Rightarrow> ('c, 'v) misfin_world \<Rightarrow> ('v, 'a) misfin_outcome" where
  "misfin_inbox env F w =
     (case mf_positional F of
        [mailbox] \<Rightarrow>
          (case mw_stores w (mf_store F) of None \<Rightarrow> mo_fails LibraryError
           | Some s \<Rightarrow>
             (case list_mailbox (me_codec env) (me_readable env) s mailbox of
                Inl e \<Rightarrow> mo_fails LibraryError | Inr messages \<Rightarrow> mo_prints (inbox_text mailbox messages)))
      | _ \<Rightarrow> mo_fails (CommandUsage ''inbox''))"

section \<open>The tool\<close>

definition misfin_usage :: string where
  "misfin_usage = concat (map (\<lambda>l. l @ [LF])
     [''misfin '' @ [CHR 0xE2, CHR 0x80, CHR 0x94] @ '' the Misfin mail protocol (spec: github.com/JCLemme/misfin)'',
      [],
      ''USAGE:'',
      ''  misfin id <mailbox@host> [--blurb TEXT] [--root DIR]'',
      ''      Mint (or show) a persisted identity; prints its fingerprint.'',
      [],
      ''  misfin send <recipient@host> <message...> --from <mailbox@host>'',
      ''              [--blurb TEXT] [--root DIR] [--port N] [--pin FINGERPRINT]'',
      ''      Deliver one message. The --from identity is minted on first use.'',
      [],
      ''  misfin serve <mailbox@host> [<mailbox@host>...] [--store FILE]'',
      ''               [--listen ADDR:PORT] [--root DIR]'',
      ''      Run a mailserver for the given mailboxes (they must share a host).'',
      ''      The first mailbox's certificate is the server's TLS identity.'',
      [],
      ''  misfin inbox <mailbox@host> [--store FILE]'',
      ''      List messages delivered to a mailbox of a local `misfin serve` store.'',
      [],
      ''OPTIONS:'',
      ''  --root DIR     Identity directory (default ./misfin-data/identities)'',
      ''  --store FILE   Mailbox database    (default ./misfin-data/mailbox.redb)''])"

definition misfin_tool ::
    "('c, 'v, 'a) misfin_env \<Rightarrow> string list \<Rightarrow> ('c, 'v) misfin_world \<Rightarrow> ('v, 'a) misfin_outcome \<times> ('c, 'v) misfin_world" where
  "misfin_tool env args w =
     (case args of [] \<Rightarrow> (mo_fails UsageText, w)
      | command # rest \<Rightarrow>
        (case misfin_parse_flags rest misfin_no_flags of Inl e \<Rightarrow> (mo_fails e, w)
         | Inr F \<Rightarrow>
           if command = ''id'' then misfin_id env F w
           else if command = ''send'' then misfin_send_command env F w
           else if command = ''serve'' then misfin_serve_command env F w
           else if command = ''inbox'' then (misfin_inbox env F w, w)
           else if command \<in> {''--help'', ''-h'', ''help''} then (mo_prints (println misfin_usage), w)
           else (mo_fails (UnknownCommand command), w)))"

section \<open>Properties\<close>

text \<open>The mailboxes of a minted list, in order, and the world left otherwise as it was.\<close>

lemma mint_served_addresses:
  "mint_served env F mailboxes w = (Inr minted, w') \<Longrightarrow>
   list_all2 (\<lambda>arg m. parse_address arg = Some (sm_address m)) mailboxes (map fst minted) \<and> mw_stores w' = mw_stores w"
proof (induction mailboxes arbitrary: w minted w')
  case (Cons mailbox mailboxes)
  obtain spec where spec: "spec_for mailbox (mf_blurb F) = Inr spec"
    using Cons.prems by (cases "spec_for mailbox (mf_blurb F)") auto
  obtain m w1 where m: "load_material env (mf_root F) spec w = (Inr m, w1)"
    using Cons.prems spec by (auto split: sum.splits prod.splits)
  obtain rest where r: "mint_served env F mailboxes w1 = (Inr rest, w')"
    and minted: "minted = (\<lparr>sm_address = mi_address spec, sm_fingerprint = certificate_fingerprint (me_sha env) (im_certificate m)\<rparr>, m) # rest"
    using Cons.prems spec m by (auto split: sum.splits prod.splits)
  have "parse_address mailbox = Some (mi_address spec)" using spec by (auto simp: spec_for_def split: option.splits)
  moreover have "mw_stores w1 = mw_stores w" using m by (auto simp: load_material_def split: sum.splits prod.splits)
  ultimately show ?case using Cons.IH [OF r] minted by simp
qed simp

lemma start_server_started:
  assumes "mo_server (start_server env F served identity w) = Some (addr, store, cfg, S)"
  shows "(\<forall>m \<in> set served. ma_host (sm_address m) = ma_host (sm_address (hd served))) \<and> store = mf_store F \<and>
    cfg = misfin_config_new (im_certificate identity) (im_private_key identity) served \<and>
    (\<exists>s. mw_stores w (mf_store F) = Some s \<and> S = \<lparr>sy_accepting = True, sy_tasks = [], sy_store = s\<rparr>)"
  using assms
  by (auto simp: start_server_def mo_fails_def misfin_server_new_def misfin_bind_def Let_def find_None_iff
      split: option.splits sum.splits prod.splits if_splits)

lemma tool_serves:
  assumes "misfin_tool env (''serve'' # args) w = (out, w')" "mo_server out = Some (addr, store, cfg, S)"
  shows "\<exists>F minted. misfin_parse_flags args misfin_no_flags = Inr F \<and> mf_positional F \<noteq> [] \<and>
    mint_served env F (mf_positional F) w = (Inr minted, w') \<and>
    mo_server (start_server env F (map fst minted) (snd (hd minted)) w') = Some (addr, store, cfg, S)"
  using assms
  by (auto simp: misfin_tool_def misfin_serve_command_def mo_fails_def split: sum.splits prod.splits if_splits)

lemma tool_inbox:
  assumes "\<not> starts_with ''--'' mailbox" "mw_stores w store = Some s" "me_readable env"
    and "codec_ok (me_codec env)" "holds_log (me_codec env) s log"
  shows "misfin_tool env [''inbox'', mailbox, ''--store'', store] w =
    (mo_prints (inbox_text mailbox (filter (\<lambda>m. rm_recipient m = mailbox) log)), w)"
proof -
  have "\<not> misfin_known mailbox" using assms(1) by (auto simp: misfin_known_def starts_with_def)
  then show ?thesis
    using assms(1-3) list_mailbox_log [OF assms(4,5)]
    by (simp add: misfin_tool_def misfin_inbox_def misfin_no_flags_def misfin_known_def misfin_put_def)
qed

text \<open>
  A started mail server serves what it was told to: the mailboxes are the parsed arguments in
  their order, they share one host, the TLS identity is the first one's, changed senders are
  rejected, and the store is the database of the flag.
\<close>

theorem misfin_serve_config:
  assumes "misfin_tool env (''serve'' # args) w = (out, w')" "mo_server out = Some (addr, store, cfg, S)"
  shows "\<exists>F host. misfin_parse_flags args misfin_no_flags = Inr F \<and> mf_positional F \<noteq> [] \<and>
    list_all2 (\<lambda>arg m. parse_address arg = Some (sm_address m)) (mf_positional F) (mc_served cfg) \<and>
    (\<forall>m \<in> set (mc_served cfg). ma_host (sm_address m) = host) \<and> mc_reject_changed_sender cfg \<and>
    mw_stores w (mf_store F) = Some (sy_store S) \<and> store = mf_store F"
proof -
  obtain F minted where F: "misfin_parse_flags args misfin_no_flags = Inr F" "mf_positional F \<noteq> []"
    "mint_served env F (mf_positional F) w = (Inr minted, w')"
    "mo_server (start_server env F (map fst minted) (snd (hd minted)) w') = Some (addr, store, cfg, S)"
    using tool_serves [OF assms] by blast
  from start_server_started [OF F(4)] mint_served_addresses [OF F(3)] F(1,2)
  show ?thesis by (auto simp: misfin_config_new_def)
qed

text \<open>
  Mail from the server's run to the reader's screen: after \<open>misfin serve\<close> has run over a store,
  with any connections in any interleaving, \<open>misfin inbox\<close> of a mailbox on the same store prints the
  mailbox's earlier messages and then exactly those the server delivered to it, in order.
\<close>

theorem misfin_inbox_shows_deliveries:
  assumes "codec_ok (me_codec env)" "me_readable env" "\<not> starts_with ''--'' mailbox"
    and "mw_stores w store = Some s" "holds_log (me_codec env) s log"
    and "misfin_tool env (''serve'' # args) w = (out, w1)" "mo_server out = Some (addr, store, cfg, S0)"
    and "misfin_run lb cfg (me_codec env) S0 vs es S"
    and "w2 = w1\<lparr>mw_stores := (mw_stores w1)(store \<mapsto> sy_store S)\<rparr>"
  shows "misfin_tool env [''inbox'', mailbox, ''--store'', store] w2 =
    (mo_prints (inbox_text mailbox (filter (\<lambda>m. rm_recipient m = mailbox) (log @ delivered es))), w2)"
proof -
  obtain F minted where F: "mint_served env F (mf_positional F) w = (Inr minted, w1)"
    "mo_server (start_server env F (map fst minted) (snd (hd minted)) w1) = Some (addr, store, cfg, S0)"
    using tool_serves [OF assms(6,7)] by blast
  have "sy_store S0 = s"
    using start_server_started [OF F(2)] mint_served_addresses [OF F(1)] assms(4) by auto
  then have "holds_log (me_codec env) (sy_store S) (log @ delivered es)"
    using run_log [OF run_history [OF assms(8)]] assms(5) by simp
  then show ?thesis
    using tool_inbox [OF assms(3) _ assms(2,1), of w2 store "sy_store S" "log @ delivered es"] assms(9) by simp
qed

lemma parsed_address:
  "parse_address arg = Some a \<Longrightarrow> CHR ''@'' \<notin> set (ma_mailbox a) \<and> ma_host a = to_lower (ma_host a)"
  using split_once_SomeD [of "CHR ''@''" "trim arg"]
  by (fastforce simp: parse_address_def split: option.splits if_splits)

lemma lower_not_upper: "lower_char c = c \<Longrightarrow> \<not> is_ascii_upper c"
proof
  assume c: "lower_char c = c" "is_ascii_upper c"
  then have "bval (char_of (bval c + 32) :: char) = bval c" by (simp add: lower_char_def)
  with c(2) show False by (simp add: is_ascii_upper_def between_def)
qed

lemma lower_no_upper: "to_lower h = h \<Longrightarrow> c \<in> set h \<Longrightarrow> \<not> is_ascii_upper c"
  by (induction h) (auto simp: to_lower_def lower_not_upper)

text \<open>
  The inbox does not normalise its argument: a mailbox written with an upper-case letter in its
  host, which \<open>serve\<close> and \<open>send\<close> accept and reduce to lower case, is reported as empty by \<open>inbox\<close>
  whatever has been delivered to it.
\<close>

theorem misfin_inbox_case_sensitive:
  assumes "codec_ok (me_codec env)" "me_readable env" "mw_stores w store = Some s" "holds_log (me_codec env) s log"
    and "\<forall>m \<in> set log. \<exists>arg a. parse_address arg = Some a \<and> rm_recipient m = as_addr_spec a"
    and "mailbox = name @ ''@'' @ host" "CHR ''@'' \<notin> set name" "c \<in> set host" "is_ascii_upper c"
    and "\<not> starts_with ''--'' mailbox"
  shows "misfin_tool env [''inbox'', mailbox, ''--store'', store] w =
    (mo_prints (println (''(no mail for '' @ mailbox @ '')'')), w)"
proof -
  have "rm_recipient m \<noteq> mailbox" if m: "m \<in> set log" for m
  proof
    assume eq: "rm_recipient m = mailbox"
    obtain arg a where a: "parse_address arg = Some a" "rm_recipient m = as_addr_spec a" using assms(5) m by blast
    then have "mailbox = ma_mailbox a @ CHR ''@'' # ma_host a" using eq by (simp add: as_addr_spec_def)
    then have "split_once (CHR ''@'') mailbox = Some (ma_mailbox a, ma_host a)"
      using parsed_address [OF a(1)] by simp
    then have "host = ma_host a" using assms(6,7) by simp
    then show False using parsed_address [OF a(1)] lower_no_upper [of host c] assms(8,9) by simp
  qed
  then have "filter (\<lambda>m. rm_recipient m = mailbox) log = []" by (auto simp: filter_empty_conv)
  then show ?thesis using tool_inbox [OF assms(10,3,2,1,4)] by (simp add: inbox_text_def)
qed

section \<open>Instances\<close>

definition demo_env :: "(persisted_identity, received_message + pinned_identity, string) misfin_env" where
  "demo_env =
     \<lparr>me_sha = \<lambda>_. [CHR 0x00, CHR 0xFF], me_disk = demo_disk, me_json = demo_json,
      me_minted = \<lambda>_. Some \<lparr>ci_chain = [[]], ci_key = []\<rparr>, me_codec = demo_codec, me_readable = True, me_runtime = True,
      me_socket_addr = Some, me_usable = \<lambda>_ _. True, me_bind = \<lambda>_. True, me_dial = \<lambda>_ _ _. Inl SendTls\<rparr>"

definition demo_world :: "(persisted_identity, received_message + pinned_identity) misfin_world" where
  "demo_world = \<lparr>mw_dirs = \<lambda>_. Map.empty, mw_stores = \<lambda>p. if p = ''db'' then Some empty_store else None\<rparr>"

lemma demo_serve:
  "\<exists>out w'. misfin_tool demo_env [''serve'', ''me@H'', ''--store'', ''db''] demo_world = (out, w') \<and>
     mo_server out = Some (''0.0.0.0:1958'', ''db'', demo_config, demo_start)"
proof -
  have a: "parse_address ''me@H'' = Some demo_address" "encode_hex [CHR 0x00, CHR 0xFF] = ''00ff''"
    by code_simp+
  then show ?thesis
    by (simp add: misfin_tool_def misfin_no_flags_def misfin_known_def misfin_put_def starts_with_def
        misfin_serve_command_def spec_for_def load_material_def identity_material_with_root_def
        load_or_create_identity_def identity_material_of_def start_server_def misfin_server_new_def misfin_bind_def
        demo_env_def demo_world_def demo_disk_def Let_def demo_config_def demo_start_def demo_served_def
        certificate_fingerprint_def sha256_hex_def)
qed

lemma misfin_serve_config_witness:
  "\<exists>F host. misfin_parse_flags [''me@H'', ''--store'', ''db''] misfin_no_flags = Inr F \<and> mf_positional F \<noteq> [] \<and>
     list_all2 (\<lambda>arg m. parse_address arg = Some (sm_address m)) (mf_positional F) (mc_served demo_config) \<and>
     (\<forall>m \<in> set (mc_served demo_config). ma_host (sm_address m) = host) \<and> mc_reject_changed_sender demo_config \<and>
     mw_stores demo_world (mf_store F) = Some (sy_store demo_start) \<and> ''db'' = mf_store F"
  using demo_serve misfin_serve_config by metis

lemma misfin_inbox_shows_witness:
  "\<exists>w2. misfin_tool demo_env [''inbox'', ''me@h'', ''--store'', ''db''] w2 =
     (mo_prints (inbox_text ''me@h'' (delivered demo_history)), w2)"
proof -
  obtain out w1 where serve: "misfin_tool demo_env [''serve'', ''me@H'', ''--store'', ''db''] demo_world = (out, w1)"
    "mo_server out = Some (''0.0.0.0:1958'', ''db'', demo_config, demo_start)"
    using demo_serve by blast
  obtain S where run: "misfin_run demo_libs demo_config demo_codec demo_start demo_events demo_history S"
    using demo_run_of_server by blast
  have env: "me_codec demo_env = demo_codec" "me_readable demo_env" by (simp_all add: demo_env_def)
  show ?thesis
    using misfin_inbox_shows_deliveries [of demo_env "''me@h''" demo_world "''db''" empty_store "[]", OF _ _ _ _ _ serve, unfolded env, OF _ _ _ _ _ run refl]
      holds_log_empty [of demo_codec]
    by (intro exI) (simp add: demo_world_def starts_with_def demo_delivered demo_env_def)
qed

lemma misfin_inbox_case_witness:
  "misfin_tool demo_env [''inbox'', ''me@H'', ''--store'', ''db'']
     (demo_world\<lparr>mw_stores := \<lambda>_. Some (snd (store_message demo_codec True empty_store demo_address ''F'' None ''one'' 1))\<rparr>) =
   (mo_prints (println ''(no mail for me@H)''),
    demo_world\<lparr>mw_stores := \<lambda>_. Some (snd (store_message demo_codec True empty_store demo_address ''F'' None ''one'' 1))\<rparr>)"
proof -
  have log: "holds_log demo_codec (snd (store_message demo_codec True empty_store demo_address ''F'' None ''one'' 1))
      [next_message [] demo_address ''F'' None ''one'' 1]"
    using holds_log_store [OF holds_log_empty, of demo_codec demo_address "''F''" None "''one''" 1] by (simp add: next_message_def)
  have a: "parse_address ''me@H'' = Some demo_address" by code_simp
  show ?thesis
    by (subst misfin_inbox_case_sensitive [where name = "''me''" and host = "''H''" and c = "CHR ''H''" and log = "[next_message [] demo_address ''F'' None ''one'' 1]"])
      (use log a in \<open>auto simp: demo_env_def next_message_def starts_with_def is_ascii_upper_def between_def\<close>)
qed

end
