(* ===== verification/Misfin_Receipt.thy ===== *)
theory Misfin_Receipt
  imports Misfin_Cli
begin

text \<open>
  A misfin message from the sender's receipt to the recipient's screen: the client
  (\<open>crates/misfin/src/client.rs\<close>), the running server with any other connections (\<open>server.rs\<close>,
  \<open>mailbox.rs\<close>) and the inbox of the tool (\<open>bin/misfin.rs\<close>) composed.
\<close>

section \<open>Where a task comes from\<close>

text \<open>The connections a server accepts, in order; it stops accepting at the shutdown.\<close>

fun accepted_connections :: "server_event list \<Rightarrow> (misfin_peer \<times> string \<times> stream_end) list" where
  "accepted_connections [] = []"
| "accepted_connections (ConnectionAccepted peer input e # vs) = (peer, input, e) # accepted_connections vs"
| "accepted_connections (ShutdownResolved # vs) = []"
| "accepted_connections (v # vs) = accepted_connections vs"

text \<open>The message that a job's third transaction stores.\<close>

definition job_message :: "delivery_job \<Rightarrow> nat \<Rightarrow> received_message" where
  "job_message j seq =
     \<lparr>rm_seq = seq, rm_recipient = as_addr_spec (dj_recipient j), rm_sender_fingerprint = dj_fingerprint j,
      rm_sender_address = map_option (\<lambda>x. as_addr_spec (ms_address x)) (dj_sender j), rm_body = dj_message j,
      rm_received_at = dj_now j\<rparr>"

text \<open>
  The tasks that a connection can have become, when \<open>ms\<close> have been delivered: a task past its
  request works on the job of that request, an answer's status has two digits, and status 20 was
  answered only for a job whose message is among \<open>ms\<close>.
\<close>

definition job_of ::
    "misfin_libs \<Rightarrow> misfin_config \<Rightarrow> misfin_peer \<times> string \<times> stream_end \<Rightarrow> delivery_job \<Rightarrow> bool" where
  "job_of lb cfg c j \<longleftrightarrow> (\<exists>now. task_request lb cfg now (fst c) (fst (snd c)) (snd (snd c)) = TaskIdentity j)"

fun task_origin ::
    "misfin_libs \<Rightarrow> misfin_config \<Rightarrow> received_message list \<Rightarrow> misfin_peer \<times> string \<times> stream_end \<Rightarrow> misfin_task \<Rightarrow> bool" where
  "task_origin lb cfg ms c (TaskAccepted peer input e) \<longleftrightarrow> c = (peer, input, e)"
| "task_origin lb cfg ms c (TaskIdentity j) \<longleftrightarrow> job_of lb cfg c j"
| "task_origin lb cfg ms c (TaskSender j) \<longleftrightarrow> job_of lb cfg c j"
| "task_origin lb cfg ms c (TaskMessage j) \<longleftrightarrow> job_of lb cfg c j"
| "task_origin lb cfg ms c (TaskDone r) \<longleftrightarrow>
     (\<forall>x. r = Some x \<longrightarrow> 10 \<le> mr_status x \<and> mr_status x < 100 \<and>
       (mr_status x = 20 \<longrightarrow>
         (\<exists>j seq. job_of lb cfg c j \<and> x = response_new 20 (dj_served j) \<and> job_message j seq \<in> set ms)))"

lemma task_origin_mono: "task_origin lb cfg ms c t \<Longrightarrow> set ms \<subseteq> set ms' \<Longrightarrow> task_origin lb cfg ms' c t"
  by (cases t) (auto, blast)

lemma refusal_status: "dispatch_decide lb cfg request cert now = Refused r \<Longrightarrow> 10 \<le> mr_status r \<and> mr_status r < 100"
  by (auto simp: dispatch_decide_def Let_def split: option.splits prod.splits if_splits)

lemma task_request_cases:
  "task_request lb cfg now peer input e = t \<Longrightarrow>
     (\<exists>j. t = TaskIdentity j) \<or>
     (\<exists>r. t = TaskDone r \<and> (\<forall>x. r = Some x \<longrightarrow> 10 \<le> mr_status x \<and> mr_status x < 100 \<and> mr_status x \<noteq> 20))"
  using refusal_status decide_refuses
  by (fastforce simp: task_request_def split: option.splits request_read.splits decision.splits)

lemma task_turn_origin:
  assumes "task_turn lb cfg cd now c t s = (es, t', s')" "task_origin lb cfg ms conn t"
  shows "task_origin lb cfg (ms @ delivered es) conn t'"
proof (cases t)
  case (TaskAccepted peer input e)
  then have t': "t' = task_request lb cfg now peer input e" "conn = (peer, input, e)"
    using assms by auto
  show ?thesis
  proof (cases "\<exists>j. t' = TaskIdentity j")
    case True
    then show ?thesis using t' by (auto simp: job_of_def)
  next
    case False
    then show ?thesis using task_request_cases [OF t'(1) [symmetric]] by auto
  qed
next
  case (TaskIdentity j)
  with assms show ?thesis
    by (auto simp: task_identity_def Let_def split: option.splits prod.splits sum.splits if_splits)
next
  case (TaskSender j)
  with assms show ?thesis
    by (auto simp: task_sender_def split: prod.splits sum.splits)
next
  case (TaskMessage j)
  then have j: "job_of lb cfg conn j" using assms(2) by simp
  obtain r s1 where r: "store_message cd c s (dj_recipient j) (dj_fingerprint j) (dj_sender j) (dj_message j) (dj_now j) = (r, s1)"
    by (cases "store_message cd c s (dj_recipient j) (dj_fingerprint j) (dj_sender j) (dj_message j) (dj_now j)") simp
  show ?thesis
  proof (cases r)
    case (Inl e)
    then show ?thesis using assms(1) TaskMessage r by (auto simp: task_message_def split: store_error.splits)
  next
    case (Inr seq)
    then have "es = [Stored (dj_recipient j) (dj_fingerprint j) (dj_sender j) (dj_message j) (dj_now j) (Inr seq)]"
        "t' = TaskDone (Some (response_new 20 (dj_served j)))"
      using assms(1) TaskMessage r by (auto simp: task_message_def)
    moreover from this have "job_message j seq \<in> set (delivered es)"
      by (simp add: delivered_single job_message_def)
    ultimately show ?thesis using j by auto
  qed
next
  case (TaskDone r)
  with assms task_origin_mono [of lb cfg ms conn t "ms @ delivered es"] show ?thesis by auto
qed

section \<open>The tasks of a run\<close>

lemma accepted_connections_snoc:
  "accepted_connections (vs @ [v]) = accepted_connections vs @
     (if ShutdownResolved \<in> set vs then [] else accepted_connections [v])"
proof (induction vs)
  case (Cons u vs)
  then show ?case by (cases u) auto
qed simp

lemma run_accepting:
  "misfin_run lb cfg cd S0 vs es S \<Longrightarrow> sy_accepting S0 \<Longrightarrow> sy_accepting S \<longleftrightarrow> ShutdownResolved \<notin> set vs"
proof (induction rule: misfin_run.induct)
  case (run_turn vs es S v es' S')
  then show ?case by (cases v) (auto split: if_splits prod.splits)
qed simp

lemma run_origins:
  assumes "misfin_run lb cfg cd S0 vs es S" "sy_accepting S0" "sy_tasks S0 = []"
  shows "list_all2 (task_origin lb cfg (delivered es)) (accepted_connections vs) (sy_tasks S)"
  using assms
proof (induction rule: misfin_run.induct)
  case (run_turn vs es S v es' S')
  have old: "list_all2 (task_origin lb cfg (delivered es)) (accepted_connections vs) (sy_tasks S)"
    using run_turn by simp
  then have mono: "list_all2 (task_origin lb cfg (delivered (es @ es'))) (accepted_connections vs) (sy_tasks S)"
    by (rule list_all2_mono) (auto simp: delivered_append intro: task_origin_mono)
  have acc: "sy_accepting S \<longleftrightarrow> ShutdownResolved \<notin> set vs"
    using run_accepting [OF run_turn.hyps(1)] run_turn.prems by simp
  show ?case
  proof (cases v)
    case (ConnectionAccepted peer input e)
    with mono acc run_turn.hyps(2) show ?thesis
      by (auto simp: accepted_connections_snoc list_all2_appendI split: if_splits)
  next
    case (TaskTurn i now c)
    have same: "accepted_connections (vs @ [TaskTurn i now c]) = accepted_connections vs"
      by (simp add: accepted_connections_snoc)
    show ?thesis
    proof (cases "i < length (sy_tasks S)")
      case True
      obtain es1 t s where t: "task_turn lb cfg cd now c (sy_tasks S ! i) (sy_store S) = (es1, t, s)"
        by (metis prod_cases3)
      then have e: "es1 = es'" "sy_tasks S' = (sy_tasks S)[i := t]"
        using run_turn.hyps(2) TaskTurn True by auto
      have "task_origin lb cfg (delivered es) (accepted_connections vs ! i) (sy_tasks S ! i)"
        using old True by (simp add: list_all2_conv_all_nth)
      then have "task_origin lb cfg (delivered (es @ es')) (accepted_connections vs ! i) t"
        using task_turn_origin [OF t] e by (simp add: delivered_append)
      then show ?thesis
        using mono e(2) True unfolding TaskTurn same by (auto simp: list_all2_conv_all_nth nth_list_update)
    qed (use mono run_turn.hyps(2) TaskTurn in \<open>auto simp: same\<close>)
  qed (use mono run_turn.hyps(2) in \<open>auto simp: accepted_connections_snoc split: prod.splits if_splits\<close>)
qed simp

section \<open>The job of a client's request\<close>

lemma decide_job:
  assumes "dispatch_decide lb cfg request (Some cert) now = Admitted j"
    and "split_request request = Some (target, message)" "parse_recipient (lb_url lb) target = Some recipient"
  shows "dj_recipient j = recipient \<and> dj_message j = message \<and> dj_fingerprint j = sha256_hex (lb_sha lb) cert"
  using assms by (auto simp: dispatch_decide_def Let_def split: if_splits option.splits)

lemma client_job:
  assumes "request_ok recipient message" "url_reads_target (lb_url lb) recipient"
    and "job_of lb cfg (\<lparr>mp_certificate = Some cert, mp_genuine = True\<rparr>, target_of recipient @ '' '' @ message @ CRLF, Eof) j"
  shows "dj_recipient j = recipient \<and> dj_message j = trim_newlines message \<and> dj_fingerprint j = sha256_hex (lb_sha lb) cert"
proof -
  have a: "address_ok recipient" using assms(1) by (simp add: request_ok_def)
  obtain now where now: "task_request lb cfg now \<lparr>mp_certificate = Some cert, mp_genuine = True\<rparr>
      (target_of recipient @ '' '' @ message @ CRLF) Eof = TaskIdentity j"
    using assms(3) by (auto simp: job_of_def)
  then have "dispatch_decide lb cfg (target_of recipient @ '' '' @ trim_newlines message) (Some cert) now = Admitted j"
    using server_reads_request [OF assms(1)]
    by (cases "dispatch_decide lb cfg (target_of recipient @ '' '' @ trim_newlines message) (Some cert) now")
      (simp_all add: task_request_def accept_peer_def verify_client_cert_def verify_client_signature_def)
  then show ?thesis
    by (rule decide_job [OF _ split_request_sent [OF a] parse_recipient_sent [OF a assms(2)]])
qed

section \<open>The client's reading of an answer\<close>

lemma response_line_keeps:
  "misfin_response_line buf s e = Inr line \<Longrightarrow> \<exists>x. line = from_utf8_lossy (buf @ x)"
proof (induction buf s e rule: misfin_response_line.induct)
  case (2 buf c cs e)
  then show ?case by (auto split: if_splits)
next
  case (1 buf e)
  then show ?case by (auto split: stream_end.splits intro: exI [of _ "[]"])
qed

lemma lossy_ascii: "ascii c \<Longrightarrow> from_utf8_lossy (c # s) = c # from_utf8_lossy s"
  by (subst from_utf8_lossy.simps) (simp add: utf8_step_def byte_at_def ascii_def Let_def)

lemma digit_plain: "is_digit d \<Longrightarrow> ascii d \<and> d \<noteq> CR \<and> d \<noteq> LF"
  by (auto simp: is_digit_def ascii_def between_def)

text \<open>Whatever the meta text, the client reads the status that was written.\<close>

lemma client_reads_status:
  assumes "misfin_transact (\<lambda>_. (misfin_response_encode r, Eof)) sent sfp = Inr receipt"
    and "10 \<le> mr_status r" "mr_status r < 100"
  shows "sr_status receipt = misfin_from_code (mr_status r)"
proof -
  note d = two_digits [OF assms(2,3)]
  let ?d0 = "digit_char (mr_status r div 10)" and ?d1 = "digit_char (mr_status r mod 10)"
  have enc: "misfin_response_encode r = ?d0 # ?d1 # '' '' @ mr_meta r @ CRLF"
    using assms(2) d(1) by (simp add: misfin_response_encode_def)
  obtain line st m where line: "misfin_response_line [] (misfin_response_encode r) Eof = Inr line"
    and st: "misfin_parse_response_line line = Some (st, m)" "sr_status receipt = st"
    using assms(1) by (auto simp: misfin_transact_def split: sum.splits option.splits)
  have "misfin_response_line [?d0, ?d1] ('' '' @ mr_meta r @ CRLF) Eof = Inr line"
    using line digit_plain [OF d(2)] digit_plain [OF d(3)]
    by (auto simp: enc ends_with_crlf_snoc [of "[]", simplified] ends_with_crlf_snoc [of "[?d0]", simplified] MAX_REQUEST_def
        split: if_splits)
  then obtain x where "line = from_utf8_lossy ([?d0, ?d1] @ x)"
    using response_line_keeps by blast
  then have "line = [?d0] @ ?d1 # from_utf8_lossy x"
    using digit_plain [OF d(2)] digit_plain [OF d(3)] by (simp add: lossy_ascii)
  then have trimmed: "trim_newlines line = ?d0 # ?d1 # trim_newlines (from_utf8_lossy x)"
    using trim_newlines_after [of ?d1 "[?d0]"] digit_plain [OF d(3)] by simp
  have "parse_uint 255 [?d0, ?d1] = Some (mr_status r)"
    using parse_show_nat [of "mr_status r" 255] d(1) assms(3) by simp
  then show ?thesis
    using st trimmed by (auto simp: misfin_parse_response_line_def Let_def numeral_2_eq_2 split: if_splits)
qed

lemma misfin_send_status:
  assumes "misfin_send sha (\<lambda>_ _ _. Inr (certs, \<lambda>_. (misfin_response_encode r, Eof))) recipient message options = Inr receipt"
    and "10 \<le> mr_status r" "mr_status r < 100"
  shows "sr_status receipt = misfin_from_code (mr_status r)"
  using assms(1)
  by (auto simp: misfin_send_def Let_def split: sum.splits list.splits option.splits if_splits
      intro: client_reads_status [OF _ assms(2,3)])

section \<open>From the receipt to the inbox\<close>

text \<open>
  (C40) A misfin message that its sender was told is delivered can be read: when \<open>misfin_send\<close>
  returns a receipt of status 20 from a running server, whatever other connections the server was
  working on and however their turns interleaved, \<open>misfin inbox\<close> of the recipient on that server's
  store prints a list that has the sender's message, under the fingerprint of the certificate that
  the connection presented.
\<close>

theorem misfin_receipt_is_read:
  assumes "codec_ok (me_codec env)" "me_readable env" "\<not> starts_with ''--'' (as_addr_spec recipient)"
    and "mw_stores w store = Some s" "holds_log (me_codec env) s log"
    and "misfin_tool env (''serve'' # args) w = (out, w1)" "mo_server out = Some (addr, store, cfg, S0)"
    and "misfin_run lb cfg (me_codec env) S0 vs es S"
    and "w2 = w1\<lparr>mw_stores := (mw_stores w1)(store \<mapsto> sy_store S)\<rparr>"
    and "request_ok recipient message" "url_reads_target (lb_url lb) recipient"
    and "i < length (sy_tasks S)" "sy_tasks S ! i = TaskDone (Some r)"
    and "accepted_connections vs ! i =
      (\<lparr>mp_certificate = Some cert, mp_genuine = True\<rparr>, target_of recipient @ '' '' @ message @ CRLF, Eof)"
    and "misfin_send sha (\<lambda>_ _ _. Inr (certs, \<lambda>_. (misfin_response_encode r, Eof))) recipient message options = Inr receipt"
    and "sr_status receipt = Delivered"
  shows "\<exists>ms m. misfin_tool env [''inbox'', as_addr_spec recipient, ''--store'', store] w2 =
      (mo_prints (inbox_text (as_addr_spec recipient) ms), w2) \<and> m \<in> set ms \<and>
    rm_body m = trim_newlines message \<and> rm_sender_fingerprint m = sha256_hex (lb_sha lb) cert"
proof -
  obtain F minted where F: "mint_served env F (mf_positional F) w = (Inr minted, w1)"
    "mo_server (start_server env F (map fst minted) (snd (hd minted)) w1) = Some (addr, store, cfg, S0)"
    using tool_serves [OF assms(6,7)] by blast
  have S0: "sy_store S0 = s" "sy_accepting S0" "sy_tasks S0 = []"
    using start_server_started [OF F(2)] mint_served_addresses [OF F(1)] assms(4) by auto
  have "holds_log (me_codec env) (sy_store S) (log @ delivered es)"
    using run_log [OF run_history [OF assms(8)]] assms(5) S0(1) by simp
  then have tool: "misfin_tool env [''inbox'', as_addr_spec recipient, ''--store'', store] w2 =
      (mo_prints (inbox_text (as_addr_spec recipient)
        (filter (\<lambda>m. rm_recipient m = as_addr_spec recipient) (log @ delivered es))), w2)"
    using tool_inbox [OF assms(3) _ assms(2,1), of w2 store "sy_store S" "log @ delivered es"] assms(9) by simp
  have "task_origin lb cfg (delivered es) (accepted_connections vs ! i) (sy_tasks S ! i)"
    using run_origins [OF assms(8) S0(2,3)] assms(12) by (simp add: list_all2_conv_all_nth)
  then have o: "10 \<le> mr_status r" "mr_status r < 100"
    "mr_status r = 20 \<Longrightarrow> \<exists>j seq. job_of lb cfg (accepted_connections vs ! i) j \<and> job_message j seq \<in> set (delivered es)"
    using assms(13) by auto
  have "misfin_code (sr_status receipt) = mr_status r"
    using misfin_send_status [OF assms(15) o(1,2)] by simp
  then have "mr_status r = 20" using assms(16) by simp
  then obtain j seq where j: "job_of lb cfg (accepted_connections vs ! i) j" "job_message j seq \<in> set (delivered es)"
    using o(3) by blast
  have "dj_recipient j = recipient \<and> dj_message j = trim_newlines message \<and> dj_fingerprint j = sha256_hex (lb_sha lb) cert"
    using client_job [OF assms(10,11)] j(1) assms(14) by simp
  then show ?thesis
    using tool j(2) by (intro exI [of _ "filter (\<lambda>m. rm_recipient m = as_addr_spec recipient) (log @ delivered es)"]
        exI [of _ "job_message j seq"]) (simp add: job_message_def)
qed

section \<open>Instance\<close>

lemma misfin_receipt_witness:
  "\<exists>w2 ms m. misfin_tool demo_env [''inbox'', as_addr_spec demo_address, ''--store'', ''db''] w2 =
      (mo_prints (inbox_text (as_addr_spec demo_address) ms), w2) \<and> m \<in> set ms \<and>
    rm_body m = trim_newlines ''hi'' \<and> rm_sender_fingerprint m = sha256_hex (lb_sha demo_libs) ''A''"
proof -
  obtain out w1 where serve: "misfin_tool demo_env [''serve'', ''me@H'', ''--store'', ''db''] demo_world = (out, w1)"
    "mo_server out = Some (''0.0.0.0:1958'', ''db'', demo_config, demo_start)"
    using demo_serve by blast
  obtain S where run: "misfin_run demo_libs demo_config demo_codec demo_start demo_events demo_history S"
    and tasks: "sy_tasks S = [TaskDone (Some (response_new 20 ''00ff'')), TaskDone (Some (response_new 20 ''00ff''))]"
    using demo_run_of_server by blast
  have env: "me_codec demo_env = demo_codec" "me_readable demo_env" by (simp_all add: demo_env_def)
  have ok: "url_reads_target (lb_url demo_libs) demo_address"
    by (simp add: url_reads_target_def demo_libs_def demo_address_def)
  let ?c = "(\<lparr>mp_certificate = Some ''A'', mp_genuine = True\<rparr>, target_of demo_address @ '' '' @ ''hi'' @ CRLF, Eof)"
  have conn: "accepted_connections demo_events ! 0 = ?c"
    by (simp add: demo_events_def demo_bytes_def)
  define options where "options = \<lparr>so_identity = None, so_extra_chain = [], so_port = None, so_expected_fingerprint = None, so_connect_addr = None\<rparr>"
  have resp: "misfin_response_line [] (misfin_response_encode (response_new 20 ''00ff'')) Eof = Inr (''20 00ff'' @ CRLF)"
    by code_simp
  have parse: "misfin_parse_response_line (''20 00ff'' @ CRLF) = Some (Delivered, ''00ff'')"
    by code_simp
  obtain request where "build_request demo_address ''hi'' = Inr request"
    using build_request_ok [OF demo_mail_request] by blast
  then have sent: "misfin_send (\<lambda>_. []) (\<lambda>_ _ _. Inr ([''X''], \<lambda>_. (misfin_response_encode (response_new 20 ''00ff''), Eof)))
      demo_address ''hi'' options = Inr \<lparr>sr_status = Delivered, sr_meta = ''00ff'', sr_server_fingerprint = sha256_hex (\<lambda>_. []) ''X''\<rparr>"
    by (simp add: misfin_send_def misfin_transact_def options_def resp parse [simplified])
  show ?thesis
    by (rule exI, rule misfin_receipt_is_read [of demo_env demo_address demo_world "''db''" empty_store "[]", OF _ _ _ _ _ serve, unfolded env,
        OF _ _ _ _ _ run refl demo_mail_request ok _ _ conn sent])
      (simp_all add: demo_codec_ok holds_log_empty demo_world_def demo_env_def tasks as_addr_spec_def demo_address_def starts_with_def)
qed

end
