(* ===== verification/Spec2Isabelle.thy ===== *)
theory Spec2Isabelle
  imports Guppy_Findings Guppy_Recovery Fsp_Listing Gemini_Gemtext Tofu_Fetch Scroll_Text Dict_Client
    Serving Webfinger Tls_Connect Misfin_Receipt
begin

text \<open>
  A verification of the smolweb protocol crates (\<open>src/crates/*\<close>): clients and servers of the small
  Internet protocols guppy, scorpion, FSP, gemini and titan, kepler, scroll, nex, spartan, finger,
  Text, DICT, gopher and misfin. Every crate is a library of its own, with the same outline: a wire
  format, a client that turns a URL into one exchange and parses what comes back, often a server
  that reads a request, asks a handler and writes the answer, and for four of them a command-line
  tool. One crate calls another (the fetch of scroll uses gemini's \<open>tofu_connect\<close> and so its store of
  pins); apart from that they share the outline, the Rust standard library
  and the third-party crates (\<open>url\<close>, \<open>percent-encoding\<close>, rustls, serde, redb, certificate libraries).

  \<^bold>\<open>How the code is modelled.\<close> A Rust \<open>String\<close>, \<open>&str\<close> or text buffer is the list of its UTF-8 bytes
  (\<open>string\<close>), so that lengths are byte lengths; the binary formats (FSP, scorpion documents) use
  \<open>8 word list\<close> and words of their width. Unsigned integers of text protocols are \<open>nat\<close> with their
  bound written out (\<open>parse_uint u64_max\<close>, \<open>checked_add\<close>), and an addition that overflows is an
  outcome of the model. Structs are records, enums datatypes, errors the left side of a sum (an error
  that is only a message may be a bare constructor or \<open>None\<close>). A connection is the bytes that
  arrive with how the stream ends (\<open>Eof\<close> or \<open>Broken\<close>; a timeout is a broken stream) and the bytes
  that are written. Datagrams, clocks, random numbers, failing sends and the outcome of a database
  transaction are arguments, so a theorem holds for each of their behaviours. Third-party code is a
  parameter: the URL parser (\<open>up\<close>, its result the record \<open>url\<close>), percent decoding (\<open>pct\<close>), IDNA, SHA-256,
  certificate parsing and minting, the JSON codecs, percent encoding (\<open>enc\<close>), rustls (with which servers a
  handshake succeeds; where a verifier of the crates pins or accepts certificates, as documented: it is
  shown the leaf certificate and the handshake signature), and of the standard library the
  socket-address parser, the file system and binding.

  \<^bold>\<open>Shared theories.\<close>
  \<^item> \<open>Rust_Std\<close>, \<open>Rust_Str\<close>, \<open>Rust_Ascii\<close>, \<open>Rust_Int\<close>, \<open>Rust_Bytes\<close>, \<open>Rust_Io\<close>, \<open>Rust_Words\<close>: UTF-8
    validation and lossy decoding, Unicode trimming, splitting, decimal printing and \<open>FromStr\<close>, ASCII
    classes, big-endian integers, bounded reading, words and joining; with the lemmas the
    components share.
  \<^item> \<open>Btree\<close> (locale \<open>ordered_map\<close>, interpreted on the entry list of a \<open>BTreeMap\<close>); \<open>Codec\<close> (locales
    \<open>wire_codec\<close>, \<open>block_codec\<close>, \<open>exact_block_codec\<close>: encoders and decoders; a sequence of
    self-delimiting blocks is a message, by a \<open>sublocale\<close>; interpreted for guppy packets and datagrams,
    FSP packets, scorpion documents, kepler headers, gemmail); \<open>Url_Iface\<close>.
  \<^item> \<open>Line_Server\<close>: reading a request line, and locale \<open>one_shot\<close>, the contract of a server that reads one
    request and writes one answer (interpreted for nex, spartan, finger, gopher, gopher+).
  \<^item> \<open>Accept_Loop\<close>: the loop in \<open>serve\<close> of the TCP servers and its tasks, which read their requests byte by
    byte and share one handler with state, over any sequence of events (arrivals, failed accepts, bytes,
    ends and failures of streams, returns of the handler, the shutdown); locale \<open>task_reader\<close> links such
    a reader to the \<open>handle_connection\<close> that is a function of the whole input. \<open>Serving\<close> has the readers of
    finger, gopher, nex, spartan and gemini and interprets the locale on each.
  \<^item> \<open>File_Serving\<close>: path resolution, MIME types and locale \<open>directory_handler\<close>, interpreted for the static
    handlers of nex, spartan and guppy: whatever the request, only paths below the root are read.

  \<^bold>\<open>Components.\<close>
  \<^item> guppy (\<open>crates/guppy-protocol/src\<close>): \<open>Guppy_Packet\<close> (\<open>packet.rs\<close>), \<open>Guppy_Server\<close> (\<open>server.rs\<close>:
    sessions, window, acknowledgement, retransmission, one definition per arm of the receive loop),
    \<open>Guppy_Client\<close> (\<open>client.rs\<close>: reassembly, transaction loop; locale \<open>transfer_source\<close>), \<open>Guppy_Session\<close>
    (invariants of a server's sessions), \<open>Guppy_System\<close> (both ends composed over a network that
    loses, duplicates and reorders), \<open>Guppy_Link\<close> (the two connected, the acknowledgements the client's own),
    \<open>Guppy_Recovery\<close> (ticks after losses), \<open>Guppy_Findings\<close>, \<open>Guppy_Files\<close> (\<open>FileHandler\<close>, and the confinement of all
    static handlers).
  \<^item> scorpion: \<open>Scorpion_Document\<close> (\<open>document.rs\<close>, an exact binary format), \<open>Scorpion_Status\<close>, \<open>Scorpion_Request\<close>,
    \<open>Scorpion_Response\<close>, \<open>Scorpion_Net\<close> (\<open>server.rs\<close>, \<open>client.rs\<close>).
  \<^item> FSP: \<open>Fsp_Wire\<close> and \<open>Fsp_Directory\<close> (\<open>wire.rs\<close>: packets, checksums, directory blocks), \<open>Fsp_Client\<close>
    (\<open>client.rs\<close>: connecting, retransmission, whole files, listings), \<open>Fsp_Listing\<close> (a listing composed with a
    server that keeps a directory as blocks).
  \<^item> gemini: \<open>Gemini_Gemtext\<close> (\<open>gemtext.rs\<close>), \<open>Gemini_Net\<close> (\<open>client.rs\<close>, \<open>server.rs\<close>, \<open>titan.rs\<close>),
    \<open>Gemini_Tofu\<close> (\<open>tofu.rs\<close>, the pinning verifier of \<open>tls.rs\<close>, \<open>tofu_connect\<close>; locale \<open>pin_store\<close>),
    \<open>Tofu_Fetch\<close> (\<open>fetch\<close> of gemini and of scroll over the pins, and several connections interleaved
    over one store).
  \<^item> \<open>Kepler\<close> (\<open>wire.rs\<close>, \<open>client.rs\<close>); \<open>Scroll_Wire\<close> and \<open>Scroll_Text\<close>; \<open>Nex\<close>; \<open>Spartan\<close>; \<open>Finger\<close>;
    \<open>Webfinger\<close> (the request URL, the descriptor as data and its lookups);
    \<open>Text_Protocol\<close>; \<open>Dict_Wire\<close> and \<open>Dict_Client\<close> (a session whose every command, refused or not, must
    leave the reader at the start of the next reply); \<open>Gopher_Menu\<close> (menus and gopher+ documents) and
    \<open>Gopher_Net\<close>.
  \<^item> misfin (\<open>crates/misfin/src\<close>): \<open>Misfin_Core\<close> (addresses, hexadecimal, statuses), \<open>Misfin_Mail\<close>
    (\<open>gemmail.rs\<close>), \<open>Misfin_Identity\<close> (\<open>identity.rs\<close>, \<open>x509_identity.rs\<close>), \<open>Misfin_Store\<close> (\<open>mailbox.rs\<close>: the
    tables, one definition per transaction, the step relation \<open>store_step\<close>), \<open>Misfin_Net\<close> (\<open>server.rs\<close>,
    \<open>client.rs\<close>: the dispatcher and one transaction from both ends), \<open>Misfin_Delivery\<close> (the ends
    composed), \<open>Misfin_System\<close> (the running server: tasks cut at their transactions and interleaved
    over one store), \<open>Misfin_Receipt\<close> (client, running server and inbox composed).
  \<^item> \<open>Tls_Connect\<close>: the accept-any connectors of kepler, gopher, Text, Titan, scorpion and misfin, and
    misfin's check of an expected fingerprint.
  \<^item> \<open>Cli\<close> and \<open>Misfin_Cli\<close>: the tools \<open>guppy\<close>, \<open>nex\<close>, \<open>spartan\<close> (locale \<open>flag_loop\<close>, interpreted on both flag
    parsers) and \<open>misfin\<close>, on top of the library models.

  \<^bold>\<open>What the theorems show.\<close>
  \<^item> Formats: decoding inverts encoding (guppy, FSP, scorpion documents, kepler headers, gemmail, gemtext);
    the exact formats accept nothing else; a truncated scorpion document is an error, never a shorter one;
    the inline spans of scrolltext are those of a reading over characters that has no state; a WebFinger
    query carries the resource and the relations given and nothing else.
  \<^item> Exchanges: for each protocol with both ends, the client composed with the server returns what the
    handler answered, on every branch, the limits and errors included; for guppy over an unreliable
    network, safety for every delivery, completion for a fair one, and termination of a session; for
    both ends connected, the server is done with a session only when the client has the response, and
    after any losses one delivered tick per packet not yet acknowledged is enough to finish.
  \<^item> State: the window invariant of the guppy server; a mailbox is the log of its deliveries, after any
    history and in any interleaving of connections, and a message whose sender was told that it is
    delivered is in its recipient's inbox; pins hold; one certificate per claimed address
    even when first contacts race; the line servers, their tasks interleaved byte by byte over a shared
    handler, answer each connection as its task alone would, with one call of the handler at a time.
  \<^item> Security boundaries, in both directions: static handlers never leave their root, gemini pins hold
    in every interleaving of connections, although first contacts race; a misfin delivery with an
    expected fingerprint speaks to no server with another certificate; but the verifiers of the other
    crates accept every certificate and signature, and misfin's server accepts a copied certificate.
  \<^item> Behaviours that the code's comments do not intend are theorems too (\<open>Guppy_Findings\<close>, and the theorems
    named for what goes wrong in the other theories), each with a concrete instance.

  \<^bold>\<open>Bounds and fuel.\<close> Loops of the code that need no bound are structural or have a measure. The FSP client
  asks for blocks until a short one arrives, which a server can withhold for ever: \<open>get_file_loop\<close> and
  \<open>list_loop\<close> take fuel, and \<open>fsp_get_file_correct\<close> shows that one round per 1024-byte block and one more
  are enough for a file, \<open>fsp_list_correct\<close> that one round per block and one more are enough for a
  directory. The guppy loops and the accept loops run over the list of their events. The
  read limits of the code (1024 bytes for a gemini request, 2048 for misfin, 512, 2048 and 4096 in
  the line servers' default configurations) are definitions with the code's values or fields of the
  configuration records.

  \<^bold>\<open>Not modelled.\<close> Sockets and the tokio runtime (their results are arguments), what happens to running tasks
  when the runtime is dropped, and log messages; the texts of error messages beyond those that
  travel over the wire or that a tool prints; serde's JSON, and
  with it \<open>parse\<close> of a WebFinger descriptor and what its attributes make of a document; the
  certificate and key libraries; writes that fail after a request was served; the signature schemes
  the verifiers advertise; the mint with explicit validity years, which only tests use; the tests.
\<close>

end
